(* ===== verification/Go_Prelude.thy ===== *)
theory Go_Prelude
  imports Main "HOL-Library.Word" "HOL-Library.Signed_Division" "HOL-Library.Monad_Syntax"
begin

text \<open>
  What the components share of the Go language and its standard library: fixed-width integers,
  the little-endian codec of \<^verbatim>\<open>encoding/binary\<close>, slices with a capacity, run-time panics, and the
  effect monad of the stateful operations.

  A pure function that can panic returns an option, \<^term>\<open>None\<close> being the panic: no code of
  the repository recovers, so a panic ends the process and its kind does not matter.  A stateful
  operation returns an \<open>outcome\<close> together with the state reached, so that the effects performed
  before a panic (or before blocking on a mutex for ever) are kept.
\<close>

unbundle bit_operations_syntax

section \<open>Fixed-width integers\<close>

type_synonym byte = "8 word"
type_synonym u16 = "16 word"
type_synonym u32 = "32 word"
type_synonym u64 = "64 word"

text \<open>
  An \<^verbatim>\<open>int64\<close> is a 64-bit word read with \<^const>\<open>sint\<close>; the conversions between
  \<^verbatim>\<open>int64\<close> and \<^verbatim>\<open>uint64\<close> are then the identity.  Go's \<open>%\<close> truncates towards
  zero, which is \<^const>\<open>signed_modulo\<close> on the integers.
\<close>

type_synonym i64 = "64 word"

definition go_rem :: "i64 \<Rightarrow> i64 \<Rightarrow> i64" where
  "go_rem a b = word_of_int (sint a smod sint b)"

definition go_pos :: "i64 \<Rightarrow> bool" where
  "go_pos a \<longleftrightarrow> 0 < sint a"

definition go_neg :: "i64 \<Rightarrow> bool" where
  "go_neg a \<longleftrightarrow> sint a < 0"

named_theorems go_simps \<open>definitions of the Go primitives, unfolded by the component proofs\<close>

lemmas [go_simps] = go_rem_def go_pos_def go_neg_def

lemma sint_range_i64: "- (2 ^ 63) \<le> sint (a :: i64)" "sint (a :: i64) < 2 ^ 63"
  using sint_ge [of a] sint_lt [of a] by simp_all

lemma sint_eq_0_iff [simp]: "sint (a :: i64) = 0 \<longleftrightarrow> a = 0"
  by (metis signed_0 signed_eq_0_iff)

lemma go_sign_cases:
  obtains "go_pos a" | "a = 0" | "go_neg a"
  unfolding go_pos_def go_neg_def
  by (metis linorder_neqE_linordered_idom sint_eq_0_iff)

lemma go_pos_not_neg [simp]: "go_pos a \<Longrightarrow> \<not> go_neg a" "go_neg a \<Longrightarrow> \<not> go_pos a"
  by (simp_all add: go_pos_def go_neg_def)

lemma go_pos_nonzero [simp]: "go_pos a \<Longrightarrow> a \<noteq> 0" "go_neg a \<Longrightarrow> a \<noteq> 0"
  by (auto simp: go_pos_def go_neg_def)

section \<open>Bitwise lemmas\<close>

lemma bit_double [bit_simps]: "bit (x * 2 :: 'a::len word) n \<longleftrightarrow> 0 < n \<and> n < LENGTH('a) \<and> bit x (n - 1)"
  using bit_push_bit_iff [of 1 x n] by (auto simp: push_bit_eq_mult mult.commute dest: bit_imp_le_length)

lemma xor_eq_0_iff [simp]: "a XOR b = 0 \<longleftrightarrow> a = (b :: 'a::len word)"
  by (metis xor.assoc xor_self_eq xor.right_neutral xor.commute)

lemma xor_right_cancel [simp]: "a XOR c = b XOR c \<longleftrightarrow> a = (b :: 'a::len word)"
  "c XOR a = c XOR b \<longleftrightarrow> a = b"
  by (metis xor.assoc xor_self_eq xor.right_neutral xor.commute)+

lemma bit_byteD: "bit (c :: byte) n \<Longrightarrow> n < 8"
  using bit_imp_le_length [of c n] by simp

section \<open>encoding/binary, little endian\<close>

fun le_bytes :: "nat \<Rightarrow> 'a::len word \<Rightarrow> byte list" where
  "le_bytes 0 w = []"
| "le_bytes (Suc n) w = ucast w # le_bytes n (drop_bit 8 w)"

fun le_word :: "byte list \<Rightarrow> 'a::len word" where
  "le_word [] = 0"
| "le_word (b # bs) = ucast b OR push_bit 8 (le_word bs)"

lemma length_le_bytes [simp]: "length (le_bytes n w) = n"
  by (induction n arbitrary: w) auto

lemma le_word_le_bytes: "le_word (le_bytes n w) = take_bit (8 * n) (w :: 'a::len word)"
proof (induction n arbitrary: w)
  case 0
  show ?case by simp
next
  case (Suc n)
  have "ucast (ucast w :: byte) OR push_bit 8 (take_bit (8 * n) (drop_bit 8 w))
      = take_bit (8 * Suc n) w"
    by (rule bit_word_eqI) (auto simp: bit_simps)
  with Suc show ?case by simp
qed

lemma le_word_inverse [simp]:
  "LENGTH('a::len) \<le> 8 * n \<Longrightarrow> le_word (le_bytes n (w :: 'a word)) = w"
  by (simp add: le_word_le_bytes take_bit_word_eq_self)

lemma le_bytes_inverse:
  "8 * length bs \<le> LENGTH('a::len) \<Longrightarrow> le_bytes (length bs) (le_word bs :: 'a word) = bs"
proof (induction bs)
  case Nil
  show ?case by simp
next
  case (Cons b bs)
  have lo: "ucast (ucast b OR push_bit 8 (le_word bs) :: 'a word) = b"
    using Cons.prems by (intro bit_word_eqI) (auto simp: bit_simps)
  have "drop_bit 8 (ucast b OR push_bit 8 (le_word bs) :: 'a word)
      = take_bit (LENGTH('a) - 8) (le_word bs)"
    by (rule bit_word_eqI) (auto simp: bit_simps dest: bit_imp_le_length)
  moreover have "take_bit (LENGTH('a) - 8) (le_word bs :: 'a word) = le_word bs"
  proof -
    have eq: "le_word bs = take_bit (8 * length bs) (le_word bs :: 'a word)"
      using Cons le_word_le_bytes [of "length bs" "le_word bs :: 'a word"] by simp
    show ?thesis
      by (subst (1 2) eq) (use Cons.prems in \<open>simp add: min_absorb2\<close>)
  qed
  ultimately show ?case
    using Cons lo by simp
qed

text \<open>
  \<^verbatim>\<open>LittleEndian.Uint16/32/64\<close> read the first bytes of their slice and panic when it is
  shorter; \<^verbatim>\<open>PutUint16/32/64\<close> overwrite them.  \<^term>\<open>Put n buf off w\<close> is
  \<^verbatim>\<open>PutUint(buf[off:off+n], w)\<close>.
\<close>

definition Uint :: "nat \<Rightarrow> byte list \<Rightarrow> 'a::len word option" where
  "Uint n b = (if n \<le> length b then Some (le_word (take n b)) else None)"

definition Uint16 :: "byte list \<Rightarrow> u16 option" where
  "Uint16 b = Uint 2 b"

definition Uint32 :: "byte list \<Rightarrow> u32 option" where
  "Uint32 b = Uint 4 b"

definition Uint64 :: "byte list \<Rightarrow> u64 option" where
  "Uint64 b = Uint 8 b"

definition overwrite :: "'a list \<Rightarrow> nat \<Rightarrow> 'a list \<Rightarrow> 'a list" where
  "overwrite buf off bs = take off buf @ bs @ drop (off + length bs) buf"

definition Put :: "nat \<Rightarrow> byte list \<Rightarrow> nat \<Rightarrow> 'a::len word \<Rightarrow> byte list option" where
  "Put n buf off w = (if off + n \<le> length buf then Some (overwrite buf off (le_bytes n w)) else None)"

text \<open>
  \<^verbatim>\<open>copy(buf[off:], src)\<close>: as many bytes as fit.  The slice expression itself panics when
  the offset lies behind the end.
\<close>

definition copy_at :: "byte list \<Rightarrow> nat \<Rightarrow> byte list \<Rightarrow> byte list option" where
  "copy_at buf off src =
     (if off \<le> length buf then Some (overwrite buf off (take (length buf - off) src)) else None)"

lemma length_overwrite [simp]:
  "off + length bs \<le> length buf \<Longrightarrow> length (overwrite buf off bs) = length buf"
  by (simp add: overwrite_def)

lemma Uint16_le_bytes [simp]: "Uint16 (le_bytes 2 w @ r) = Some w"
  by (simp add: Uint16_def Uint_def)

lemma Uint32_le_bytes [simp]: "Uint32 (le_bytes 4 w @ r) = Some w"
  by (simp add: Uint32_def Uint_def)

lemma Uint64_le_bytes [simp]: "Uint64 (le_bytes 8 w @ r) = Some w"
  by (simp add: Uint64_def Uint_def)

lemma Uint16_le_bytes' [simp]: "Uint16 (le_bytes 2 w) = Some w"
  using Uint16_le_bytes [of w "[]"] by simp

lemma Uint64_le_bytes' [simp]: "Uint64 (le_bytes 8 w) = Some w"
  using Uint64_le_bytes [of w "[]"] by simp

section \<open>Removal by swapping\<close>

text \<open>The idiom \<^verbatim>\<open>for k, v := range xs { if v == x { xs[k] = xs[len(xs)-1]; xs = xs[:len(xs)-1]; break } }\<close>:
  the last entry takes the place of the first match.\<close>

lemma length_remove1_Suc: "x \<in> set xs \<Longrightarrow> length xs = Suc (length (remove1 x xs))"
  by (induction xs) auto

fun index_of :: "'a \<Rightarrow> 'a list \<Rightarrow> nat option" where
  "index_of x [] = None"
| "index_of x (y # ys) = (if y = x then Some 0 else map_option Suc (index_of x ys))"

definition swap_remove :: "nat \<Rightarrow> 'a list \<Rightarrow> 'a list" where
  "swap_remove k xs = butlast (xs[k := last xs])"

definition swap_remove_val :: "'a \<Rightarrow> 'a list \<Rightarrow> 'a list" where
  "swap_remove_val x xs = (case index_of x xs of None \<Rightarrow> xs | Some k \<Rightarrow> swap_remove k xs)"

lemma index_of_None [simp]: "index_of x xs = None \<longleftrightarrow> x \<notin> set xs"
  by (induction xs) auto

lemma index_of_Some: "index_of x xs = Some k \<Longrightarrow> k < length xs \<and> xs ! k = x"
  by (induction xs arbitrary: k) (auto split: if_splits simp: nth_Cons')

lemma swap_remove_split:
  assumes "k < length xs"
  shows "set (swap_remove k xs) = set (take k xs @ drop (Suc k) xs) \<and> length (swap_remove k xs) = length xs - 1"
proof (cases xs rule: rev_cases)
  case Nil
  then show ?thesis using assms by simp
next
  case (snoc ys y)
  show ?thesis
  proof (cases "k = length ys")
    case True
    then show ?thesis using snoc by (simp add: swap_remove_def)
  next
    case False
    then have k: "k < length ys" using assms snoc by simp
    then have "swap_remove k xs = take k ys @ y # drop (Suc k) ys"
      using snoc by (simp add: swap_remove_def list_update_append butlast_append upd_conv_take_nth_drop)
    then show ?thesis
      using k snoc by auto
  qed
qed

lemma set_swap_remove_val: "distinct xs \<Longrightarrow> set (swap_remove_val x xs) = set xs - {x}"
proof (cases "index_of x xs")
  case None
  then have "x \<notin> set xs" by simp
  then show ?thesis using None by (simp add: swap_remove_val_def del: index_of_None)
next
  case (Some k)
  assume d: "distinct xs"
  have k: "k < length xs" "xs ! k = x" using index_of_Some [OF Some] by simp_all
  have "xs = take k xs @ x # drop (Suc k) xs" using id_take_nth_drop [OF k(1)] k(2) by simp
  then have "set xs = insert x (set (take k xs @ drop (Suc k) xs))" "x \<notin> set (take k xs @ drop (Suc k) xs)"
    using d by (metis Un_insert_right list.simps(15) set_append, metis distinct.simps(2) distinct_append not_distinct_conv_prefix Un_iff disjoint_iff list.set_intros(1) set_append)
  then show ?thesis
    using swap_remove_split [OF k(1)] Some by (auto simp: swap_remove_val_def)
qed

section \<open>Slices with a capacity\<close>

text \<open>
  A slice of a longer array: \<open>arr\<close> holds the array from the slice's first byte to the end of
  its capacity, \<open>sl_len\<close> is its length.  Indexing is checked against the length, but
  \<^verbatim>\<open>s[i:j]\<close> only against the capacity: on a receive buffer that is used again, a slice
  expression can reach bytes of an earlier message without a panic.
\<close>

record slice =
  arr :: "byte list"
  sl_len :: nat

definition slice_ok :: "slice \<Rightarrow> bool" where
  "slice_ok s \<longleftrightarrow> sl_len s \<le> length (arr s)"

definition sl_bytes :: "slice \<Rightarrow> byte list" where
  "sl_bytes s = take (sl_len s) (arr s)"

definition mk_slice :: "byte list \<Rightarrow> byte list \<Rightarrow> slice" where
  "mk_slice bs stale = \<lparr>arr = bs @ stale, sl_len = length bs\<rparr>"

definition sl_index :: "slice \<Rightarrow> nat \<Rightarrow> byte option" where
  "sl_index s i = (if i < sl_len s then Some (arr s ! i) else None)"

definition sl_range :: "slice \<Rightarrow> nat \<Rightarrow> nat \<Rightarrow> slice option" where
  "sl_range s i j =
     (if i \<le> j \<and> j \<le> length (arr s) then Some \<lparr>arr = drop i (arr s), sl_len = j - i\<rparr> else None)"

definition sl_from :: "slice \<Rightarrow> nat \<Rightarrow> slice option" where
  "sl_from s i = sl_range s i (sl_len s)"

lemmas [go_simps] = sl_index_def sl_range_def sl_from_def sl_bytes_def

lemma slice_ok_mk [simp]: "slice_ok (mk_slice bs stale)"
  by (simp add: slice_ok_def mk_slice_def)

lemma sl_bytes_mk [simp]: "sl_bytes (mk_slice bs stale) = bs"
  by (simp add: sl_bytes_def mk_slice_def)

lemma sl_range_mk [simp]:
  "i \<le> j \<Longrightarrow> j \<le> length bs \<Longrightarrow>
   sl_range (mk_slice bs stale) i j = Some (mk_slice (take (j - i) (drop i bs)) (drop j bs @ stale))"
  by (auto simp: sl_range_def mk_slice_def)
     (metis append_take_drop_id diff_add drop_drop add.commute append_assoc)

lemma sl_from_mk [simp]:
  "i \<le> length bs \<Longrightarrow> sl_from (mk_slice bs stale) i = Some (mk_slice (drop i bs) stale)"
  by (simp add: sl_from_def sl_range_def mk_slice_def)

lemma sl_index_mk [simp]: "i < length bs \<Longrightarrow> sl_index (mk_slice bs stale) i = Some (bs ! i)"
  by (simp add: sl_index_def mk_slice_def nth_append)

section \<open>Stateful operations\<close>

text \<open>
  \<open>Ret\<close> is a normal return, \<open>Panic\<close> a run-time panic, \<open>Blocked\<close> a goroutine that waits for
  ever (a mutex nobody unlocks).
\<close>

datatype 'a outcome = Ret 'a | Panic | Blocked

type_synonym ('s, 'a) go = "'s \<Rightarrow> 'a outcome \<times> 's"

definition go_ret :: "'a \<Rightarrow> ('s, 'a) go" where
  "go_ret x s = (Ret x, s)"

definition go_bind :: "('s, 'a) go \<Rightarrow> ('a \<Rightarrow> ('s, 'b) go) \<Rightarrow> ('s, 'b) go" where
  "go_bind m f s = (case m s of
     (Ret x, t) \<Rightarrow> f x t
   | (Panic, t) \<Rightarrow> (Panic, t)
   | (Blocked, t) \<Rightarrow> (Blocked, t))"

definition go_seq :: "('s, 'a) go \<Rightarrow> ('s, 'b) go \<Rightarrow> ('s, 'b) go" where
  "go_seq m k = go_bind m (\<lambda>_. k)"

definition go_lift :: "'a option \<Rightarrow> ('s, 'a) go" where
  "go_lift v s = (case v of Some x \<Rightarrow> (Ret x, s) | None \<Rightarrow> (Panic, s))"

definition go_get :: "('s \<Rightarrow> 'a) \<Rightarrow> ('s, 'a) go" where
  "go_get f s = (Ret (f s), s)"

definition go_upd :: "('s \<Rightarrow> 's) \<Rightarrow> ('s, unit) go" where
  "go_upd f s = (Ret (), f s)"

fun go_each :: "('a \<Rightarrow> ('s, unit) go) \<Rightarrow> 'a list \<Rightarrow> ('s, unit) go" where
  "go_each f [] = go_ret ()"
| "go_each f (x # xs) = go_seq (f x) (go_each f xs)"

text \<open>A loop that threads a value besides the state.\<close>

fun go_fold :: "('a \<Rightarrow> 'b \<Rightarrow> ('s, 'b) go) \<Rightarrow> 'a list \<Rightarrow> 'b \<Rightarrow> ('s, 'b) go" where
  "go_fold f [] b = go_ret b"
| "go_fold f (x # xs) b = go_bind (f x b) (go_fold f xs)"

named_theorems go_monad \<open>evaluation rules of the effect monad\<close>

lemmas [go_monad] = go_ret_def go_bind_def go_seq_def go_lift_def go_get_def go_upd_def

lemma go_bind_ret [simp]: "go_bind (go_ret x) f = f x"
  by (rule ext) (simp add: go_monad)

lemma go_ret_bind [simp]: "go_bind m go_ret = m"
  by (rule ext) (simp add: go_monad split: prod.splits outcome.splits)

lemma go_bind_assoc: "go_bind (go_bind m f) g = go_bind m (\<lambda>x. go_bind (f x) g)"
  by (rule ext) (simp add: go_monad split: prod.splits outcome.splits)

lemma go_bind_Ret: "m s = (Ret x, t) \<Longrightarrow> go_bind m f s = f x t"
  by (simp add: go_bind_def)

lemma go_seq_Ret: "m s = (Ret x, t) \<Longrightarrow> go_seq m k s = k t"
  by (simp add: go_seq_def go_bind_def)

lemma go_bind_RetD: "go_bind m f s = (Ret y, t) \<Longrightarrow> \<exists>x u. m s = (Ret x, u) \<and> f x u = (Ret y, t)"
  by (auto simp: go_bind_def split: prod.splits outcome.splits)

lemma go_each_append: "go_each f (xs @ ys) = go_seq (go_each f xs) (go_each f ys)"
  by (induction xs) (simp_all add: go_seq_def go_bind_assoc)

text \<open>A loop whose body always returns is a fold over the state.\<close>

lemma go_each_fold:
  assumes "\<And>x s. x \<in> set xs \<Longrightarrow> f x s = (Ret (), h x s)"
  shows "go_each f xs s = (Ret (), fold h xs s)"
  using assms by (induction xs arbitrary: s) (simp_all add: go_monad)

text \<open>An invariant of every iteration is an invariant of the loop, whatever its outcome.\<close>

lemma go_each_invariant:
  assumes "\<And>x s. x \<in> set xs \<Longrightarrow> P s \<Longrightarrow> P (snd (f x s))" and "P s"
  shows "P (snd (go_each f xs s))"
  using assms
proof (induction xs arbitrary: s)
  case Nil
  then show ?case by (simp add: go_monad)
next
  case (Cons x xs)
  then have "P (snd (f x s))" by simp
  with Cons show ?case
    by (cases "f x s"; cases "fst (f x s)") (simp_all add: go_monad)
qed

end
