(* ===== verification/Go_Strings.thy ===== *)
theory Go_Strings
  imports Go_Prelude
begin

text \<open>
  What the repository uses of \<^verbatim>\<open>strconv\<close> and \<^verbatim>\<open>strings\<close>: \<^verbatim>\<open>ParseInt(s, 10, 64)\<close>,
  \<^verbatim>\<open>FormatInt(n, 10)\<close> (also the verb \<^verbatim>\<open>%d\<close>), \<^verbatim>\<open>Split\<close> and \<^verbatim>\<open>SplitN\<close> with a
  separator of one character, and \<^verbatim>\<open>HasPrefix\<close>.  Go strings are byte strings, here lists of
  characters.  \<open>ParseInt\<close> returns a value beside its error, and callers that ignore the error use it,
  so both are modelled.
\<close>

section \<open>Decimal numbers\<close>

datatype parse_error = ErrSyntax | ErrRange

definition digit_val :: "char \<Rightarrow> nat option" where
  "digit_val c = (let n = of_char c :: nat in if 48 \<le> n \<and> n \<le> 57 then Some (n - 48) else None)"

definition digit_char :: "nat \<Rightarrow> char" where
  "digit_char d = char_of (48 + d)"

text \<open>The loop of \<^verbatim>\<open>ParseUint\<close> on 64 bits: it stops at the first character that is no digit
  and at the first digit that overflows, whichever comes first.\<close>

fun parse_digits :: "string \<Rightarrow> nat \<Rightarrow> nat \<times> parse_error option" where
  "parse_digits [] n = (n, None)"
| "parse_digits (c # cs) n = (case digit_val c of
     None \<Rightarrow> (0, Some ErrSyntax)
   | Some d \<Rightarrow> if n * 10 + d < 2 ^ 64 then parse_digits cs (n * 10 + d)
               else (2 ^ 64 - 1, Some ErrRange))"

definition ParseUint :: "string \<Rightarrow> nat \<times> parse_error option" where
  "ParseUint s = (if s = [] then (0, Some ErrSyntax) else parse_digits s 0)"

definition ParseInt :: "string \<Rightarrow> i64 \<times> parse_error option" where
  "ParseInt s =
     (let neg = (s \<noteq> [] \<and> hd s = CHR ''-'');
          ds = (if s \<noteq> [] \<and> (hd s = CHR ''-'' \<or> hd s = CHR ''+'') then tl s else s);
          (un, err) = ParseUint ds
      in if err = Some ErrSyntax then (0, Some ErrSyntax)
         else if \<not> neg \<and> un \<ge> 2 ^ 63 then (of_nat (2 ^ 63 - 1), Some ErrRange)
         else if neg \<and> un > 2 ^ 63 then (- of_nat (2 ^ 63), Some ErrRange)
         else (if neg then - of_nat un else of_nat un, None))"

fun format_nat :: "nat \<Rightarrow> string" where
  "format_nat n = (if n < 10 then [digit_char n] else format_nat (n div 10) @ [digit_char (n mod 10)])"

declare format_nat.simps [simp del]

definition FormatInt :: "i64 \<Rightarrow> string" where
  "FormatInt a = (if sint a < 0 then CHR ''-'' # format_nat (nat (- sint a)) else format_nat (nat (sint a)))"

section \<open>Splitting\<close>

fun split_on :: "char \<Rightarrow> string \<Rightarrow> string list" where
  "split_on c [] = [[]]"
| "split_on c (x # xs) =
     (if x = c then [] # split_on c xs
      else (case split_on c xs of [] \<Rightarrow> [[x]] | y # ys \<Rightarrow> (x # y) # ys))"

text \<open>\<^verbatim>\<open>SplitN(s, sep, n)\<close> for \<open>n > 0\<close>: at most \<open>n\<close> pieces, the last one unsplit.\<close>

fun split_n :: "nat \<Rightarrow> char \<Rightarrow> string \<Rightarrow> string list" where
  "split_n 0 c s = []"
| "split_n (Suc 0) c s = [s]"
| "split_n (Suc (Suc n)) c s =
     (if c \<in> set s then takeWhile (\<lambda>x. x \<noteq> c) s # split_n (Suc n) c (tl (dropWhile (\<lambda>x. x \<noteq> c) s))
      else [s])"

definition has_prefix :: "string \<Rightarrow> string \<Rightarrow> bool" where
  "has_prefix p s \<longleftrightarrow> take (length p) s = p"

text \<open>\<^verbatim>\<open>net.SplitHostPort\<close>: the port follows the last colon, before which there is no other except in brackets.\<close>

definition SplitHostPort :: "string \<Rightarrow> (string \<times> string) option" where
  "SplitHostPort s =
     (let port = rev (takeWhile (\<lambda>c. c \<noteq> CHR '':'') (rev s)); i = length s - Suc (length port); e = length (takeWhile (\<lambda>c. c \<noteq> CHR '']'') s)
      in if CHR '':'' \<notin> set s then None
         else if hd s = CHR ''['' then
           (if CHR '']'' \<notin> set s \<or> Suc e \<noteq> i then None
            else if CHR ''['' \<in> set (drop 1 s) \<or> CHR '']'' \<in> set (drop (Suc e) s) then None
            else Some (take (e - 1) (drop 1 s), port))
         else if CHR '':'' \<in> set (take i s) \<or> CHR ''['' \<in> set s \<or> CHR '']'' \<in> set s then None
         else Some (take i s, port))"

lemma SplitHostPort_plain:
  assumes "set host \<inter> {CHR '':'', CHR ''['', CHR '']''} = {}" and "set port \<inter> {CHR '':'', CHR ''['', CHR '']''} = {}"
  shows "SplitHostPort (host @ CHR '':'' # port) = Some (host, port)"
proof -
  have "rev (takeWhile (\<lambda>c. c \<noteq> CHR '':'') (rev (host @ CHR '':'' # port))) = port"
    using assms(2) by (simp add: takeWhile_append)
  then show ?thesis using assms by (cases host) (auto simp: SplitHostPort_def Let_def)
qed

section \<open>Round trips\<close>

lemma digit_val_char [simp]: "d < 10 \<Longrightarrow> digit_val (digit_char d) = Some d"
  by (simp add: digit_val_def digit_char_def Let_def take_bit_eq_mod)

lemma parse_digits_append:
  assumes "parse_digits xs n = (m, None)"
  shows "parse_digits (xs @ ys) n = parse_digits ys m"
  using assms by (induction xs arbitrary: n) (auto split: option.splits if_splits)

lemma parse_format_nat: "n < 2 ^ 64 \<Longrightarrow> parse_digits (format_nat n) 0 = (n, None)"
proof (induction n rule: format_nat.induct)
  case (1 n)
  show ?case
  proof (cases "n < 10")
    case True
    then show ?thesis by (simp add: format_nat.simps)
  next
    case False
    then have "parse_digits (format_nat (n div 10)) 0 = (n div 10, None)"
      using 1 by simp
    then show ?thesis
      using False 1(2) by (subst format_nat.simps) (simp add: parse_digits_append)
  qed
qed

lemma format_nat_ne [simp]: "format_nat n \<noteq> []"
  by (subst format_nat.simps) simp

lemma format_nat_digits: "c \<in> set (format_nat n) \<Longrightarrow> \<exists>d < 10. c = digit_char d"
  by (induction n rule: format_nat.induct)
     (subst (asm) (2) format_nat.simps, auto split: if_splits intro: exI [of _ "_ mod 10"])

lemma digit_char_ne: "d < 10 \<Longrightarrow> of_char c < (48 :: nat) \<or> 57 < (of_char c :: nat) \<Longrightarrow> digit_char d \<noteq> c"
  by (auto simp: digit_char_def take_bit_eq_mod)

lemma format_nat_no_char:
  "of_char c < (48 :: nat) \<or> 57 < (of_char c :: nat) \<Longrightarrow> c \<notin> set (format_nat n)"
  using format_nat_digits digit_char_ne by metis

lemma format_nat_hd:
  assumes "of_char c < (48 :: nat)"
  shows "hd (format_nat n) \<noteq> c"
  using format_nat_no_char [of c n] hd_in_set [OF format_nat_ne, of n] assms by auto

lemma ParseInt_FormatInt [simp]: "ParseInt (FormatInt a) = (a, None)"
proof (cases "sint a < 0")
  case True
  then have "nat (- sint a) \<le> 2 ^ 63"
    using sint_range_i64 [of a] by (simp add: nat_le_iff)
  moreover have "- word_of_int (- sint a) = a"
    by simp
  ultimately show ?thesis
    using True by (simp add: ParseInt_def FormatInt_def ParseUint_def parse_format_nat Let_def)
next
  case False
  then have "nat (sint a) < 2 ^ 63"
    using sint_range_i64 [of a] by (simp add: nat_less_iff)
  then show ?thesis
    using False
    by (simp add: ParseInt_def FormatInt_def ParseUint_def parse_format_nat format_nat_hd Let_def)
qed

lemma FormatInt_inj [simp]: "FormatInt a = FormatInt b \<longleftrightarrow> a = b"
  by (metis ParseInt_FormatInt fst_conv)

lemma FormatInt_no_char: "c \<noteq> CHR ''-'' \<Longrightarrow> of_char c < (48 :: nat) \<or> 57 < (of_char c :: nat) \<Longrightarrow> c \<notin> set (FormatInt a)"
  by (simp add: FormatInt_def format_nat_no_char)

lemma split_on_ne [simp]: "split_on c s \<noteq> []"
  by (induction s) (auto split: list.splits)

lemma split_on_none: "c \<notin> set s \<Longrightarrow> split_on c s = [s]"
  by (induction s) auto

lemma split_on_append: "c \<notin> set s \<Longrightarrow> split_on c (s @ c # t) = s # split_on c t"
  by (induction s) auto

lemma split_on_length: "length (split_on c s) = Suc (length (filter (\<lambda>x. x = c) s))"
  by (induction s) (auto split: list.splits)

end
