(* ===== verification/Redis.thy ===== *)
theory Redis
  imports Go_Strings
begin

text \<open>
  The redis server both programs talk to.  It is not part of the repository, so its commands are a
  parameter of the definitions that use them: a record over an abstract store.  The documented
  behaviour the programs rely on is stated as locales: counters in hashes with publication
  (\<open>redis_counters\<close>), sets (\<open>redis_sets\<close>), strings (\<open>redis_strings\<close>) and publication alone
  (\<open>redis_publish\<close>).

  \<open>rd_up\<close> says whether the connection works; when it does not, a command returns an error and the
  callers do not change the store.  \<open>rd_published\<close> is the list of all messages published so far, with
  their channels, oldest first, and \<open>rd_count\<close> is the numeric value of a hash field, 0 when missing.
\<close>

record 'r redis_ops =
  rd_up :: "'r \<Rightarrow> bool"
  rd_GET :: "string \<Rightarrow> 'r \<Rightarrow> string option"
  rd_SETEX :: "string \<Rightarrow> nat \<Rightarrow> string \<Rightarrow> 'r \<Rightarrow> 'r"
  rd_DEL :: "string \<Rightarrow> 'r \<Rightarrow> 'r"
  rd_HGET :: "string \<Rightarrow> string \<Rightarrow> 'r \<Rightarrow> string option"
  rd_HSET :: "string \<Rightarrow> string \<Rightarrow> string \<Rightarrow> 'r \<Rightarrow> 'r"
  rd_HDEL :: "string \<Rightarrow> string \<Rightarrow> 'r \<Rightarrow> 'r"
  rd_HINCRBY :: "string \<Rightarrow> string \<Rightarrow> int \<Rightarrow> 'r \<Rightarrow> int \<times> 'r"
  rd_SADD :: "string \<Rightarrow> string \<Rightarrow> 'r \<Rightarrow> nat \<times> 'r"
  rd_SREM :: "string \<Rightarrow> string \<Rightarrow> 'r \<Rightarrow> nat \<times> 'r"
  rd_SMEMBERS :: "string \<Rightarrow> 'r \<Rightarrow> string list option"
  rd_PUBLISH :: "string \<Rightarrow> string \<Rightarrow> 'r \<Rightarrow> 'r"
  rd_published :: "'r \<Rightarrow> (string \<times> string) list"
  rd_count :: "string \<Rightarrow> string \<Rightarrow> 'r \<Rightarrow> int"

text \<open>What \<^verbatim>\<open>Receive\<close> of a subscription returns: a message, the number of channels subscribed to after a change, or an error.\<close>

datatype 'm sub_reply = Message 'm | Subscription nat | ReplyError

section \<open>Documented behaviour\<close>

locale redis_counters =
  fixes R :: "'r redis_ops"
  assumes HINCRBY_result: "fst (rd_HINCRBY R k f d r) = rd_count R k f r + d"
    and HINCRBY_count: "rd_count R k' f' (snd (rd_HINCRBY R k f d r)) = (if k' = k \<and> f' = f then rd_count R k f r + d else rd_count R k' f' r)"
    and HINCRBY_published [simp]: "rd_published R (snd (rd_HINCRBY R k f d r)) = rd_published R r"
    and HDEL_count: "rd_count R k' f' (rd_HDEL R k f r) = (if k' = k \<and> f' = f then 0 else rd_count R k' f' r)"
    and HDEL_published [simp]: "rd_published R (rd_HDEL R k f r) = rd_published R r"
    and DEL_count: "rd_count R k' f' (rd_DEL R k r) = (if k' = k then 0 else rd_count R k' f' r)"
    and DEL_published [simp]: "rd_published R (rd_DEL R k r) = rd_published R r"
    and PUBLISH_count [simp]: "rd_count R k f (rd_PUBLISH R c m r) = rd_count R k f r"
    and PUBLISH_published [simp]: "rd_published R (rd_PUBLISH R c m r) = rd_published R r @ [(c, m)]"

locale redis_sets =
  fixes R :: "'r redis_ops" and mem :: "'r \<Rightarrow> string \<Rightarrow> string set"
  assumes SADD_result: "fst (rd_SADD R k x r) = (if x \<in> mem r k then 0 else 1)"
    and SADD_mem: "mem (snd (rd_SADD R k x r)) k' = (if k' = k then insert x (mem r k) else mem r k')"
    and SREM_mem: "mem (snd (rd_SREM R k x r)) k' = (if k' = k then mem r k - {x} else mem r k')"

locale redis_strings =
  fixes R :: "'r redis_ops"
  assumes GET_SETEX: "rd_GET R k' (rd_SETEX R k n v r) = (if k' = k then Some v else rd_GET R k' r)"

locale redis_deletion = redis_strings +
  assumes GET_DEL: "rd_GET R k' (rd_DEL R k r) = (if k' = k then None else rd_GET R k' r)"

text \<open>Hashes and sets do not affect each other.\<close>

locale redis_sessions = redis_counters R + redis_sets R mem for R :: "'r redis_ops" and mem :: "'r \<Rightarrow> string \<Rightarrow> string set" +
  assumes HINCRBY_mem [simp]: "mem (snd (rd_HINCRBY R k f d r)) = mem r"
    and HDEL_mem [simp]: "mem (rd_HDEL R k f r) = mem r"
    and PUBLISH_mem [simp]: "mem (rd_PUBLISH R c m r) = mem r"
    and SADD_hashes [simp]: "rd_count R k f (snd (rd_SADD R k' x r)) = rd_count R k f r" "rd_published R (snd (rd_SADD R k' x r)) = rd_published R r"
    and SREM_hashes [simp]: "rd_count R k f (snd (rd_SREM R k' x r)) = rd_count R k f r" "rd_published R (snd (rd_SREM R k' x r)) = rd_published R r"

locale redis_publish =
  fixes R :: "'r redis_ops"
  assumes PUBLISH_appends [simp]: "rd_published R (rd_PUBLISH R c m r) = rd_published R r @ [(c, m)]"
    and HSET_silent [simp]: "rd_published R (rd_HSET R k f v r) = rd_published R r"
    and HDEL_silent [simp]: "rd_published R (rd_HDEL R k f r) = rd_published R r"

section \<open>An implementation for examples\<close>

record plain_store =
  ps_str :: "string \<Rightarrow> string option"
  ps_hash :: "string \<Rightarrow> string \<Rightarrow> int"
  ps_field :: "string \<Rightarrow> string \<Rightarrow> string option"
  ps_set :: "string \<Rightarrow> string list"
  ps_pub :: "(string \<times> string) list"

definition plain_redis :: "plain_store redis_ops" where
  "plain_redis = \<lparr>
     rd_up = \<lambda>_. True,
     rd_GET = \<lambda>k r. ps_str r k,
     rd_SETEX = \<lambda>k n v r. r\<lparr>ps_str := (ps_str r)(k := Some v)\<rparr>,
     rd_DEL = \<lambda>k r. r\<lparr>ps_str := (ps_str r)(k := None), ps_hash := (ps_hash r)(k := \<lambda>_. 0)\<rparr>,
     rd_HGET = \<lambda>k f r. ps_field r k f,
     rd_HSET = \<lambda>k f v r. r\<lparr>ps_field := (ps_field r)(k := (ps_field r k)(f := Some v))\<rparr>,
     rd_HDEL = \<lambda>k f r. r\<lparr>ps_hash := (ps_hash r)(k := (ps_hash r k)(f := 0)), ps_field := (ps_field r)(k := (ps_field r k)(f := None))\<rparr>,
     rd_HINCRBY = \<lambda>k f d r. (ps_hash r k f + d, r\<lparr>ps_hash := (ps_hash r)(k := (ps_hash r k)(f := ps_hash r k f + d))\<rparr>),
     rd_SADD = \<lambda>k x r. (if x \<in> set (ps_set r k) then 0 else 1, r\<lparr>ps_set := (ps_set r)(k := x # ps_set r k)\<rparr>),
     rd_SREM = \<lambda>k x r. (if x \<in> set (ps_set r k) then 1 else 0, r\<lparr>ps_set := (ps_set r)(k := removeAll x (ps_set r k))\<rparr>),
     rd_SMEMBERS = \<lambda>k r. Some (remdups (ps_set r k)),
     rd_PUBLISH = \<lambda>c m r. r\<lparr>ps_pub := ps_pub r @ [(c, m)]\<rparr>,
     rd_published = ps_pub,
     rd_count = \<lambda>k f r. ps_hash r k f\<rparr>"

definition empty_store :: plain_store where
  "empty_store = \<lparr>ps_str = \<lambda>_. None, ps_hash = \<lambda>_ _. 0, ps_field = \<lambda>_ _. None, ps_set = \<lambda>_. [], ps_pub = []\<rparr>"

interpretation plain_counters: redis_counters plain_redis
  by unfold_locales (simp_all add: plain_redis_def)

interpretation plain_sets: redis_sets plain_redis "\<lambda>r k. set (ps_set r k)"
  by unfold_locales (simp_all add: plain_redis_def)

interpretation plain_sessions: redis_sessions plain_redis "\<lambda>r k. set (ps_set r k)"
  by unfold_locales (simp_all add: plain_redis_def)

interpretation plain_publish: redis_publish plain_redis
  by unfold_locales (simp_all add: plain_redis_def)

interpretation plain_strings: redis_strings plain_redis
  by unfold_locales (simp_all add: plain_redis_def)

interpretation plain_deletion: redis_deletion plain_redis
  by unfold_locales (simp_all add: plain_redis_def)

end
