(* ===== verification/Msgs.thy ===== *)
theory Msgs
  imports Go_Prelude
begin

text \<open>
  The message codec shared by both servers (\<^verbatim>\<open>msgs/msgs.go\<close>, \<^verbatim>\<open>msgs/body.go\<close>,
  \<^verbatim>\<open>msgs/comet.go\<close>): frame header, data header, whole messages with their two checksums, the
  status body of message 0x36, and the accessors the message bus applies to received bytes.
  Everything works on byte lists; the current time is an argument where the code reads the clock.
\<close>

section \<open>Constants\<close>

definition kFrameHeaderLen :: nat where "kFrameHeaderLen = 24"
definition kHeadForward :: nat where "kHeadForward = kFrameHeaderLen"
definition kSidLen :: nat where "kSidLen = 16"
definition kHeadFrame :: nat where "kHeadFrame = kFrameHeaderLen"
definition MIDStatus :: u16 where "MIDStatus = 0x36"
definition FlagAck :: byte where "FlagAck = 0x40"
definition FlagRead :: byte where "FlagRead = 0x80"
definition kPoly :: byte where "kPoly = 0x31"

lemmas msgs_consts [simp] =
  kFrameHeaderLen_def kHeadForward_def kSidLen_def kHeadFrame_def MIDStatus_def

datatype CometType = CometWs | CometUdp

section \<open>Frame header\<close>

record FrameHeader =
  Fin :: bool
  Mask :: bool
  Ver :: byte
  Opcode :: byte
  Reserve :: byte
  Sequence :: u16
  Time :: u32
  DstId :: i64
  SrcId :: i64
  Guid :: "byte list"

definition NewFrameHeader :: "u32 \<Rightarrow> FrameHeader" where
  "NewFrameHeader now =
     \<lparr>Fin = True, Mask = False, Ver = 0, Opcode = 0, Reserve = 0, Sequence = 0, Time = now,
      DstId = 0, SrcId = 0, Guid = []\<rparr>"

text \<open>All indices are constants below 24, so none of the writes can panic.\<close>

definition FrameHeader_marshalBytes :: "FrameHeader \<Rightarrow> byte list" where
  "FrameHeader_marshalBytes f =
     (let buf = replicate kFrameHeaderLen 0;
          buf = (if Fin f then buf[0 := buf ! 0 OR 0x80] else buf);
          buf = (if Mask f then buf[0 := buf ! 0 OR 0x40] else buf);
          buf = (if Ver f \<noteq> 0 then buf[0 := buf ! 0 OR push_bit 3 (Ver f AND 0x7)] else buf);
          buf = buf[0 := buf ! 0 OR (Opcode f AND 0x7)];
          buf = buf[1 := Reserve f];
          buf = overwrite buf 2 (le_bytes 2 (Sequence f));
          buf = overwrite buf 4 (le_bytes 4 (Time f));
          buf = overwrite buf 8 (le_bytes 8 (DstId f));
          buf = overwrite buf 16 (le_bytes 8 (SrcId f))
      in buf @ Guid f)"

section \<open>Data header\<close>

record dataHeader =
  Read :: bool
  Ack :: bool
  DataFormat :: byte
  KeyLevel :: byte
  EncryptType :: byte
  DataSeq :: byte
  DevType :: u16
  MsgId :: u16
  Length :: u16
  HeadCheck :: byte
  Check :: byte
  SessionId :: u16

text \<open>The fields \<open>Length\<close>, \<open>HeadCheck\<close> and \<open>Check\<close> are not written from the struct: the length
  comes from the argument, the check bytes are filled in by \<open>MarshalBytes\<close> at the two positions
  returned.\<close>

definition dataHeader_marshalBytes :: "dataHeader \<Rightarrow> nat \<Rightarrow> byte \<Rightarrow> byte list \<times> nat \<times> nat" where
  "dataHeader_marshalBytes d dataLen opcode =
     (let buf = replicate 12 0;
          buf = (if Read d then buf[0 := buf ! 0 OR 0x80] else buf);
          buf = (if Ack d then buf[0 := buf ! 0 OR 0x40] else buf);
          buf = (if DataFormat d \<noteq> 0
                 then buf[0 := buf ! 0 OR push_bit 4 (DataFormat d AND 0x3)] else buf);
          buf = (if KeyLevel d \<noteq> 0
                 then buf[0 := buf ! 0 OR push_bit 2 (KeyLevel d AND 0x3)] else buf);
          buf = (if EncryptType d \<noteq> 0
                 then buf[0 := buf ! 0 OR (EncryptType d AND 0x3)] else buf);
          buf = buf[1 := DataSeq d];
          buf = overwrite buf 2 (le_bytes 2 (DevType d));
          buf = overwrite buf 4 (le_bytes 2 (MsgId d));
          buf = overwrite buf 6 (le_bytes 2 (of_nat dataLen :: u16));
          buf = overwrite buf 10 (le_bytes 2 (SessionId d))
      in (buf, 9, 10))"

section \<open>Checksum\<close>

text \<open>The inner loop of the checksum: \<open>n\<close> shifts of the 8-bit register.\<close>

fun checksum_bits :: "nat \<Rightarrow> byte \<Rightarrow> byte" where
  "checksum_bits 0 headerCheck = headerCheck"
| "checksum_bits (Suc n) headerCheck =
     checksum_bits n (if headerCheck AND 0x80 \<noteq> 0 then push_bit 1 headerCheck XOR kPoly
                      else push_bit 1 headerCheck)"

text \<open>The outer loop over the first \<open>n\<close> bytes; reading behind the end panics.\<close>

fun checksum_loop :: "byte list \<Rightarrow> nat \<Rightarrow> byte \<Rightarrow> byte option" where
  "checksum_loop msg 0 headerCheck = Some headerCheck"
| "checksum_loop [] (Suc n) headerCheck = None"
| "checksum_loop (b # msg) (Suc n) headerCheck =
     checksum_loop msg n (checksum_bits 8 (headerCheck XOR b))"

definition ChecksumHeader :: "byte list \<Rightarrow> nat \<Rightarrow> byte option" where
  "ChecksumHeader msg n = checksum_loop msg n 0"

section \<open>Messages\<close>

record AppMsg =
  ForwardHeader :: "FrameHeader option"
  FrameHdr :: FrameHeader
  DataHdr :: dataHeader
  Data :: "byte list"

definition zeroDataHeader :: dataHeader where
  "zeroDataHeader =
     \<lparr>Read = False, Ack = False, DataFormat = 0, KeyLevel = 0, EncryptType = 0, DataSeq = 0,
      DevType = 0, MsgId = 0, Length = 0, HeadCheck = 0, Check = 0, SessionId = 0\<rparr>"

definition NewMsg :: "u32 \<Rightarrow> byte list \<Rightarrow> FrameHeader option \<Rightarrow> AppMsg" where
  "NewMsg now data forwardHeader =
     \<lparr>ForwardHeader = forwardHeader, FrameHdr = NewFrameHeader now,
      DataHdr = zeroDataHeader\<lparr>Read := True\<rparr>, Data = data\<rparr>"

text \<open>\<open>MarshalBytes\<close> first stores the current time in the message it is called on, so it returns the
  updated message along with the bytes.\<close>

definition MarshalBytes :: "u32 \<Rightarrow> AppMsg \<Rightarrow> (AppMsg \<times> byte list) option" where
  "MarshalBytes now a =
     (let a = a\<lparr>FrameHdr := (FrameHdr a)\<lparr>Time := now\<rparr>\<rparr>;
          buf = (case ForwardHeader a of None \<Rightarrow> [] | Some f \<Rightarrow> FrameHeader_marshalBytes f);
          buf = buf @ FrameHeader_marshalBytes (FrameHdr a);
          opcode = (case ForwardHeader a of None \<Rightarrow> Opcode (FrameHdr a) | Some f \<Rightarrow> Opcode f);
          (bufFrame, hcheckPos, checkPos) = dataHeader_marshalBytes (DataHdr a) (length (Data a)) opcode;
          hcheckPos = hcheckPos + length buf;
          checkPos = checkPos + length buf;
          buf = buf @ bufFrame;
          buf = (if length (Data a) \<noteq> 0 then buf @ Data a else buf)
      in do {
        hc \<leftarrow> ChecksumHeader buf (hcheckPos - 1);
        let buf = buf[hcheckPos - 1 := hc];
        bc \<leftarrow> ChecksumHeader (drop checkPos buf) (length buf - checkPos);
        Some (a, buf[checkPos - 1 := bc])
      })"

definition NewAckMsg :: "byte list \<Rightarrow> byte list option" where
  "NewAckMsg message =
     (let buf = message
      in if kHeadForward + kHeadFrame < length buf
         then Some (buf[kHeadForward + kHeadFrame := buf ! (kHeadForward + kHeadFrame) OR FlagAck])
         else None)"

section \<open>Accessors of received messages\<close>

text \<open>These are called by the message bus on slices of its receive buffer, so the slice expressions
  are checked against the capacity and the index expression against the length.\<close>

definition IsForwardType :: "slice \<Rightarrow> bool option" where
  "IsForwardType msg = do { b \<leftarrow> sl_index msg 0; Some (b AND 0x7 = 3) }"

definition ForwardSrcId :: "slice \<Rightarrow> i64 option" where
  "ForwardSrcId msg = do { s \<leftarrow> sl_range msg 16 18; Uint64 (sl_bytes s) }"

definition GetMsgId :: "slice \<Rightarrow> u16 option" where
  "GetMsgId msg = do {
     fwd \<leftarrow> IsForwardType msg;
     let offset = (if fwd then kHeadForward + kSidLen + kHeadFrame + 4 else kHeadFrame + 4);
     s \<leftarrow> sl_range msg offset (offset + 2);
     Uint16 (sl_bytes s)
   }"

section \<open>The body of status messages\<close>

definition MSTBinded :: byte where "MSTBinded = 7"
definition MSTUnbinded :: byte where "MSTUnbinded = 8"
definition MSTDeviceOnline :: byte where "MSTDeviceOnline = 9"
definition MSTDeviceOffline :: byte where "MSTDeviceOffline = 10"
definition MSTKickOff :: byte where "MSTKickOff = 13"

record MsgStatus =
  Type :: byte
  Id :: i64
  Payload :: "byte list"

datatype marshal_error = ErrPayloadTooLong

text \<open>\<open>None\<close> is a panic, \<open>Inl\<close> the error return.\<close>

definition MsgStatus_Marshal :: "MsgStatus \<Rightarrow> (marshal_error + byte list) option" where
  "MsgStatus_Marshal m =
     (if length (Payload m) > 255 then Some (Inl ErrPayloadTooLong)
      else let buf = replicate (1 + 8 + 1 + length (Payload m)) 0;
               buf = buf[0 := Type m];
               buf = overwrite buf 1 (le_bytes 8 (Id m))
           in if length (Payload m) > 0
              then if 10 < length buf
                   then map_option Inr (copy_at (buf[10 := of_nat (length (Payload m))]) 11 (Payload m))
                   else None
              else Some (Inr buf))"

section \<open>Reference definitions\<close>

text \<open>
  What the code is compared with: the flag bytes of the two headers, the checksum as a fold over
  whole bytes, the wire image of a message, and the remainder of a polynomial division by
  \<open>x^8 + x^5 + x^4 + 1\<close> (0x131), fed with the message bit by bit, most significant bit first.
\<close>

definition frame_flags :: "FrameHeader \<Rightarrow> byte" where
  "frame_flags f = (if Fin f then 0x80 else 0) OR (if Mask f then 0x40 else 0)
     OR push_bit 3 (Ver f AND 0x7) OR (Opcode f AND 0x7)"

definition data_flags :: "dataHeader \<Rightarrow> byte" where
  "data_flags d = (if Read d then 0x80 else 0) OR (if Ack d then 0x40 else 0)
     OR push_bit 4 (DataFormat d AND 0x3) OR push_bit 2 (KeyLevel d AND 0x3) OR (EncryptType d AND 0x3)"

definition crc8 :: "byte list \<Rightarrow> byte" where
  "crc8 bs = fold (\<lambda>b c. checksum_bits 8 (c XOR b)) bs 0"

definition poly_step :: "bool \<Rightarrow> u16 \<Rightarrow> u16" where
  "poly_step b r = (let r = push_bit 1 r OR of_bool b in if bit r 8 then r XOR 0x131 else r)"

definition byte_bits :: "byte \<Rightarrow> bool list" where
  "byte_bits b = map (bit b) [7, 6, 5, 4, 3, 2, 1, 0]"

definition poly_rem :: "bool list \<Rightarrow> u16" where
  "poly_rem bs = fold poly_step bs 0"

abbreviation shift1 :: "byte \<Rightarrow> byte" where
  "shift1 c \<equiv> (if c AND 0x80 \<noteq> 0 then push_bit 1 c XOR kPoly else push_bit 1 c)"

definition lfsr_step :: "bool \<Rightarrow> byte \<Rightarrow> byte" where
  "lfsr_step b c = shift1 c XOR of_bool b"

definition wire :: "u32 \<Rightarrow> AppMsg \<Rightarrow> byte list" where
  "wire now a =
     (let d = DataHdr a;
          hdr = (case ForwardHeader a of None \<Rightarrow> [] | Some f \<Rightarrow> FrameHeader_marshalBytes f)
            @ FrameHeader_marshalBytes ((FrameHdr a)\<lparr>Time := now\<rparr>);
          dh = [data_flags d, DataSeq d] @ le_bytes 2 (DevType d) @ le_bytes 2 (MsgId d)
            @ le_bytes 2 (of_nat (length (Data a)) :: u16);
          body = le_bytes 2 (SessionId d) @ Data a
      in hdr @ dh @ [crc8 (hdr @ dh), crc8 body] @ body)"

text \<open>The two shapes of message the servers build: without forward header and with an opcode other than
  3, or behind a forward header of opcode 3 that carries the 16-byte session id.\<close>

definition forward_shape :: "AppMsg \<Rightarrow> bool" where
  "forward_shape a \<longleftrightarrow> Guid (FrameHdr a) = [] \<and>
     (case ForwardHeader a of
        None \<Rightarrow> Opcode (FrameHdr a) AND 7 \<noteq> 3
      | Some f \<Rightarrow> Opcode f AND 7 = 3 \<and> length (Guid f) = kSidLen)"

section \<open>Layout of the headers\<close>

lemma set_flag [simp]:
  "(if P then (a # r)[0 := (a # r) ! 0 OR v] else a # r) = ((a::byte) OR (if P then v else 0)) # r"
  by simp

lemma flag_nonzero [simp]: "(if x \<noteq> 0 then push_bit n (x AND m) else 0) = push_bit n ((x::byte) AND m)"
  "(if x \<noteq> 0 then (x AND m) else 0) = ((x::byte) AND m)"
  by auto

lemma FrameHeader_layout:
  "FrameHeader_marshalBytes f =
     [frame_flags f, Reserve f] @ le_bytes 2 (Sequence f) @ le_bytes 4 (Time f)
       @ le_bytes 8 (DstId f) @ le_bytes 8 (SrcId f) @ Guid f"
proof -
  have "replicate kFrameHeaderLen (0::byte) = 0 # 0 # replicate 22 0"
    by (simp add: numeral_eq_Suc)
  then show ?thesis
    unfolding FrameHeader_marshalBytes_def Let_def
    by (simp only: set_flag flag_nonzero) (simp add: frame_flags_def overwrite_def or.assoc)
qed

lemma dataHeader_layout:
  "dataHeader_marshalBytes d n op =
     ([data_flags d, DataSeq d] @ le_bytes 2 (DevType d) @ le_bytes 2 (MsgId d)
       @ le_bytes 2 (of_nat n :: u16) @ [0, 0] @ le_bytes 2 (SessionId d), 9, 10)"
proof -
  have "replicate 12 (0::byte) = 0 # 0 # replicate 6 0 @ [0, 0, 0, 0]"
    by (simp add: numeral_eq_Suc)
  then show ?thesis
    unfolding dataHeader_marshalBytes_def Let_def
    by (simp only: set_flag flag_nonzero) (simp add: data_flags_def overwrite_def or.assoc)
qed


section \<open>The checksum is a CRC\<close>

text \<open>Each byte step is injective and linear, so a change of one byte is never lost.\<close>

lemma checksum_loop_eq:
  "checksum_loop msg n c =
     (if n \<le> length msg then Some (fold (\<lambda>b c. checksum_bits 8 (c XOR b)) (take n msg) c) else None)"
  by (induction msg n c rule: checksum_loop.induct) auto

lemma ChecksumHeader_eq:
  "ChecksumHeader msg n = (if n \<le> length msg then Some (crc8 (take n msg)) else None)"
  by (simp add: ChecksumHeader_def checksum_loop_eq crc8_def)

lemma and_0x80 [simp]: "c AND 0x80 = 0 \<longleftrightarrow> \<not> bit (c :: byte) 7"
  using and_exp_eq_0_iff_not_bit [of c 7] by simp

lemma shift1_xor: "shift1 (a XOR b) = shift1 a XOR shift1 b"
  by (auto intro!: bit_word_eqI simp: bit_simps)

lemma shift1_eq_0D: assumes "shift1 x = 0" shows "x = 0"
proof (cases "bit x 7")
  case True
  with assms have "bit (push_bit 1 x XOR kPoly) 0 = False" by simp
  then show ?thesis by (simp add: kPoly_def bit_simps)
next
  case False
  show ?thesis
  proof (rule bit_word_eqI)
    fix n assume "n < LENGTH(8)"
    moreover have "bit (push_bit 1 x) (Suc n) = False" using assms False by simp
    ultimately show "bit x n = bit (0 :: byte) n"
      using False by (cases "n = 7") (auto simp: bit_simps)
  qed
qed

lemma checksum_bits_xor: "checksum_bits n (a XOR b) = checksum_bits n a XOR checksum_bits n b"
  by (induction n arbitrary: a b) (simp_all only: checksum_bits.simps shift1_xor)

lemma checksum_bits_0 [simp]: "checksum_bits n 0 = 0"
  by (induction n) simp_all

lemma checksum_bits_eq_0D: "checksum_bits n x = 0 \<Longrightarrow> x = 0"
  by (induction n arbitrary: x) (auto simp only: checksum_bits.simps dest: shift1_eq_0D)

lemma checksum_bits_inj: "checksum_bits n a = checksum_bits n b \<longleftrightarrow> a = b"
  using checksum_bits_eq_0D [of n "a XOR b"] by (auto simp: checksum_bits_xor)

lemma crc_fold_inj:
  "fold (\<lambda>b c. checksum_bits 8 (c XOR b)) bs c = fold (\<lambda>b c. checksum_bits 8 (c XOR b)) bs d
    \<longleftrightarrow> c = d"
  by (induction bs arbitrary: c d) (auto simp: checksum_bits_inj)

text \<open>C31: \<open>ChecksumHeader\<close> detects every corruption of a single byte: changing any one of the \<open>n\<close>
  bytes it covers changes the checksum.\<close>

theorem ChecksumHeader_detects:
  assumes "i < n" and "n \<le> length msg" and "b \<noteq> msg ! i"
  shows "ChecksumHeader (msg[i := b]) n \<noteq> ChecksumHeader msg n"
proof -
  obtain xs zs where old: "take n msg = xs @ msg ! i # zs" and new: "take n (msg[i := b]) = xs @ b # zs"
  proof
    show "take n msg = take i msg @ msg ! i # drop (Suc i) (take n msg)"
      using assms id_take_nth_drop [of i "take n msg"] by (simp add: min_def)
    show "take n (msg[i := b]) = take i msg @ b # drop (Suc i) (take n msg)"
      using assms upd_conv_take_nth_drop [of i "take n msg" b] by (simp add: take_update_swap min_def)
  qed
  show ?thesis
    using assms by (simp add: ChecksumHeader_eq crc8_def old new crc_fold_inj checksum_bits_inj)
qed

theorem ChecksumHeader_detects_witness:
  "ChecksumHeader ([1, 2, 3][1 := 7]) 3 \<noteq> ChecksumHeader [1, 2, 3] 3"
  by (rule ChecksumHeader_detects) simp_all

lemma crc8_residue: "crc8 (bs @ [crc8 bs]) = 0"
  by (simp add: crc8_def)

lemma bit_0x131: "bit (0x131 :: u16) n \<longleftrightarrow> bit kPoly n \<or> n = 8"
proof -
  have "(0x131 :: u16) = ucast kPoly OR push_bit 8 1"
    by (simp add: kPoly_def)
  then show ?thesis
    by (simp only: bit_or_iff bit_push_bit_iff bit_ucast_iff bit_1_iff)
       (auto dest: bit_imp_le_length)
qed

lemma poly_step_byte: "poly_step b (ucast c) = ucast (lfsr_step b c)"
proof (rule bit_word_eqI)
  fix n
  assume n: "n < LENGTH(16)"
  define p where "p = push_bit 1 (ucast c :: u16) OR of_bool b"
  have p: "bit p m \<longleftrightarrow> (if m = 0 then b else m < 16 \<and> bit c (m - 1))" for m
    unfolding p_def bit_or_iff bit_push_bit_iff bit_of_bool_iff bit_ucast_iff
    by (auto dest: bit_byteD)
  have q: "bit (lfsr_step b c) m \<longleftrightarrow>
      m < 8 \<and> (((m \<noteq> 0 \<and> bit c (m - 1)) \<noteq> (bit c 7 \<and> bit kPoly m)) \<noteq> (m = 0 \<and> b))" for m
    by (auto simp: lfsr_step_def bit_simps dest: bit_byteD)
  have "bit (poly_step b (ucast c)) n \<longleftrightarrow> bit p n \<noteq> (bit p 8 \<and> (bit kPoly n \<or> n = 8))"
    unfolding poly_step_def p_def [symmetric] Let_def by (simp only: bit_xor_iff bit_0x131 split: if_split) blast
  also have "\<dots> \<longleftrightarrow> bit (lfsr_step b c) n"
  proof -
    consider "n = 0" | "0 < n" "n < 8" | "n = 8" | "8 < n" by linarith
    then show ?thesis
    proof cases
      case 4
      then have "\<not> bit c (n - 1)" "\<not> bit kPoly n"
        using bit_byteD [of c "n - 1"] bit_byteD [of kPoly n] by auto
      with 4 n show ?thesis by (simp add: p q)
    qed (auto simp: p q)
  qed
  also have "\<dots> \<longleftrightarrow> bit (ucast (lfsr_step b c) :: u16) n"
    using n by (auto simp: bit_ucast_iff dest: bit_byteD)
  finally show "bit (poly_step b (ucast c)) n = bit (ucast (lfsr_step b c) :: u16) n" .
qed

lemma lfsr_drop_bit: "k = Suc j \<Longrightarrow> lfsr_step (bit b j) (drop_bit k b) = drop_bit j b"
proof -
  assume k: "k = Suc j"
  have "\<not> bit (drop_bit (Suc j) b) 7"
    by (auto simp: bit_simps dest: bit_imp_le_length)
  moreover have "bit (push_bit 1 (drop_bit (Suc j) b) XOR of_bool (bit b j)) n = bit (drop_bit j b) n"
    if "n < 8" for n
    using that by (cases n) (auto simp: bit_simps)
  ultimately show ?thesis
    unfolding k lfsr_step_def by (intro bit_word_eqI) simp
qed

lemma fold_poly_step: "fold poly_step bs (ucast c) = ucast (fold lfsr_step bs c)"
  by (induction bs arbitrary: c) (simp_all add: poly_step_byte)

lemma fold_lfsr_zeros: "fold lfsr_step (replicate n False) c = checksum_bits n c"
  by (induction n arbitrary: c) (simp_all add: lfsr_step_def)

lemma fold_lfsr_xor:
  "fold lfsr_step bs (c XOR d) = checksum_bits (length bs) c XOR fold lfsr_step bs d"
proof (induction bs arbitrary: c d)
  case Nil
  show ?case by simp
next
  case (Cons b bs)
  have "lfsr_step b (c XOR d) = shift1 c XOR lfsr_step b d"
    by (simp only: lfsr_step_def shift1_xor xor.assoc)
  then show ?case
    using Cons.IH [of "shift1 c" "lfsr_step b d"] by simp
qed

lemma fold_byte_bits: "fold lfsr_step (byte_bits b) c = checksum_bits 8 c XOR b"
proof -
  have "drop_bit 8 b = 0"
    by (rule bit_word_eqI) (auto simp: bit_simps dest: bit_imp_le_length)
  then have "lfsr_step (bit b 7) 0 = drop_bit 7 b"
    using lfsr_drop_bit [of 8 7 b] by simp
  moreover have "lfsr_step (bit b 6) (drop_bit 7 b) = drop_bit 6 b"
    "lfsr_step (bit b 5) (drop_bit 6 b) = drop_bit 5 b"
    "lfsr_step (bit b 4) (drop_bit 5 b) = drop_bit 4 b"
    "lfsr_step (bit b 3) (drop_bit 4 b) = drop_bit 3 b"
    "lfsr_step (bit b 2) (drop_bit 3 b) = drop_bit 2 b"
    "lfsr_step (bit b 1) (drop_bit 2 b) = drop_bit 1 b"
    "lfsr_step (bit b 0) (drop_bit 1 b) = drop_bit 0 b"
    by (rule lfsr_drop_bit, simp)+
  ultimately have "fold lfsr_step (byte_bits b) 0 = b"
    by (simp only: byte_bits_def list.map fold.simps comp_apply id_apply drop_bit_0)
  moreover have "length (byte_bits b) = 8" by (simp add: byte_bits_def)
  ultimately show ?thesis
    using fold_lfsr_xor [of "byte_bits b" c 0] by simp
qed

lemma fold_crc_poly:
  "fold (\<lambda>b c. checksum_bits 8 (c XOR b)) msg (checksum_bits 8 r) =
   checksum_bits 8 (fold lfsr_step (concat (map byte_bits msg)) r)"
  by (induction msg arbitrary: r) (simp_all add: fold_byte_bits)

text \<open>C30: \<open>ChecksumHeader\<close> is the remainder of the message, followed by eight zero bits, divided by the
  protocol's polynomial 0x131; working with the truncated constant \<open>kPoly\<close> = 0x31 on an 8-bit
  register loses nothing.\<close>

theorem ChecksumHeader_poly:
  "ChecksumHeader msg (length msg) =
   Some (ucast (poly_rem (concat (map byte_bits msg) @ replicate 8 False)))"
proof -
  have "poly_rem (concat (map byte_bits msg) @ replicate 8 False) = ucast (crc8 msg)"
    unfolding poly_rem_def
    using fold_crc_poly [of msg 0]
      fold_poly_step [of "concat (map byte_bits msg) @ replicate 8 False" 0]
    by (simp only: crc8_def fold_append comp_apply fold_lfsr_zeros checksum_bits_0 ucast_0)
  moreover have "ucast (ucast c :: u16) = (c :: byte)" for c
    by (rule bit_word_eqI) (simp add: bit_simps)
  ultimately show ?thesis by (simp add: ChecksumHeader_eq)
qed

section \<open>Whole messages\<close>

lemma length_FrameHeader [simp]: "length (FrameHeader_marshalBytes f) = 24 + length (Guid f)"
  by (simp add: FrameHeader_layout)

lemma MarshalBytes_wire:
  "MarshalBytes now a = Some (a\<lparr>FrameHdr := (FrameHdr a)\<lparr>Time := now\<rparr>\<rparr>, wire now a)"
proof -
  define hdr where "hdr = (case ForwardHeader a of None \<Rightarrow> [] | Some f \<Rightarrow> FrameHeader_marshalBytes f)
            @ FrameHeader_marshalBytes ((FrameHdr a)\<lparr>Time := now\<rparr>)"
  define d where "d = DataHdr a"
  define dh where "dh = [data_flags d, DataSeq d] @ le_bytes 2 (DevType d) @ le_bytes 2 (MsgId d)
            @ le_bytes 2 (of_nat (length (Data a)) :: u16)"
  define body where "body = le_bytes 2 (SessionId d) @ Data a"
  have len: "length dh = 8" by (simp add: dh_def)
  have dm: "dataHeader_marshalBytes d n op = (dh @ [0, 0] @ le_bytes 2 (SessionId d), 9, 10)"
    if "n = length (Data a)" for n op
    using that by (simp add: dataHeader_layout dh_def)
  have wire: "wire now a = hdr @ dh @ [crc8 (hdr @ dh), crc8 body] @ body"
    by (simp add: wire_def Let_def hdr_def dh_def d_def body_def)
  have data: "(if length (Data a) \<noteq> 0 then buf @ Data a else buf) = buf @ Data a" for buf
    by simp
  have "MarshalBytes now a =
    (let buf = hdr @ dh @ [0, 0] @ body in do {
       hc \<leftarrow> ChecksumHeader buf (9 + length hdr - 1);
       let buf = buf[9 + length hdr - 1 := hc];
       bc \<leftarrow> ChecksumHeader (drop (10 + length hdr) buf) (length buf - (10 + length hdr));
       Some (a\<lparr>FrameHdr := (FrameHdr a)\<lparr>Time := now\<rparr>\<rparr>, buf[10 + length hdr - 1 := bc])
     })"
    by (simp add: MarshalBytes_def Let_def hdr_def [symmetric] d_def [symmetric] dm data body_def
          del: length_append length_0_conv)
  then show ?thesis
    unfolding wire by (simp add: Let_def ChecksumHeader_eq len list_update_append)
qed

lemma frame_flags_bits:
  "bit (frame_flags f) n \<longleftrightarrow>
     (n = 7 \<and> Fin f) \<or> (n = 6 \<and> Mask f) \<or> (3 \<le> n \<and> n < 6 \<and> bit (Ver f) (n - 3)) \<or> (n < 3 \<and> bit (Opcode f) n)"
proof -
  have "(0x80 :: byte) = push_bit 7 1" "(0x40 :: byte) = push_bit 6 1" "(0x7 :: byte) = mask 3"
    by (simp_all add: mask_eq_decr_exp)
  then show ?thesis
    unfolding frame_flags_def
    by (simp only: bit_or_iff bit_and_iff bit_push_bit_iff bit_mask_iff bit_1_iff possible_bit_word
          if_distrib [of "\<lambda>x. bit x n"] bit_0_eq bot_apply bot_bool_def len_num0 len_bit0 if_bool_eq_conj)
       auto
qed

lemma and_7_eqI: "(\<And>n. n < 3 \<Longrightarrow> bit a n = bit b n) \<Longrightarrow> a AND 7 = (b AND 7 :: byte)"
proof -
  assume *: "\<And>n. n < 3 \<Longrightarrow> bit a n = bit b n"
  have "(7 :: byte) = mask 3" by (simp add: mask_eq_decr_exp)
  then show ?thesis
    using * by (simp only: flip: take_bit_eq_mask) (auto intro!: bit_word_eqI simp: bit_take_bit_iff)
qed

lemma frame_opcode [simp]: "frame_flags f AND 7 = Opcode f AND 7"
  by (rule and_7_eqI) (simp add: frame_flags_bits)

lemma wire_plain:
  assumes "ForwardHeader a = None" and "Guid (FrameHdr a) = []"
  shows "length (wire now a) = 36 + length (Data a)"
    and "drop 36 (wire now a) = Data a"
    and "wire now a ! 32 = crc8 (take 32 (wire now a))"
    and "wire now a ! 33 = crc8 (drop 34 (wire now a))"
    and "Uint16 (drop 30 (wire now a)) = Some (of_nat (length (Data a)))"
    and "Uint16 (drop 28 (wire now a)) = Some (MsgId (DataHdr a))"
    and "wire now a ! 24 = data_flags (DataHdr a)"
  using assms
  by (simp_all add: wire_def Let_def FrameHeader_layout nth_append nth_Cons' take_Cons' drop_Cons')

text \<open>C32: Every field of a frame header can be read back from the marshalled bytes at the offsets the
  receivers use (opcode in the low bits of byte 0, sequence number at 2, destination id at 8, source
  id at 16), whatever follows the header.\<close>

theorem FrameHeader_roundtrip:
  "let m = FrameHeader_marshalBytes f @ r in
     bit (m ! 0) 7 = Fin f \<and> bit (m ! 0) 6 = Mask f
   \<and> drop_bit 3 (m ! 0) AND 7 = Ver f AND 7 \<and> m ! 0 AND 7 = Opcode f AND 7
   \<and> m ! 1 = Reserve f \<and> Uint16 (drop 2 m) = Some (Sequence f)
   \<and> Uint32 (drop 4 m) = Some (Time f) \<and> Uint64 (drop 8 m) = Some (DstId f)
   \<and> Uint64 (drop 16 m) = Some (SrcId f) \<and> drop 24 m = Guid f @ r"
proof -
  have "drop_bit 3 (frame_flags f) AND 7 = Ver f AND 7"
    by (rule and_7_eqI) (simp add: bit_drop_bit_eq frame_flags_bits)
  then show ?thesis
    by (simp add: Let_def FrameHeader_layout frame_flags_bits)
qed

text \<open>\<open>GetMsgId\<close> finds the message id of every marshalled message of either shape, whatever stale
  bytes follow it in the receive buffer.\<close>

theorem GetMsgId_MarshalBytes:
  assumes "forward_shape a" and "MarshalBytes now a = Some (a', m)"
  shows "GetMsgId (mk_slice m stale) = Some (MsgId (DataHdr a))"
proof -
  from assms(2) have m: "m = wire now a" by (simp add: MarshalBytes_wire)
  show ?thesis
  proof (cases "ForwardHeader a")
    case None
    with assms(1) show ?thesis
      by (simp add: m wire_def Let_def GetMsgId_def IsForwardType_def forward_shape_def FrameHeader_layout
           take_Cons' drop_Cons')
  next
    case (Some f)
    with assms(1) show ?thesis
      by (simp add: m wire_def Let_def GetMsgId_def IsForwardType_def forward_shape_def FrameHeader_layout
           take_Cons' drop_Cons')
  qed
qed

theorem GetMsgId_MarshalBytes_witness:
  "GetMsgId (mk_slice (wire 5 ((NewMsg 0 [1, 2] None)\<lparr>DataHdr := zeroDataHeader\<lparr>MsgId := 0x36\<rparr>\<rparr>)) [9, 9])
   = Some 0x36"
  using GetMsgId_MarshalBytes [where a = "(NewMsg 0 [1, 2] None)\<lparr>DataHdr := zeroDataHeader\<lparr>MsgId := 0x36\<rparr>\<rparr>"
      and now = 5 and stale = "[9, 9]"]
  by (simp add: MarshalBytes_wire forward_shape_def NewMsg_def NewFrameHeader_def zeroDataHeader_def)

text \<open>\<open>ForwardSrcId\<close> panics on every message: it cuts a two-byte slice and reads eight bytes from
  it.\<close>

theorem ForwardSrcId_panics: "ForwardSrcId msg = None"
  by (auto simp: ForwardSrcId_def sl_range_def sl_bytes_def Uint64_def Uint_def bind_eq_None_conv)

text \<open>\<open>MsgStatus.Marshal\<close> never panics; it rejects payloads over 255 bytes, writes type, id and a zero
  byte when there is no payload, and otherwise puts the length byte one position too late and
  drops the last byte of the payload.\<close>

theorem MsgStatus_Marshal_spec:
  "MsgStatus_Marshal m = Some (
     if length (Payload m) > 255 then Inl ErrPayloadTooLong
     else if Payload m = [] then Inr (Type m # le_bytes 8 (Id m) @ [0])
     else Inr (Type m # le_bytes 8 (Id m) @ [0, of_nat (length (Payload m))] @ butlast (Payload m)))"
proof (cases "Payload m")
  case Nil
  then show ?thesis
    by (simp add: MsgStatus_Marshal_def overwrite_def numeral_eq_Suc)
next
  case (Cons b bs)
  have "(le_bytes 8 (Id m) @ 0 # 0 # r)[9 := v] = le_bytes 8 (Id m) @ 0 # v # r" for v r
    by (simp add: list_update_append)
  moreover have "replicate (11 + n) (0 :: byte) = 0 # replicate (10 + n) 0" for n
    by (simp add: numeral_eq_Suc)
  ultimately show ?thesis
    by (auto simp: MsgStatus_Marshal_def overwrite_def copy_at_def Cons butlast_conv_take)
qed

text \<open>On a message without forward header, \<open>NewAckMsg\<close> leaves the flag byte of the data header
  (offset 24) as it is and sets the bit inside the body instead.\<close>

theorem NewAckMsg_wrong_byte:
  assumes "ForwardHeader a = None" and "Guid (FrameHdr a) = []"
    and "MarshalBytes now a = Some (a', m)" and "12 < length (Data a)"
  shows "\<exists>m'. NewAckMsg m = Some m' \<and> m' ! 24 = data_flags (DataHdr a)
    \<and> drop 36 m' = (Data a)[12 := Data a ! 12 OR FlagAck]"
proof -
  from assms(3) have m: "m = wire now a" by (simp add: MarshalBytes_wire)
  note w = wire_plain [OF assms(1,2), of now]
  have "wire now a ! 48 = Data a ! 12"
    using w(1) nth_drop [of 36 "wire now a" 12] by (simp add: w(2))
  with w assms(4) show ?thesis
    by (simp add: m NewAckMsg_def drop_update_swap)
qed

theorem NewAckMsg_wrong_byte_witness:
  "\<exists>m'. NewAckMsg (wire 0 (NewMsg 0 (replicate 13 1) None)) = Some m'
    \<and> m' ! 24 = data_flags (DataHdr (NewMsg 0 (replicate 13 1) None))
    \<and> drop 36 m' = (replicate 13 1)[12 := replicate 13 1 ! 12 OR FlagAck]"
  using NewAckMsg_wrong_byte [of "NewMsg 0 (replicate 13 1) None" 0 _ "wire 0 (NewMsg 0 (replicate 13 1) None)"]
  by (simp only: MarshalBytes_wire) (simp add: NewMsg_def NewFrameHeader_def)

end
