(* ===== verification/CometRedis.thy ===== *)
theory CometRedis
  imports Redis Msgs
begin

text \<open>
  The comet's use of redis (\<^verbatim>\<open>comet/redis.go\<close>): the Lua scripts that count connections and hand out phone
  numbers, the lookups of who owns which device, the stored UDP sessions, and the status messages
  published for the users of a device.  A script runs atomically.  \<^term>\<open>None\<close> is an error.
\<close>

section \<open>Scripts and their callers\<close>

definition PubKey :: string where "PubKey = ''PubKey''"

definition HostUsers :: "string \<Rightarrow> string" where
  "HostUsers host = ''Host:'' @ host"

definition RedisUserMobiles :: "i64 \<Rightarrow> string" where
  "RedisUserMobiles uid = ''user:mobileid:'' @ FormatInt uid"

definition scriptOnline :: "'r redis_ops \<Rightarrow> string \<Rightarrow> string \<Rightarrow> string \<Rightarrow> string \<Rightarrow> 'r \<Rightarrow> int \<times> 'r" where
  "scriptOnline R key1 key2 argv1 argv2 r =
     (let (count, r) = rd_HINCRBY R key1 key2 1 r;
          r = (if count = 1 then rd_PUBLISH R argv1 (key2 @ ''|'' @ argv2 @ ''|1'') r else r)
      in (count, r))"

definition scriptOffline :: "'r redis_ops \<Rightarrow> string \<Rightarrow> string \<Rightarrow> string \<Rightarrow> string \<Rightarrow> 'r \<Rightarrow> int \<times> 'r" where
  "scriptOffline R key1 key2 argv1 argv2 r =
     (let (count, r) = rd_HINCRBY R key1 key2 (- 1) r;
          r = (if count = 0
               then rd_HDEL R key1 key2 (rd_PUBLISH R argv1 (key2 @ ''|'' @ argv2 @ ''|0'') r)
               else r)
      in (count, r))"

text \<open>The loop of the script that picks a phone number, and the result 0 when all are taken.\<close>

fun select_loop :: "'r redis_ops \<Rightarrow> string \<Rightarrow> nat list \<Rightarrow> 'r \<Rightarrow> nat \<times> 'r" where
  "select_loop R key [] r = (0, r)"
| "select_loop R key (mid # mids) r =
     (let (n, r) = rd_SADD R key (format_nat mid) r
      in if n = 1 then (mid, r) else select_loop R key mids r)"

definition scriptSelectMobileId :: "'r redis_ops \<Rightarrow> string \<Rightarrow> 'r \<Rightarrow> nat \<times> 'r" where
  "scriptSelectMobileId R key r = select_loop R key [1..<16] r"

text \<open>The callers; \<^term>\<open>None\<close> is an error.  \<^verbatim>\<open>redis.Bool\<close> of a count says whether it is not zero.\<close>

definition SetUserOnline :: "'r redis_ops \<Rightarrow> i64 \<Rightarrow> string \<Rightarrow> 'r \<Rightarrow> bool option \<times> 'r" where
  "SetUserOnline R uid host r =
     (if \<not> rd_up R r then (None, r)
      else let (count, r) = scriptOnline R (HostUsers host) (FormatInt uid) PubKey host r
           in (Some (count \<noteq> 0), r))"

definition SetUserOffline :: "'r redis_ops \<Rightarrow> i64 \<Rightarrow> string \<Rightarrow> 'r \<Rightarrow> bool option \<times> 'r" where
  "SetUserOffline R uid host r =
     (if \<not> rd_up R r then (None, r)
      else let (count, r) = scriptOffline R (HostUsers host) (FormatInt uid) PubKey host r
           in (Some (count \<noteq> 0), r))"

definition ClearRedis :: "'r redis_ops \<Rightarrow> string \<Rightarrow> 'r \<Rightarrow> bool \<times> 'r" where
  "ClearRedis R ip r =
     (if \<not> rd_up R r then (False, r)
      else (True, rd_PUBLISH R PubKey (''0|'' @ ip @ ''|0'') (rd_DEL R (HostUsers ip) r)))"

definition SelectMobileId :: "'r redis_ops \<Rightarrow> i64 \<Rightarrow> 'r \<Rightarrow> nat option \<times> 'r" where
  "SelectMobileId R uid r =
     (if \<not> rd_up R r then (None, r)
      else let (mid, r) = scriptSelectMobileId R (RedisUserMobiles uid) r in (Some mid, r))"

definition ReturnMobileId :: "'r redis_ops \<Rightarrow> i64 \<Rightarrow> byte \<Rightarrow> 'r \<Rightarrow> nat \<times> 'r" where
  "ReturnMobileId R userId mid r =
     (if \<not> rd_up R r then (0, r) else rd_SREM R (RedisUserMobiles userId) (format_nat (unat mid)) r)"

section \<open>Devices and users\<close>

definition RedisDeviceUsers :: string where "RedisDeviceUsers = ''device:owner''"

definition RedisUserDevices :: "string \<Rightarrow> string" where
  "RedisUserDevices u = ''u:'' @ u @ '':devices''"

text \<open>The values that parse, in order.\<close>

definition parse_all :: "string list \<Rightarrow> i64 list" where
  "parse_all xs = map (fst \<circ> ParseInt) (filter (\<lambda>x. snd (ParseInt x) = None) xs)"

definition GetDeviceUsers :: "'r redis_ops \<Rightarrow> i64 \<Rightarrow> 'r \<Rightarrow> i64 list option" where
  "GetDeviceUsers R deviceId r = (case rd_HGET R RedisDeviceUsers (FormatInt deviceId) r of
     None \<Rightarrow> None
   | Some user \<Rightarrow> (case rd_HGET R ''user:family'' user r of
       None \<Rightarrow> Some [fst (ParseInt user)]
     | Some host \<Rightarrow>
         if host = [] then Some [fst (ParseInt user)]
         else Some (parse_all (case rd_SMEMBERS R (''family:'' @ host) r of Some ms \<Rightarrow> ms | None \<Rightarrow> []))))"

text \<open>An earlier version, which knows only the owner and is not called any more.\<close>

definition GetDeviceUsers_bk :: "'r redis_ops \<Rightarrow> i64 \<Rightarrow> 'r \<Rightarrow> i64 list option" where
  "GetDeviceUsers_bk R deviceId r = (case rd_HGET R RedisDeviceUsers (FormatInt deviceId) r of
     None \<Rightarrow> None
   | Some user \<Rightarrow> (case ParseInt user of (u_id, None) \<Rightarrow> Some [u_id] | (_, Some _) \<Rightarrow> None))"

lemma GetDeviceUsers_bk_agrees:
  assumes "GetDeviceUsers_bk R did r = Some us" and "rd_HGET R RedisDeviceUsers (FormatInt did) r = Some user" and "rd_HGET R ''user:family'' user r = None"
  shows "GetDeviceUsers R did r = Some us"
  using assms by (auto simp: GetDeviceUsers_bk_def GetDeviceUsers_def split: prod.splits option.splits)

definition GetUserDevices :: "'r redis_ops \<Rightarrow> i64 \<Rightarrow> 'r \<Rightarrow> i64 list" where
  "GetUserDevices R userId r =
     (let devs = (\<lambda>u. case rd_SMEMBERS R (RedisUserDevices u) r of Some ds \<Rightarrow> ds | None \<Rightarrow> []);
          idStrs = (case rd_HGET R ''user:family'' (FormatInt userId) r of
              None \<Rightarrow> devs (FormatInt userId)
            | Some hostId \<Rightarrow>
                if hostId = [] then devs (FormatInt userId)
                else concat (map devs (case rd_SMEMBERS R (''family:'' @ hostId) r of Some ms \<Rightarrow> ms | None \<Rightarrow> [])))
      in parse_all idStrs)"

section \<open>Stored sessions\<close>

definition RedisSessionDevice :: "string \<Rightarrow> string" where
  "RedisSessionDevice sid = ''sess:dev:'' @ sid"

definition RedisSessionDeviceAddr :: "i64 \<Rightarrow> string" where
  "RedisSessionDeviceAddr deviceId = ''sess:dev:sid:'' @ FormatInt deviceId"

definition GetDeviceSession :: "'r redis_ops \<Rightarrow> string \<Rightarrow> 'r \<Rightarrow> string option" where
  "GetDeviceSession R sid r = rd_GET R (RedisSessionDevice sid) r"

definition SetDeviceSession :: "'r redis_ops \<Rightarrow> string \<Rightarrow> nat \<Rightarrow> string \<Rightarrow> i64 \<Rightarrow> 'r \<Rightarrow> bool \<times> 'r" where
  "SetDeviceSession R sid expire json deviceId r =
     (if \<not> rd_up R r then (False, r)
      else
        let r = rd_SETEX R (RedisSessionDevice sid) expire json r
        in if deviceId = 0 then (True, r)
           else if \<not> rd_up R r then (False, r)
           else (True, rd_SETEX R (RedisSessionDeviceAddr deviceId) expire sid r))"

definition GetDeviceSid :: "'r redis_ops \<Rightarrow> i64 \<Rightarrow> 'r \<Rightarrow> string option" where
  "GetDeviceSid R deviceId r = rd_GET R (RedisSessionDeviceAddr deviceId) r"

text \<open>Deleting a session, which nothing calls.\<close>

definition DeleteDeviceSession :: "'r redis_ops \<Rightarrow> string \<Rightarrow> 'r \<Rightarrow> bool \<times> 'r" where
  "DeleteDeviceSession R sid r = (if \<not> rd_up R r then (False, r) else (True, rd_DEL R (RedisSessionDevice sid) r))"

lemma DeleteDeviceSession_gone:
  assumes "redis_deletion R" and "DeleteDeviceSession R sid r = (True, r')"
  shows "GetDeviceSession R sid' r' = (if sid' = sid then None else GetDeviceSession R sid' r)"
  using assms by (auto simp: DeleteDeviceSession_def GetDeviceSession_def RedisSessionDevice_def redis_deletion.GET_DEL split: if_splits)

section \<open>Status messages for the users of a device\<close>

definition bytes_str :: "byte list \<Rightarrow> string" where
  "bytes_str bs = map (\<lambda>b. char_of (unat b)) bs"

definition str_bytes :: "string \<Rightarrow> byte list" where
  "str_bytes s = map (\<lambda>c. of_nat (of_char c)) s"

fun join_comma :: "string list \<Rightarrow> string" where
  "join_comma [] = []"
| "join_comma [x] = x"
| "join_comma (x # y # xs) = x @ CHR '','' # join_comma (y # xs)"

text \<open>The message: the user ids, a separator, and a status body without payload.\<close>

definition dev_msg :: "byte \<Rightarrow> i64 \<Rightarrow> i64 list \<Rightarrow> string" where
  "dev_msg flag deviceId users =
     join_comma (map FormatInt users) @ ''|'' @ bytes_str [flag] @ bytes_str (le_bytes 8 deviceId) @ bytes_str [0]"

definition PushDevOnlineMsgToUsers :: "'r redis_ops \<Rightarrow> i64 \<Rightarrow> i64 list \<Rightarrow> string \<Rightarrow> 'r \<Rightarrow> 'r" where
  "PushDevOnlineMsgToUsers R deviceId users addr r =
     rd_PUBLISH R ''PubCommonMsg:0x36'' (dev_msg 9 deviceId users)
       (rd_HSET R ''device:adr'' (FormatInt deviceId) addr r)"

text \<open>The network name \<^verbatim>\<open>udp\<close> is passed to \<^verbatim>\<open>HDEL\<close> as a second field.\<close>

definition PushDevOfflineMsgToUsers :: "'r redis_ops \<Rightarrow> i64 \<Rightarrow> i64 list \<Rightarrow> 'r \<Rightarrow> 'r" where
  "PushDevOfflineMsgToUsers R deviceId users r =
     rd_PUBLISH R ''PubCommonMsg:0x36'' (dev_msg 10 deviceId users)
       (rd_HDEL R ''device:adr'' ''udp'' (rd_HDEL R ''device:adr'' (FormatInt deviceId) r))"

lemma unat_byte_mod [simp]: "unat (b :: byte) mod 256 = unat b"
  using unsigned_less [of b, where 'a = nat] by simp

lemma str_bytes_str [simp]: "str_bytes (bytes_str bs) = bs"
  by (simp add: str_bytes_def bytes_str_def comp_def)

lemma length_bytes_str [simp]: "length (bytes_str bs) = length bs"
  by (simp add: bytes_str_def)

lemma bytes_str_append [simp]: "bytes_str (a @ b) = bytes_str a @ bytes_str b"
  by (simp add: bytes_str_def)

section \<open>Phone numbers\<close>

lemma format_nat_inj: "m < 2 ^ 64 \<Longrightarrow> n < 2 ^ 64 \<Longrightarrow> format_nat m = format_nat n \<longleftrightarrow> m = n"
  by (metis parse_format_nat fst_conv)

lemma select_loop_spec:
  assumes "redis_sets R mem"
  shows "case filter (\<lambda>m. format_nat m \<notin> mem r key) mids of
     [] \<Rightarrow> fst (select_loop R key mids r) = 0 \<and> mem (snd (select_loop R key mids r)) = mem r
   | m # _ \<Rightarrow> fst (select_loop R key mids r) = m
       \<and> mem (snd (select_loop R key mids r)) = (mem r)(key := insert (format_nat m) (mem r key))"
proof (induction mids arbitrary: r)
  case Nil
  then show ?case by simp
next
  case (Cons mid mids)
  obtain n r' where add: "rd_SADD R key (format_nat mid) r = (n, r')" by fastforce
  have n: "n = (if format_nat mid \<in> mem r key then 0 else 1)"
    using redis_sets.SADD_result [OF assms, of key "format_nat mid" r] add by simp
  have m: "mem r' = (mem r)(key := insert (format_nat mid) (mem r key))"
    using redis_sets.SADD_mem [OF assms, of key "format_nat mid" r] add by (auto simp: fun_eq_iff)
  show ?case
  proof (cases "format_nat mid \<in> mem r key")
    case True
    then have "mem r' = mem r" using m by (simp add: insert_absorb)
    then show ?thesis using Cons [of r'] True add n by (simp split: list.splits)
  next
    case False
    then show ?thesis using add n m by simp
  qed
qed

text \<open>A phone number handed out is free and becomes taken: for a user with a free number from 1 to 15 the
  smallest free one is returned and marked as taken, nothing else changing; when all fifteen are taken
  the result is 0 and nothing changes.\<close>

theorem SelectMobileId_spec:
  assumes "redis_sets R mem" and "rd_up R r"
  shows "case filter (\<lambda>m. format_nat m \<notin> mem r (RedisUserMobiles uid)) [1..<16] of
     [] \<Rightarrow> \<exists>r'. SelectMobileId R uid r = (Some 0, r') \<and> mem r' = mem r
   | m # _ \<Rightarrow> \<exists>r'. SelectMobileId R uid r = (Some m, r')
       \<and> mem r' = (mem r)(RedisUserMobiles uid := insert (format_nat m) (mem r (RedisUserMobiles uid)))"
  using select_loop_spec [OF assms(1), where r = r and key = "RedisUserMobiles uid" and mids = "[1..<16]"] assms(2)
  by (cases "select_loop R (RedisUserMobiles uid) [1..<16] r")
     (auto simp: SelectMobileId_def scriptSelectMobileId_def split: list.splits)

theorem SelectMobileId_spec_witness:
  "\<exists>r'. SelectMobileId plain_redis 16 empty_store = (Some 1, r') \<and> set (ps_set r' (RedisUserMobiles 16)) = {format_nat 1}"
proof -
  have up: "rd_up plain_redis empty_store" by (simp add: plain_redis_def)
  have "[1..<16] = 1 # [2..<16 :: nat]" by (simp add: upt_rec)
  then have "filter (\<lambda>m. format_nat m \<notin> set (ps_set empty_store k)) [1..<16] = 1 # [2..<16]" for k
    by (simp add: empty_store_def)
  then obtain r' where "SelectMobileId plain_redis 16 empty_store = (Some 1, r')"
    "(\<lambda>k. set (ps_set r' k)) = (\<lambda>k. set (ps_set empty_store k))(RedisUserMobiles 16 := insert (format_nat 1) (set (ps_set empty_store (RedisUserMobiles 16))))"
    using SelectMobileId_spec [OF plain_sets.redis_sets_axioms up, of 16] by auto
  then show ?thesis
    using fun_cong [of "\<lambda>k. set (ps_set r' k)" _ "RedisUserMobiles 16"] by (auto simp: empty_store_def)
qed

end
