(* ===== verification/Frames.thy ===== *)
theory Frames
  imports Go_Prelude
begin

text \<open>
  The frames comets and buses exchange: a 16-bit count, that many 64-bit ids, and the message
  (\<open>id_frame\<close>); a comet puts the sender's id in front (\<open>bus_frame\<close>).  The code builds them with sizes
  and offsets computed in \<^verbatim>\<open>uint16\<close>, which wrap around for long messages or many ids; the
  functions here are the loops it writes ids with and reads ids with, and the lemmas say when the
  16-bit arithmetic is exact.
\<close>

section \<open>Reference frames\<close>

text \<open>On a TCP connection every message is preceded by its length.\<close>

definition framed :: "byte list \<Rightarrow> byte list" where
  "framed msg = le_bytes 4 (of_nat (length msg) :: u32) @ msg"

text \<open>The length at the start of the input, as the receivers read it.\<close>

definition frame_size :: "byte list \<Rightarrow> nat" where
  "frame_size header = unat (le_word (take 4 header) :: u32)"

definition ids_bytes :: "i64 list \<Rightarrow> byte list" where
  "ids_bytes ids = concat (map (le_bytes 8) ids)"

definition id_frame :: "i64 list \<Rightarrow> byte list \<Rightarrow> byte list" where
  "id_frame ids data = le_bytes 2 (of_nat (length ids) :: u16) @ ids_bytes ids @ data"

definition bus_frame :: "i64 \<Rightarrow> i64 list \<Rightarrow> byte list \<Rightarrow> byte list" where
  "bus_frame src ids data = le_bytes 8 src @ id_frame ids data"

text \<open>The number of ids and the whole frame fit the 16-bit arithmetic of the code.\<close>

definition frame_fits :: "i64 list \<Rightarrow> byte list \<Rightarrow> bool" where
  "frame_fits ids data \<longleftrightarrow> 10 + 8 * length ids + length data < 2 ^ 16"

section \<open>Writing and reading ids\<close>

text \<open>\<^verbatim>\<open>PutUint64(buf[base:][i*8:i*8+8], id)\<close> with \<open>i\<close> a \<^verbatim>\<open>uint16\<close>.\<close>

definition put_id16 :: "nat \<Rightarrow> byte list \<Rightarrow> nat \<Rightarrow> i64 \<Rightarrow> byte list option" where
  "put_id16 base buf i x =
     (let lo = unat (of_nat i * 8 :: u16); hi = unat (of_nat i * 8 + 8 :: u16)
      in if lo \<le> hi \<and> base + hi \<le> length buf then Some (overwrite buf (base + lo) (le_bytes 8 x)) else None)"

fun put_ids16 :: "nat \<Rightarrow> byte list \<Rightarrow> nat \<Rightarrow> i64 list \<Rightarrow> byte list option" where
  "put_ids16 base buf i [] = Some buf"
| "put_ids16 base buf i (x # xs) = (case put_id16 base buf i x of
     None \<Rightarrow> None | Some buf' \<Rightarrow> put_ids16 base buf' (Suc i) xs)"

text \<open>The same loop with an \<^verbatim>\<open>int\<close> index.\<close>

fun put_ids :: "byte list \<Rightarrow> nat \<Rightarrow> i64 list \<Rightarrow> byte list option" where
  "put_ids buf off [] = Some buf"
| "put_ids buf off (x # xs) = (case Put 8 buf off x of
     None \<Rightarrow> None | Some buf' \<Rightarrow> put_ids buf' (off + 8) xs)"

text \<open>\<^verbatim>\<open>Uint64(s[i*8 : i*8+8])\<close> with \<open>i\<close> a \<^verbatim>\<open>uint16\<close>.\<close>

definition get_id16 :: "slice \<Rightarrow> nat \<Rightarrow> i64 option" where
  "get_id16 s i = do {
     w \<leftarrow> sl_range s (unat (of_nat i * 8 :: u16)) (unat (of_nat i * 8 + 8 :: u16));
     Uint64 (sl_bytes w)
   }"

section \<open>Exactness\<close>

lemma length_ids_bytes [simp]: "length (ids_bytes ids) = 8 * length ids"
  by (induction ids) (simp_all add: ids_bytes_def)

lemma ids_bytes_simps [simp]: "ids_bytes [] = []" "ids_bytes (x # xs) = le_bytes 8 x @ ids_bytes xs"
  by (simp_all add: ids_bytes_def)

lemma length_id_frame [simp]: "length (id_frame ids data) = 2 + 8 * length ids + length data"
  by (simp add: id_frame_def)

lemma unat_u16 [simp]: "n < 2 ^ 16 \<Longrightarrow> unat (of_nat n :: u16) = n"
  by (simp add: unat_of_nat take_bit_eq_mod)

lemma unat_u16_exact:
  "k + 8 * n + m < 2 ^ 16 \<Longrightarrow> unat (of_nat k + of_nat n * 8 + of_nat m :: u16) = k + 8 * n + m"
proof -
  have "(of_nat k + of_nat n * 8 + of_nat m :: u16) = of_nat (k + 8 * n + m)"
    by simp
  then show "k + 8 * n + m < 2 ^ 16 \<Longrightarrow> ?thesis"
    by (simp only: unat_u16)
qed

lemma overwrite_prefix: "overwrite (pre @ buf) (length pre) bs = pre @ bs @ drop (length bs) buf"
  by (simp add: overwrite_def)

lemma put_id16_exact:
  assumes "8 * i + 8 < 2 ^ 16" and "length pre = base + 8 * i" and "8 \<le> length buf"
  shows "put_id16 base (pre @ buf) i x = Some (pre @ le_bytes 8 x @ drop 8 buf)"
proof -
  have "unat (of_nat i * 8 :: u16) = 8 * i" "unat (of_nat i * 8 + 8 :: u16) = 8 * i + 8"
    using unat_u16_exact [of 0 i 0] unat_u16_exact [of 0 i 8] assms(1) by simp_all
  then show ?thesis
    using assms overwrite_prefix [of pre buf "le_bytes 8 x"] by (simp add: put_id16_def)
qed

lemma put_ids16_exact:
  assumes "8 * (i + length ids) < 2 ^ 16" and "length pre = base + 8 * i" and "8 * length ids \<le> length buf"
  shows "put_ids16 base (pre @ buf) i ids = Some (pre @ ids_bytes ids @ drop (8 * length ids) buf)"
  using assms
proof (induction ids arbitrary: i pre buf)
  case Nil
  then show ?case by simp
next
  case (Cons x xs)
  have "put_ids16 base (pre @ buf) i (x # xs) = put_ids16 base ((pre @ le_bytes 8 x) @ drop 8 buf) (Suc i) xs"
    using Cons.prems by (simp add: put_id16_exact)
  then show ?case
    using Cons.prems by (subst (asm) Cons.IH) (auto simp: add.commute)
qed

lemma put_ids_exact:
  assumes "off = length pre" and "8 * length ids \<le> length buf"
  shows "put_ids (pre @ buf) off ids = Some (pre @ ids_bytes ids @ drop (8 * length ids) buf)"
  using assms
proof (induction ids arbitrary: off pre buf)
  case Nil
  then show ?case by simp
next
  case (Cons x xs)
  then have "put_ids (pre @ buf) off (x # xs) = put_ids ((pre @ le_bytes 8 x) @ drop 8 buf) (off + 8) xs"
    by (simp add: Put_def overwrite_prefix)
  then show ?case
    using Cons.prems by (subst (asm) Cons.IH) (auto simp: add.commute)
qed

lemma ids_bytes_nth:
  "i < length ids \<Longrightarrow> take 8 (drop (8 * i) (ids_bytes ids @ r)) = le_bytes 8 (ids ! i)"
proof (induction ids arbitrary: i)
  case Nil
  then show ?case by simp
next
  case (Cons x xs)
  then show ?case by (cases i) simp_all
qed

lemma get_id16_exact:
  assumes "i < length ids" and "8 * length ids < 2 ^ 16"
  shows "get_id16 (mk_slice (ids_bytes ids @ r) stale) i = Some (ids ! i)"
proof -
  have "unat (of_nat i * 8 :: u16) = 8 * i" "unat (of_nat i * 8 + 8 :: u16) = 8 * i + 8"
    using unat_u16_exact [of 0 i 0] unat_u16_exact [of 0 i 8] assms by simp_all
  then show ?thesis
    using assms ids_bytes_nth [OF assms(1), of "[]"] by (simp add: get_id16_def)
qed

lemma get_id16_exact':
  assumes "i < length ids" and "8 * length ids < 2 ^ 16"
  shows "get_id16 (mk_slice (ids_bytes ids) stale) i = Some (ids ! i)"
  using get_id16_exact [OF assms, of "[]"] by simp

section \<open>Reading frames\<close>

lemma le_word_4_framed: "length msg < 2 ^ 32 \<Longrightarrow> frame_size (framed msg @ rest) = length msg"
  by (simp add: frame_size_def framed_def unat_of_nat take_bit_eq_mod)

lemma drop_4_framed: "drop 4 (framed msg @ rest) = msg @ rest" "4 \<le> length (framed msg @ rest)"
  by (simp_all add: framed_def)

end
