(* ===== verification/Comets.thy ===== *)
theory Comets
  imports Msgs Go_Strings Frames
begin

text \<open>
  The comet servers connected to a message bus (\<^verbatim>\<open>msgbus/comet.go\<close>): two tables of connections
  by host name, one for the websocket comets and one for the UDP comets with the list of names a UDP
  comet is picked from, and the operations that register, remove and write to them.

  What the bus does to the outside is a trace of events, newest last.  Whether a TCP write succeeds
  and what \<^verbatim>\<open>rand.Intn\<close> returns is decided by the environment from the trace so far.  Every
  operation runs under the mutex of its table and is one atomic step; \<open>muUdp\<close> is modelled as a
  flag because one of the operations returns without unlocking it.
\<close>

section \<open>Events and environment\<close>

type_synonym conn_id = nat

datatype bus_stat = UpStreamIn | DownStreamOut | DownStreamOutBad | CometCount

datatype bus_event =
    TcpWrite conn_id "byte list"
  | TcpFail conn_id
  | RmqPush "byte list" u16
  | StatInc bus_stat
  | StatDec bus_stat

record bus_env =
  tcp_ok :: "bus_event list \<Rightarrow> conn_id \<Rightarrow> byte list \<Rightarrow> bool"
  Intn :: "bus_event list \<Rightarrow> nat \<Rightarrow> nat"
  glogV :: "nat \<Rightarrow> bool"
  map_order :: "bus_event list \<Rightarrow> string list \<Rightarrow> string list"

datatype push_error =
    CannotFind string
  | WriteError
  | UserNotFound i64

section \<open>State\<close>

record CometServer =
  cs_kv :: "i64 set"
  cs_conn :: conn_id
  cometType :: CometType

record comets =
  Servers :: "string \<rightharpoonup> CometServer"
  muUdp :: bool
  UdpCometNames :: "string list"
  ServersUdp :: "string \<rightharpoonup> CometServer"
  events :: "bus_event list"

definition NewComets :: comets where
  "NewComets = \<lparr>Servers = Map.empty, muUdp = False, UdpCometNames = [], ServersUdp = Map.empty, events = []\<rparr>"

definition emit :: "bus_event \<Rightarrow> ('a comets_scheme, unit) go" where
  "emit e = go_upd (\<lambda>s. s\<lparr>events := events s @ [e]\<rparr>)"

text \<open>\<^verbatim>\<open>muUdp.Lock()\<close> waits for ever on a mutex nobody will unlock.\<close>

definition lockUdp :: "('a comets_scheme, unit) go" where
  "lockUdp s = (if muUdp s then (Blocked, s) else (Ret (), s\<lparr>muUdp := True\<rparr>))"

definition unlockUdp :: "('a comets_scheme, unit) go" where
  "unlockUdp = go_upd (\<lambda>s. s\<lparr>muUdp := False\<rparr>)"

section \<open>Operations\<close>

definition addUser :: "i64 \<Rightarrow> CometServer \<Rightarrow> CometServer" where
  "addUser uid c = c\<lparr>cs_kv := insert uid (cs_kv c)\<rparr>"

definition delUser :: "i64 \<Rightarrow> CometServer \<Rightarrow> CometServer" where
  "delUser uid c = c\<lparr>cs_kv := cs_kv c - {uid}\<rparr>"

text \<open>One write on a connection; the result says whether it succeeded.\<close>

definition conn_Write :: "bus_env \<Rightarrow> conn_id \<Rightarrow> byte list \<Rightarrow> ('a comets_scheme, bool) go" where
  "conn_Write env c bs = go_bind (go_get events) (\<lambda>tr.
     if tcp_ok env tr c bs then go_seq (emit (TcpWrite c bs)) (go_ret True)
     else go_seq (emit (TcpFail c)) (go_ret False))"

definition CometServer_Push :: "bus_env \<Rightarrow> CometServer \<Rightarrow> byte list \<Rightarrow> ('a comets_scheme, push_error option) go" where
  "CometServer_Push env c msg =
     go_bind (conn_Write env (cs_conn c) (le_bytes 4 (of_nat (length msg) :: u32))) (\<lambda>ok.
       if ok then go_bind (conn_Write env (cs_conn c) msg) (\<lambda>ok. go_ret (if ok then None else Some WriteError))
       else go_ret (Some WriteError))"

definition AddServer :: "string \<Rightarrow> conn_id \<Rightarrow> CometType \<Rightarrow> ('a comets_scheme, unit) go" where
  "AddServer host c t =
     (let server = \<lparr>cs_kv = {}, cs_conn = c, cometType = t\<rparr>
      in go_seq
           (if t = CometWs then
              go_upd (\<lambda>s. s\<lparr>Servers := (Servers s)(host \<mapsto> server)\<rparr>)
            else
              go_seq lockUdp
                (go_seq (go_upd (\<lambda>s. s\<lparr>UdpCometNames := UdpCometNames s @ [host],
                                        ServersUdp := (ServersUdp s)(host \<mapsto> server)\<rparr>))
                  unlockUdp))
           (emit (StatInc CometCount)))"

text \<open>The search of \<open>RemoveServer\<close> for the name: the last name takes the place of the first match,
  and the function returns from inside the loop, before the statistics and before the unlock.\<close>

definition RemoveServer :: "string \<Rightarrow> ('a comets_scheme, unit) go" where
  "RemoveServer host = go_bind (go_get Servers) (\<lambda>servers.
     if host \<in> dom servers then
       go_seq (go_upd (\<lambda>s. s\<lparr>Servers := (Servers s)(host := None)\<rparr>)) (emit (StatDec CometCount))
     else
       go_seq lockUdp (go_bind (go_get ServersUdp) (\<lambda>serversUdp.
         if host \<in> dom serversUdp then
           go_seq (go_upd (\<lambda>s. s\<lparr>ServersUdp := (ServersUdp s)(host := None)\<rparr>))
             (go_bind (go_get UdpCometNames) (\<lambda>names.
               case index_of host names of
                 Some k \<Rightarrow> go_upd (\<lambda>s. s\<lparr>UdpCometNames := swap_remove k names\<rparr>)
               | None \<Rightarrow> go_seq (emit (StatDec CometCount)) unlockUdp))
         else unlockUdp)))"

definition AddUserToHost :: "i64 \<Rightarrow> string \<Rightarrow> ('a comets_scheme, unit) go" where
  "AddUserToHost uid host = go_upd (\<lambda>s. case Servers s host of
     Some h \<Rightarrow> s\<lparr>Servers := (Servers s)(host \<mapsto> addUser uid h)\<rparr>
   | None \<Rightarrow> s)"

definition RemoveUserFromHost :: "i64 \<Rightarrow> string \<Rightarrow> ('a comets_scheme, unit) go" where
  "RemoveUserFromHost uid host = go_upd (\<lambda>s. case Servers s host of
     Some h \<Rightarrow> s\<lparr>Servers := (Servers s)(host \<mapsto> delUser uid h)\<rparr>
   | None \<Rightarrow> s)"

definition Comets_PushMsg :: "bus_env \<Rightarrow> byte list \<Rightarrow> string \<Rightarrow> ('a comets_scheme, push_error option) go" where
  "Comets_PushMsg env msg host = go_bind (go_get Servers) (\<lambda>servers.
     case servers host of
       None \<Rightarrow> go_ret (Some (CannotFind host))
     | Some server \<Rightarrow> CometServer_Push env server msg)"

text \<open>\<^verbatim>\<open>rand.Intn(0)\<close> panics.\<close>

definition PushUdpMsg :: "bus_env \<Rightarrow> byte list \<Rightarrow> ('a comets_scheme, push_error option) go" where
  "PushUdpMsg env msg = go_seq lockUdp (go_bind (go_get id) (\<lambda>s.
     if UdpCometNames s = [] then go_lift None
     else
       let host = UdpCometNames s ! Intn env (events s) (length (UdpCometNames s))
       in case ServersUdp s host of
            None \<Rightarrow> go_seq unlockUdp (go_ret (Some (CannotFind host)))
          | Some server \<Rightarrow> go_bind (CometServer_Push env server msg) (\<lambda>err.
              go_seq (if err = None then emit (StatInc DownStreamOut) else go_ret ())
                (go_seq unlockUdp (go_ret err)))))"

definition HostPrefix :: string where "HostPrefix = ''Host:''"

definition hostName :: "string \<Rightarrow> string" where
  "hostName h = (if has_prefix HostPrefix h then drop (length HostPrefix) h else h)"

section \<open>What a push writes\<close>

text \<open>The bytes written to a connection, in order.\<close>

definition written :: "conn_id \<Rightarrow> bus_event list \<Rightarrow> byte list" where
  "written c tr = concat (map (\<lambda>e. case e of TcpWrite d bs \<Rightarrow> if d = c then bs else [] | _ \<Rightarrow> []) tr)"

definition push_events :: "bus_env \<Rightarrow> bus_event list \<Rightarrow> conn_id \<Rightarrow> byte list \<Rightarrow> push_error option \<times> bus_event list" where
  "push_events env tr c msg =
     (let h = le_bytes 4 (of_nat (length msg) :: u32)
      in if \<not> tcp_ok env tr c h then (Some WriteError, [TcpFail c])
         else if \<not> tcp_ok env (tr @ [TcpWrite c h]) c msg then (Some WriteError, [TcpWrite c h, TcpFail c])
         else (None, [TcpWrite c h, TcpWrite c msg]))"

named_theorems comet_defs \<open>the small operations on the comet tables\<close>

lemmas [comet_defs] = emit_def lockUdp_def unlockUdp_def conn_Write_def

lemma written_append [simp]: "written c (xs @ ys) = written c xs @ written c ys"
  by (simp add: written_def)

lemma written_simps [simp]:
  "written c [] = []"
  "written c (TcpWrite d bs # es) = (if d = c then bs @ written c es else written c es)"
  "written c (TcpFail d # es) = written c es"
  "written c (RmqPush bs i # es) = written c es"
  "written c (StatInc st # es) = written c es"
  "written c (StatDec st # es) = written c es"
  by (simp_all add: written_def)

lemma CometServer_Push_eq:
  "CometServer_Push env srv msg s =
     (Ret (fst (push_events env (events s) (cs_conn srv) msg)),
      s\<lparr>events := events s @ snd (push_events env (events s) (cs_conn srv) msg)\<rparr>)"
  by (simp add: CometServer_Push_def push_events_def comet_defs go_monad Let_def)

lemma Comets_PushMsg_eq:
  "Comets_PushMsg env msg host s = (case Servers s host of
     None \<Rightarrow> (Ret (Some (CannotFind host)), s)
   | Some srv \<Rightarrow> CometServer_Push env srv msg s)"
  by (simp add: Comets_PushMsg_def go_monad split: option.split)

lemma push_events_written:
  "push_events env tr c msg = (None, es) \<Longrightarrow> written c es = framed msg \<and> (\<forall>d. d \<noteq> c \<longrightarrow> written d es = [])"
  by (auto simp: push_events_def framed_def Let_def split: if_splits)

text \<open>A push that fails writes at most the length field, and nothing to another connection.\<close>

lemma push_events_failed:
  "push_events env tr c msg = (Some err, es) \<Longrightarrow>
   err = WriteError \<and> (written c es = [] \<or> written c es = le_bytes 4 (of_nat (length msg) :: u32)) \<and> (\<forall>d. d \<noteq> c \<longrightarrow> written d es = [])"
  by (auto simp: push_events_def Let_def split: if_splits)

section \<open>The table of UDP comets\<close>

text \<open>As long as the mutex is free, the names are exactly the registered UDP comets.\<close>

definition comets_wf :: "'a comets_scheme \<Rightarrow> bool" where
  "comets_wf s \<longleftrightarrow>
     (\<not> muUdp s \<longrightarrow> set (UdpCometNames s) = dom (ServersUdp s))
   \<and> (\<forall>c \<in> ran (Servers s). cometType c = CometWs)
   \<and> (\<forall>c \<in> ran (ServersUdp s). cometType c = CometUdp)"

lemma comets_wf_init: "comets_wf NewComets"
  by (simp add: comets_wf_def NewComets_def)

lemma comets_wf_events [simp]: "comets_wf (s\<lparr>events := es\<rparr>) = comets_wf s"
  by (simp add: comets_wf_def)

lemma in_ran_updD:
  "x \<in> ran (m(k \<mapsto> v)) \<Longrightarrow> x = v \<or> x \<in> ran m"
  "x \<in> ran (m(k := None)) \<Longrightarrow> x \<in> ran m"
  by (auto simp: ran_def split: if_splits)

lemma AddServer_wf: "comets_wf s \<Longrightarrow> comets_wf (snd (AddServer host c t s))"
  by (cases t) (auto simp: AddServer_def comets_wf_def comet_defs go_monad Let_def dest!: in_ran_updD)

lemma RemoveServer_wf: "comets_wf s \<Longrightarrow> comets_wf (snd (RemoveServer host s))"
  by (auto simp: RemoveServer_def comets_wf_def comet_defs go_monad split: option.splits dest!: in_ran_updD(2))

lemma Comets_PushMsg_wf: "comets_wf s \<Longrightarrow> comets_wf (snd (Comets_PushMsg env msg host s))"
  by (simp add: Comets_PushMsg_eq CometServer_Push_eq split: option.split)

lemma PushUdpMsg_eq:
  assumes "\<not> muUdp s" and "UdpCometNames s \<noteq> []"
    and "ServersUdp s (UdpCometNames s ! Intn env (events s) (length (UdpCometNames s))) = Some srv"
    and "push_events env (events s) (cs_conn srv) msg = (err, es)"
  shows "PushUdpMsg env msg s =
    (Ret err, s\<lparr>events := events s @ es @ (if err = None then [StatInc DownStreamOut] else [])\<rparr>)"
proof -
  have s: "s\<lparr>muUdp := False\<rparr> = s"
    using assms(1) by (cases s) simp
  show ?thesis
    using assms by (cases s) (simp add: PushUdpMsg_def CometServer_Push_eq comet_defs go_monad)
qed

lemma AddUserToHost_wf: "comets_wf s \<Longrightarrow> comets_wf (snd (AddUserToHost uid host s))"
  by (auto simp: AddUserToHost_def addUser_def comets_wf_def go_monad split: option.splits
      dest!: in_ran_updD intro: ranI)

lemma RemoveUserFromHost_wf: "comets_wf s \<Longrightarrow> comets_wf (snd (RemoveUserFromHost uid host s))"
  by (auto simp: RemoveUserFromHost_def delUser_def comets_wf_def go_monad split: option.splits
      dest!: in_ran_updD intro: ranI)

lemma PushUdpMsg_wf: "comets_wf s \<Longrightarrow> fst (PushUdpMsg env msg s) \<noteq> Panic \<Longrightarrow> comets_wf (snd (PushUdpMsg env msg s))"
  by (auto simp: PushUdpMsg_def CometServer_Push_eq comet_defs go_monad comets_wf_def Let_def split: option.splits if_splits)

section \<open>Properties\<close>

text \<open>Pushing a message to a host writes, on the connection registered for that host and on no
  other, the four-byte length and the message, and returns no error; if the host is not registered
  nothing is written and the error names the host; if a write fails the error is returned and the
  message itself has not been written.\<close>

theorem Comets_PushMsg_spec:
  "case Servers s host of
     None \<Rightarrow> Comets_PushMsg env msg host s = (Ret (Some (CannotFind host)), s)
   | Some srv \<Rightarrow> \<exists>err es. Comets_PushMsg env msg host s = (Ret err, s\<lparr>events := events s @ es\<rparr>)
       \<and> written (cs_conn srv) es \<in> (if err = None then {framed msg} else {[], le_bytes 4 (of_nat (length msg) :: u32)})
       \<and> {d. written d es \<noteq> []} \<subseteq> {cs_conn srv}"
proof (cases "Servers s host")
  case None
  then show ?thesis by (simp add: Comets_PushMsg_eq)
next
  case (Some srv)
  obtain err es where pe: "push_events env (events s) (cs_conn srv) msg = (err, es)"
    by fastforce
  then have "Comets_PushMsg env msg host s = (Ret err, s\<lparr>events := events s @ es\<rparr>)"
    using Some by (simp add: Comets_PushMsg_eq CometServer_Push_eq)
  moreover have "written (cs_conn srv) es \<in> (if err = None then {framed msg} else {[], le_bytes 4 (of_nat (length msg) :: u32)})"
    "{d. written d es \<noteq> []} \<subseteq> {cs_conn srv}"
    using pe push_events_written [of env "events s" "cs_conn srv" msg es] push_events_failed [of env "events s" "cs_conn srv" msg _ es]
    by (cases err; fastforce)+
  ultimately show ?thesis using Some by auto
qed

text \<open>In a well-formed state whose UDP mutex is free, pushing to the UDP comets picks a connected
  one: it panics exactly when none is connected, and otherwise writes the whole frame to the
  connection of one registered UDP comet, when the writes succeed, and never reports an unknown
  host.\<close>

theorem PushUdpMsg_picks_connected:
  assumes "comets_wf s" and "\<not> muUdp s" and "\<And>tr n. 0 < n \<Longrightarrow> Intn env tr n < n"
  shows "if ran (ServersUdp s) = {} then fst (PushUdpMsg env msg s) = Panic
    else \<exists>srv \<in> ran (ServersUdp s). \<exists>err es. PushUdpMsg env msg s = (Ret err, s\<lparr>events := events s @ es\<rparr>)
      \<and> cometType srv = CometUdp \<and> err \<in> {None, Some WriteError}
      \<and> (err = None \<longrightarrow> written (cs_conn srv) es = framed msg)"
proof (cases "UdpCometNames s = []")
  case True
  then have "dom (ServersUdp s) = {}"
    using assms by (simp add: comets_wf_def)
  then show ?thesis
    using True assms(2) by (simp add: PushUdpMsg_def comet_defs go_monad)
next
  case False
  let ?host = "UdpCometNames s ! Intn env (events s) (length (UdpCometNames s))"
  have "?host \<in> dom (ServersUdp s)"
    using assms False by (metis comets_wf_def length_greater_0_conv nth_mem)
  then obtain srv where srv: "ServersUdp s ?host = Some srv" by auto
  then have ran: "srv \<in> ran (ServersUdp s)" by (rule ranI)
  obtain err es where pe: "push_events env (events s) (cs_conn srv) msg = (err, es)"
    by fastforce
  define es' where "es' = es @ (if err = None then [StatInc DownStreamOut] else [])"
  have "PushUdpMsg env msg s = (Ret err, s\<lparr>events := events s @ es'\<rparr>)"
    using PushUdpMsg_eq [OF assms(2) False srv pe] by (simp add: es'_def)
  moreover have "err \<in> {None, Some WriteError} \<and> (err = None \<longrightarrow> written (cs_conn srv) es' = framed msg)"
    using push_events_written [of env "events s" "cs_conn srv" msg es] push_events_failed [of env "events s" "cs_conn srv" msg _ es] pe
    by (cases err) (auto simp: es'_def)
  moreover have "cometType srv = CometUdp"
    using assms(1) ran by (simp add: comets_wf_def)
  ultimately show ?thesis using ran by auto
qed

definition sample_env :: bus_env where
  "sample_env = \<lparr>tcp_ok = \<lambda>_ _ _. True, Intn = \<lambda>_ _. 0, glogV = \<lambda>_. True, map_order = \<lambda>_ ks. ks\<rparr>"

definition sample_udp :: comets where
  "sample_udp = snd (AddServer ''10.0.0.2'' 7 CometUdp NewComets)"

lemma sample_udp_eq:
  "sample_udp = \<lparr>Servers = Map.empty, muUdp = False, UdpCometNames = [''10.0.0.2''],
     ServersUdp = [''10.0.0.2'' \<mapsto> \<lparr>cs_kv = {}, cs_conn = 7, cometType = CometUdp\<rparr>],
     events = [StatInc CometCount]\<rparr>"
  by (simp add: sample_udp_def AddServer_def NewComets_def comet_defs go_monad)

theorem PushUdpMsg_picks_connected_witness:
  "\<exists>srv \<in> ran (ServersUdp sample_udp). \<exists>err es.
     PushUdpMsg sample_env [1, 2, 3] sample_udp = (Ret err, sample_udp\<lparr>events := events sample_udp @ es\<rparr>)
     \<and> cometType srv = CometUdp \<and> err \<in> {None, Some WriteError}
     \<and> (err = None \<longrightarrow> written (cs_conn srv) es = framed [1, 2, 3])"
  using PushUdpMsg_picks_connected [of sample_udp sample_env "[1, 2, 3]"]
  by (simp add: sample_udp_eq sample_env_def comets_wf_def)

text \<open>C37: Removing a connected UDP comet returns with the UDP mutex still locked, and from then on every
  push to the UDP comets, every registration of a UDP comet and every removal of a host that is not
  a websocket comet blocks for ever.\<close>

theorem RemoveServer_udp_deadlock:
  assumes "comets_wf s" and "\<not> muUdp s" and "Servers s host = None" and "ServersUdp s host = Some srv"
  shows "\<exists>s'. RemoveServer host s = (Ret (), s') \<and> muUdp s' \<and> host \<notin> dom (ServersUdp s')
    \<and> PushUdpMsg env msg s' = (Blocked, s')
    \<and> AddServer host' c CometUdp s' = (Blocked, s')
    \<and> (Servers s' host' = None \<longrightarrow> RemoveServer host' s' = (Blocked, s'))"
proof -
  have "host \<in> set (UdpCometNames s)"
    using assms by (auto simp: comets_wf_def)
  then obtain k where "index_of host (UdpCometNames s) = Some k"
    by (metis index_of_None option.exhaust)
  then show ?thesis
    using assms(2-4)
    by (auto simp: RemoveServer_def PushUdpMsg_def AddServer_def comet_defs go_monad Let_def)
qed

theorem RemoveServer_udp_deadlock_witness:
  "\<exists>s'. RemoveServer ''10.0.0.2'' sample_udp = (Ret (), s') \<and> muUdp s' \<and> ''10.0.0.2'' \<notin> dom (ServersUdp s')
    \<and> PushUdpMsg sample_env [1] s' = (Blocked, s')
    \<and> AddServer ''10.0.0.3'' 8 CometUdp s' = (Blocked, s')
    \<and> (Servers s' ''10.0.0.3'' = None \<longrightarrow> RemoveServer ''10.0.0.3'' s' = (Blocked, s'))"
  by (rule RemoveServer_udp_deadlock [of sample_udp "''10.0.0.2''" "\<lparr>cs_kv = {}, cs_conn = 7, cometType = CometUdp\<rparr>"])
     (simp_all add: sample_udp_eq comets_wf_def)

end
