(* ===== verification/Hlist.thy ===== *)
theory Hlist
  imports Go_Prelude
begin

text \<open>
  The interface of \<^verbatim>\<open>cloud-base/hlist\<close>, the linked list both servers keep their sessions, user
  hosts and bus connections in.  The package is not part of the repository, so it is a parameter of
  every definition that uses it: a record of its operations, with the laws the callers rely on as
  the locale \<open>hlist\<close>.

  \<open>hl_elems\<close> is the sequence of elements a loop \<^verbatim>\<open>for e := l.Front(); e != nil; e = e.Next()\<close>
  visits.  What \<^verbatim>\<open>Next\<close> returns on an element that the loop body has just removed is not
  documented; \<open>hl_resume\<close> says whether the loop still reaches the former successor, and no law
  restricts it.
\<close>

record ('e, 'v, 'h) hlist_ops =
  hl_New :: 'h
  hl_PushFront :: "'v \<Rightarrow> 'h \<Rightarrow> 'e \<times> 'h"
  hl_Remove :: "'e \<Rightarrow> 'h \<Rightarrow> 'h"
  hl_elems :: "'h \<Rightarrow> 'e list"
  hl_Value :: "'e \<Rightarrow> 'v"
  hl_Len :: "'h \<Rightarrow> nat"
  hl_resume :: bool

definition hl_vals :: "('e, 'v, 'h) hlist_ops \<Rightarrow> 'h \<Rightarrow> 'v list" where
  "hl_vals H h = map (hl_Value H) (hl_elems H h)"

definition hl_Front :: "('e, 'v, 'h) hlist_ops \<Rightarrow> 'h \<Rightarrow> 'e option" where
  "hl_Front H h = (case hl_elems H h of [] \<Rightarrow> None | e # _ \<Rightarrow> Some e)"

fun next_in :: "'e list \<Rightarrow> 'e \<Rightarrow> 'e option" where
  "next_in [] e = None"
| "next_in (x # xs) e =
     (if x = e then (case xs of [] \<Rightarrow> None | y # _ \<Rightarrow> Some y) else next_in xs e)"

definition hl_Next :: "('e, 'v, 'h) hlist_ops \<Rightarrow> 'h \<Rightarrow> 'e \<Rightarrow> 'e option" where
  "hl_Next H h e = next_in (hl_elems H h) e"

lemma next_in_nth:
  "distinct xs \<Longrightarrow> i < length xs \<Longrightarrow> next_in xs (xs ! i) = (if Suc i < length xs then Some (xs ! Suc i) else None)"
proof (induction xs arbitrary: i)
  case (Cons x xs)
  show ?case
  proof (cases i)
    case 0
    then show ?thesis using Cons.prems by (cases xs) simp_all
  next
    case (Suc j)
    then have "next_in (x # xs) ((x # xs) ! i) = next_in xs (xs ! j)"
      using Cons.prems nth_mem [of j xs] by auto
    then show ?thesis using Suc Cons by simp
  qed
qed simp

text \<open>Moving on from the last element to the front is a step around the list.\<close>

lemma next_or_front:
  assumes "distinct (hl_elems H h)" and "i < length (hl_elems H h)"
  shows "(case hl_Next H h (hl_elems H h ! i) of Some e \<Rightarrow> Some e | None \<Rightarrow> hl_Front H h)
    = Some (hl_elems H h ! (Suc i mod length (hl_elems H h)))"
proof (cases "Suc i < length (hl_elems H h)")
  case True
  then show ?thesis using assms by (simp add: hl_Next_def next_in_nth)
next
  case False
  then have "Suc i = length (hl_elems H h)" using assms(2) by simp
  then have "Suc i mod length (hl_elems H h) = 0" by simp
  moreover have "hl_Next H h (hl_elems H h ! i) = None"
    using assms False by (simp add: hl_Next_def next_in_nth)
  moreover have "hl_Front H h = Some (hl_elems H h ! 0)"
    using assms(2) by (cases "hl_elems H h") (simp_all add: hl_Front_def)
  ultimately show ?thesis by simp
qed

text \<open>The loop that removes every element whose value satisfies \<open>P\<close>, as both servers write it
  (\<^verbatim>\<open>if match { list.Remove(e) }\<close> inside the traversal), with the number of removals.\<close>

fun remove_loop ::
  "('e, 'v, 'h) hlist_ops \<Rightarrow> ('v \<Rightarrow> bool) \<Rightarrow> 'e list \<Rightarrow> 'h \<Rightarrow> nat \<Rightarrow> 'h \<times> nat" where
  "remove_loop H P [] h err = (h, err)"
| "remove_loop H P (e # es) h err =
     (if P (hl_Value H e)
      then remove_loop H P (if hl_resume H then es else []) (hl_Remove H e h) (Suc err)
      else remove_loop H P es h err)"

locale hlist =
  fixes H :: "('e, 'v, 'h) hlist_ops"
  assumes elems_New [simp]: "hl_elems H (hl_New H) = []"
    and elems_PushFront: "hl_PushFront H v h = (e, h') \<Longrightarrow>
      hl_elems H h' = e # hl_elems H h \<and> hl_Value H e = v \<and> e \<notin> set (hl_elems H h)"
    and elems_Remove [simp]:
      "e \<in> set (hl_elems H h) \<Longrightarrow> hl_elems H (hl_Remove H e h) = remove1 e (hl_elems H h)"
    and elems_distinct [simp]: "distinct (hl_elems H h)"
    and Len_elems [simp]: "hl_Len H h = length (hl_elems H h)"
begin

lemma vals_New [simp]: "hl_vals H (hl_New H) = []"
  by (simp add: hl_vals_def)

lemma elems_PushFront_snd: "hl_elems H (snd (hl_PushFront H v h)) = fst (hl_PushFront H v h) # hl_elems H h"
  using elems_PushFront [of v h] by (cases "hl_PushFront H v h") simp

lemma Value_PushFront [simp]: "hl_Value H (fst (hl_PushFront H v h)) = v"
  using elems_PushFront [of v h] by (cases "hl_PushFront H v h") simp

lemma vals_PushFront [simp]: "hl_vals H (snd (hl_PushFront H v h)) = v # hl_vals H h"
  by (simp add: hl_vals_def elems_PushFront_snd)

lemma vals_PushFront_fold:
  "hl_vals H (fold (\<lambda>v h. snd (hl_PushFront H v h)) vs h) = rev vs @ hl_vals H h"
  by (induction vs arbitrary: h) simp_all

lemma Front_None_iff: "hl_Front H h = None \<longleftrightarrow> hl_vals H h = []"
  by (simp add: hl_Front_def hl_vals_def split: list.split)

text \<open>When at most one element matches, the removing loop leaves exactly the others, whether or not
  the traversal survives the removal.\<close>

lemma remove_loop_no_match:
  "\<forall>e \<in> set es. \<not> P (hl_Value H e) \<Longrightarrow> remove_loop H P es h n = (h, n)"
  by (induction es) simp_all

lemma remove1_filter:
  assumes "e \<in> set xs" and "distinct xs" and "Q e" and "\<forall>x \<in> set xs - {e}. \<not> Q x"
  shows "remove1 e xs = filter (\<lambda>x. \<not> Q x) xs"
proof -
  have "remove1 e xs = filter (\<lambda>x. e \<noteq> x) xs"
    using assms(2) by (simp add: distinct_remove1_removeAll removeAll_filter_not_eq)
  also have "\<dots> = filter (\<lambda>x. \<not> Q x) xs"
    using assms by (intro filter_cong) auto
  finally show ?thesis .
qed

lemma remove_loop_elems:
  assumes "set es \<subseteq> set (hl_elems H h)" and "distinct es"
    and "length (filter (\<lambda>e. P (hl_Value H e)) es) \<le> 1"
    and "\<forall>e \<in> set (hl_elems H h) - set es. \<not> P (hl_Value H e)"
  shows "hl_elems H (fst (remove_loop H P es h n)) = filter (\<lambda>e. \<not> P (hl_Value H e)) (hl_elems H h)
    \<and> snd (remove_loop H P es h n) = n + length (filter (\<lambda>e. P (hl_Value H e)) es)"
  using assms
proof (induction es)
  case Nil
  then show ?case by (simp add: filter_id_conv)
next
  case (Cons e es)
  show ?case
  proof (cases "P (hl_Value H e)")
    case True
    with Cons.prems(3) have none: "\<forall>x \<in> set es. \<not> P (hl_Value H x)" "filter (\<lambda>e. P (hl_Value H e)) es = []"
      by (simp_all add: filter_empty_conv)
    then have "remove_loop H P (e # es) h n = (hl_Remove H e h, Suc n)"
      using True by (simp add: remove_loop_no_match)
    moreover have "\<forall>x \<in> set (hl_elems H h) - {e}. \<not> P (hl_Value H x)"
      using Cons.prems(4) none(1) by auto
    ultimately show ?thesis
      using Cons.prems(1) True none(2) remove1_filter [of e "hl_elems H h" "\<lambda>e. P (hl_Value H e)"]
      by simp
  next
    case False
    with Cons show ?thesis by auto
  qed
qed

lemma remove_loop_vals:
  assumes "length (filter P (hl_vals H h)) \<le> 1"
  shows "hl_vals H (fst (remove_loop H P (hl_elems H h) h 0)) = filter (\<lambda>v. \<not> P v) (hl_vals H h)"
    and "snd (remove_loop H P (hl_elems H h) h 0) = length (filter P (hl_vals H h))"
  using assms remove_loop_elems [of "hl_elems H h" h P 0]
  by (simp_all add: hl_vals_def filter_map comp_def)

end

section \<open>A list implementation\<close>

text \<open>
  An implementation that satisfies the laws, used to evaluate concrete examples: elements are values
  tagged with a number that is fresh in their list.  \<open>r\<close> chooses the behaviour the laws leave open.
\<close>

definition plain_hlist :: "bool \<Rightarrow> (nat \<times> 'v, 'v, (nat \<times> 'v) list) hlist_ops" where
  "plain_hlist r = \<lparr>
     hl_New = [],
     hl_PushFront = (\<lambda>v h. let e = (Suc (foldr (\<lambda>x m. max (fst x) m) h 0), v) in (e, e # h)),
     hl_Remove = (\<lambda>e h. remove1 e (remdups h)),
     hl_elems = remdups,
     hl_Value = snd,
     hl_Len = (\<lambda>h. length (remdups h)),
     hl_resume = r\<rparr>"

lemma foldr_max_ge: "x \<in> set h \<Longrightarrow> fst x \<le> foldr (\<lambda>x m. max (fst x) m) h (0::nat)"
  by (induction h) (auto simp: max_def)

interpretation plain: hlist "plain_hlist r"
proof
  fix v :: 'a and h e h'
  assume "hl_PushFront (plain_hlist r) v h = (e, h')"
  moreover have "(Suc (foldr (\<lambda>x m. max (fst x) m) h 0), v) \<notin> set h"
    using foldr_max_ge [of "(Suc (foldr (\<lambda>x m. max (fst x) m) h 0), v)" h] by auto
  ultimately show "hl_elems (plain_hlist r) h' = e # hl_elems (plain_hlist r) h
      \<and> hl_Value (plain_hlist r) e = v \<and> e \<notin> set (hl_elems (plain_hlist r) h)"
    by (auto simp: plain_hlist_def Let_def)
qed (simp_all add: plain_hlist_def distinct_remdups_id distinct_remove1)

end
