(* ===== verification/Blocks.thy ===== *)
theory Blocks
  imports Go_Prelude
begin

text \<open>
  The table both servers keep their users in: an array of \<open>BlockSize\<close> maps, each id stored in the
  map its block number selects (\<^verbatim>\<open>comet/session.go\<close>, \<^verbatim>\<open>msgbus/usermap.go\<close>).  The array access
  \<^verbatim>\<open>table[blockId][id]\<close>, the assignment and \<^verbatim>\<open>delete\<close> are \<open>block_get\<close> and \<open>block_set\<close>;
  the locale \<open>blocks\<close> says what a block number must satisfy and shows that the table then behaves
  as one map.
\<close>

definition block_get :: "('k \<Rightarrow> nat) \<Rightarrow> ('k \<rightharpoonup> 'v) list \<Rightarrow> 'k \<rightharpoonup> 'v" where
  "block_get bid t k = (t ! bid k) k"

definition block_set :: "('k \<Rightarrow> nat) \<Rightarrow> 'k \<Rightarrow> 'v option \<Rightarrow> ('k \<rightharpoonup> 'v) list \<Rightarrow> ('k \<rightharpoonup> 'v) list" where
  "block_set bid k v t = t[bid k := (t ! bid k)(k := v)]"

text \<open>Every block is the map of the ids that belong there, and there are as many as expected.\<close>

definition blocks_wf :: "('k \<Rightarrow> nat) \<Rightarrow> nat \<Rightarrow> ('k \<rightharpoonup> 'v) list \<Rightarrow> bool" where
  "blocks_wf bid n t \<longleftrightarrow> length t = n \<and> (\<forall>i < n. \<forall>k \<in> dom (t ! i). bid k = i)"

locale blocks =
  fixes bid :: "'k \<Rightarrow> nat" and n :: nat
  assumes bid_less [simp]: "bid k < n"
begin

lemma wf_init: "blocks_wf bid n (replicate n Map.empty)"
  by (simp add: blocks_wf_def)

lemma get_init [simp]: "block_get bid (replicate n Map.empty) k = None"
  by (simp add: block_get_def)

lemma wf_set [simp, intro]: "blocks_wf bid n t \<Longrightarrow> blocks_wf bid n (block_set bid k v t)"
  by (auto simp: blocks_wf_def block_set_def nth_list_update split: if_splits)

lemma get_set [simp]: "blocks_wf bid n t \<Longrightarrow> block_get bid (block_set bid k v t) = (block_get bid t)(k := v)"
  by (auto simp: blocks_wf_def block_get_def block_set_def nth_list_update fun_eq_iff)

text \<open>A loop over all blocks and all their entries is a loop over the whole map.\<close>

lemma wf_map:
  assumes "blocks_wf bid n t"
  shows "blocks_wf bid n (map (\<lambda>m k. map_option (f k) (m k)) t)"
  using assms by (auto simp: blocks_wf_def)

lemma get_map:
  assumes "blocks_wf bid n t"
  shows "block_get bid (map (\<lambda>m k. map_option (f k) (m k)) t) k = map_option (f k) (block_get bid t k)"
  using assms by (simp add: blocks_wf_def block_get_def)

lemma in_block_iff:
  assumes "blocks_wf bid n t"
  shows "(\<exists>i < n. (t ! i) k = Some v) \<longleftrightarrow> block_get bid t k = Some v"
  using assms bid_less [of k] unfolding blocks_wf_def block_get_def by (metis domI)

end

section \<open>Block numbers\<close>

text \<open>Go's remainder of a positive id, and of the negation of any other id, by a small positive block
  count is a valid index, also for the one id whose negation overflows.\<close>

lemma sint_rem_128:
  assumes "0 \<le> sint a smod 128"
  shows "0 \<le> sint (go_rem a 128) \<and> sint (go_rem a 128) < 128"
proof -
  have "sint a smod 128 < 128"
    by (cases "0 \<le> sint a") (use smod_int_compares(1) [of "sint a" 128] smod_int_compares(4) [of "sint a" 128] in auto)
  then show ?thesis
    using assms by (simp add: go_rem_def sint_sbintrunc' signed_take_bit_int_eq_self)
qed

lemma minus_rem_128: "\<not> go_pos uid \<Longrightarrow> 0 \<le> sint (- uid) smod 128"
  using sint_range_i64 [of uid]
  by (cases "sint uid = - (2 ^ 63)")
     (auto simp: go_pos_def sint_word_minus signed_take_bit_int_eq_self signed_take_bit_int_eq_self_iff smod_int_compares)

lemma block_128:
  "go_pos uid \<Longrightarrow> 0 \<le> sint (go_rem uid 128) \<and> sint (go_rem uid 128) < 128"
  "\<not> go_pos uid \<Longrightarrow> 0 \<le> sint (go_rem (- uid) 128) \<and> sint (go_rem (- uid) 128) < 128"
  by (intro sint_rem_128, simp add: go_pos_def smod_int_compares) (intro sint_rem_128 minus_rem_128)

end
