(* ===== verification/UserMap.thy ===== *)
theory UserMap
  imports Comets Hlist Blocks
begin

text \<open>
  The message bus's table of online users (\<^verbatim>\<open>msgbus/usermap.go\<close>): for every user the list of the
  comet hosts the user is connected to, in 128 blocks.  The operations run under the mutex of one
  block and are atomic; \<^verbatim>\<open>Load\<close> takes no mutex and is modelled at the same granularity.

  All values in the lists are strings, so the type assertions \<^verbatim>\<open>e.Value.(string)\<close> hold.  The
  lists are updated in place in the code; each is referred to by its table entry only, so an update
  of the entry is the same.
\<close>

section \<open>State and operations\<close>

definition BlockSize :: i64 where "BlockSize = 128"

definition getBlockID :: "i64 \<Rightarrow> i64" where
  "getBlockID uid = (if go_pos uid then go_rem uid BlockSize else go_rem (- uid) BlockSize)"

abbreviation bn :: "i64 \<Rightarrow> nat" where
  "bn uid \<equiv> nat (sint (getBlockID uid))"

record 'h bus = comets +
  kv :: "(i64 \<rightharpoonup> 'h) list"

type_synonym ('e, 'h) hosts_ops = "('e, string, 'h) hlist_ops"

definition InitUserMap :: "(i64 \<rightharpoonup> 'h) list" where
  "InitUserMap = replicate (nat (sint BlockSize)) Map.empty"

definition kv_set :: "i64 \<Rightarrow> 'h \<Rightarrow> 'h bus \<Rightarrow> 'h bus" where
  "kv_set uid h s = s\<lparr>kv := block_set bn uid (Some h) (kv s)\<rparr>"

definition kv_get :: "'h bus \<Rightarrow> i64 \<rightharpoonup> 'h" where
  "kv_get s = block_get bn (kv s)"

text \<open>The list of a user, a new one when the user is unknown.\<close>

definition kv_or_new :: "('e, 'h) hosts_ops \<Rightarrow> 'h bus \<Rightarrow> i64 \<Rightarrow> 'h" where
  "kv_or_new H s uid = (case kv_get s uid of Some h \<Rightarrow> h | None \<Rightarrow> hl_New H)"

fun Load :: "('e, 'h) hosts_ops \<Rightarrow> string list \<Rightarrow> string \<Rightarrow> 'h bus \<Rightarrow> 'h bus" where
  "Load H [] host s = s"
| "Load H (u # us) host s =
     (let uid = fst (ParseInt u);
          h = kv_or_new H s uid
      in Load H us host (kv_set uid (snd (hl_PushFront H host h)) s))"

definition Online :: "('e, 'h) hosts_ops \<Rightarrow> i64 \<Rightarrow> string \<Rightarrow> 'h bus \<Rightarrow> 'h bus" where
  "Online H uid host s =
     (let hostlist = kv_or_new H s uid;
          s = kv_set uid hostlist s;
          doAdd = \<not> (hl_Len H hostlist > 0 \<and> (\<exists>e \<in> set (hl_elems H hostlist). hl_Value H e = host))
      in if doAdd then kv_set uid (snd (hl_PushFront H host hostlist)) s else s)"

definition Offline :: "('e, 'h) hosts_ops \<Rightarrow> i64 \<Rightarrow> string \<Rightarrow> 'h bus \<Rightarrow> 'h bus" where
  "Offline H uid host s = (case kv_get s uid of
     None \<Rightarrow> s
   | Some hostlist \<Rightarrow> kv_set uid (fst (remove_loop H (\<lambda>h. h = host) (hl_elems H hostlist) hostlist 0)) s)"

text \<open>The two loops over all blocks and all users of a block: the lists are changed in place, one by
  one, so the order of the iteration does not matter.\<close>

definition OfflineHost :: "('e, 'h) hosts_ops \<Rightarrow> string \<Rightarrow> 'h bus \<Rightarrow> 'h bus" where
  "OfflineHost H host s = s\<lparr>kv := map (\<lambda>m uid. map_option
     (\<lambda>hostlist. fst (remove_loop H (\<lambda>h. h = host) (hl_elems H hostlist) hostlist 0)) (m uid)) (kv s)\<rparr>"

definition GetUserComet :: "('e, 'h) hosts_ops \<Rightarrow> i64 \<Rightarrow> 'h bus \<Rightarrow> push_error + 'h" where
  "GetUserComet H uid s = (case kv_get s uid of
     None \<Rightarrow> Inl (UserNotFound uid)
   | Some hosts \<Rightarrow> Inr (fold (\<lambda>v l. snd (hl_PushFront H v l)) (hl_vals H hosts) (hl_New H)))"

text \<open>The loop of \<open>PushToComet\<close>: the error variable is overwritten by every push.  At verbosity 2
  the log line slices the first three bytes of the message.\<close>

fun push_loop :: "bus_env \<Rightarrow> slice \<Rightarrow> string list \<Rightarrow> push_error option \<Rightarrow> ('h bus, push_error option) go" where
  "push_loop env msg [] err = go_ret err"
| "push_loop env msg (h # hs) err =
     go_bind (Comets_PushMsg env (sl_bytes msg) h) (\<lambda>err.
       go_seq
         (if err \<noteq> None then go_ret ()
          else go_seq (emit (StatInc DownStreamOut))
            (if glogV env 3 then go_ret ()
             else if glogV env 2 then go_bind (go_lift (sl_range msg 0 3)) (\<lambda>_. go_ret ())
             else go_ret ()))
         (push_loop env msg hs err))"

definition PushToComet :: "('e, 'h) hosts_ops \<Rightarrow> bus_env \<Rightarrow> i64 \<Rightarrow> slice \<Rightarrow> ('h bus, push_error option) go" where
  "PushToComet H env uid msg = go_bind (go_get (\<lambda>s. kv_get s uid)) (\<lambda>l. case l of
     None \<Rightarrow> go_ret (Some (UserNotFound uid))
   | Some hostlist \<Rightarrow> push_loop env msg (hl_vals H hostlist) None)"

text \<open>\<^verbatim>\<open>GetAll\<close>, the table of the status page: \<open>keys\<close> is the order in which the iteration visits
  the users of a block.\<close>

definition getall_user :: "('e, 'h) hosts_ops \<Rightarrow> (i64 \<rightharpoonup> 'h) \<Rightarrow> i64 \<Rightarrow> (string \<rightharpoonup> string list) \<Rightarrow> (string \<rightharpoonup> string list)" where
  "getall_user H m k usermap = (case m k of
     None \<Rightarrow> usermap
   | Some v \<Rightarrow> fold (\<lambda>h um. um(FormatInt k \<mapsto> (case um (FormatInt k) of Some l \<Rightarrow> l | None \<Rightarrow> []) @ [h]))
                (hl_vals H v) usermap)"

definition GetAll :: "('e, 'h) hosts_ops \<Rightarrow> (nat \<Rightarrow> i64 list) \<Rightarrow> 'h bus \<Rightarrow> string \<rightharpoonup> string list" where
  "GetAll H keys s =
     fold (\<lambda>b. fold (getall_user H (kv s ! b)) (keys b)) [0..<length (kv s)] Map.empty"

section \<open>The table as one map\<close>

lemma getBlockID_range: "0 \<le> sint (getBlockID uid) \<and> sint (getBlockID uid) < 128"
  using block_128 [of uid] by (simp add: getBlockID_def BlockSize_def)

interpretation ub: blocks bn 128
  using getBlockID_range by unfold_locales (simp add: nat_less_iff)

definition user_wf :: "'h bus \<Rightarrow> bool" where
  "user_wf s \<longleftrightarrow> blocks_wf bn 128 (kv s)"

definition hosts :: "('e, 'h) hosts_ops \<Rightarrow> 'h bus \<Rightarrow> i64 \<rightharpoonup> string list" where
  "hosts H s uid = map_option (hl_vals H) (kv_get s uid)"

definition host_list :: "('e, 'h) hosts_ops \<Rightarrow> 'h bus \<Rightarrow> i64 \<Rightarrow> string list" where
  "host_list H s uid = (case hosts H s uid of Some l \<Rightarrow> l | None \<Rightarrow> [])"

lemma user_wf_init: "kv s = InitUserMap \<Longrightarrow> user_wf s \<and> hosts H s = Map.empty"
  using ub.wf_init ub.get_init
  by (auto simp: user_wf_def InitUserMap_def BlockSize_def hosts_def kv_get_def)

lemma kv_get_set [simp]: "user_wf s \<Longrightarrow> kv_get (kv_set uid h s) = (kv_get s)(uid \<mapsto> h)"
  by (simp add: user_wf_def kv_get_def kv_set_def)

lemma user_wf_set [simp]: "user_wf s \<Longrightarrow> user_wf (kv_set uid h s)"
  by (simp add: user_wf_def kv_set_def)

lemma hosts_set [simp]: "user_wf s \<Longrightarrow> hosts H (kv_set uid h s) = (hosts H s)(uid \<mapsto> hl_vals H h)"
  by (simp add: hosts_def fun_eq_iff)

lemma user_wf_more [simp]: "user_wf (s\<lparr>events := es\<rparr>) = user_wf s" "hosts H (s\<lparr>events := es\<rparr>) = hosts H s"
  "kv_get (s\<lparr>events := es\<rparr>) = kv_get s"
  by (simp_all add: user_wf_def hosts_def kv_get_def fun_eq_iff)

text \<open>The laws of the list package at the type used here.\<close>

locale host_lists = hlist H for H :: "('e, string, 'h) hlist_ops"
begin

lemma vals_kv_or_new: "hl_vals H (kv_or_new H s uid) = host_list H s uid"
  by (simp add: kv_or_new_def host_list_def hosts_def split: option.split)

lemma hosts_Load1:
  "user_wf s \<Longrightarrow> hosts H (kv_set uid (snd (hl_PushFront H host (kv_or_new H s uid))) s)
     = (hosts H s)(uid \<mapsto> host # host_list H s uid)"
  by (simp add: vals_kv_or_new)

lemma Len_pos_iff: "(0 < hl_Len H h \<and> (\<exists>e \<in> set (hl_elems H h). hl_Value H e = x)) \<longleftrightarrow> x \<in> set (hl_vals H h)"
  by (auto simp: hl_vals_def)

lemma hosts_Online:
  assumes "user_wf s"
  shows "hosts H (Online H uid host s) =
    (hosts H s)(uid \<mapsto> (if host \<in> set (host_list H s uid) then host_list H s uid else host # host_list H s uid))"
  using assms unfolding Online_def Let_def Len_pos_iff vals_kv_or_new
  by (simp add: vals_kv_or_new)

lemma wf_Online: "user_wf s \<Longrightarrow> user_wf (Online H uid host s)"
  by (simp add: Online_def Let_def)

lemma wf_Offline: "user_wf s \<Longrightarrow> user_wf (Offline H uid host s)"
  by (simp add: Offline_def split: option.split)

lemma wf_OfflineHost: "user_wf s \<Longrightarrow> user_wf (OfflineHost H host s)"
  by (simp add: OfflineHost_def user_wf_def ub.wf_map)

lemma count_le_1_distinct: "distinct xs \<Longrightarrow> length (filter (\<lambda>h. h = x) xs) \<le> 1"
  by (induction xs) (auto simp: filter_empty_conv)

lemma vals_remove_host:
  "distinct (hl_vals H l) \<Longrightarrow>
   hl_vals H (fst (remove_loop H (\<lambda>h. h = host) (hl_elems H l) l 0)) = removeAll host (hl_vals H l)"
  using remove_loop_vals(1) [of "\<lambda>h. h = host" l] count_le_1_distinct [of "hl_vals H l" host]
  by (simp add: removeAll_filter_not_eq eq_commute)

lemma hosts_Offline:
  assumes "user_wf s" and "\<And>l. hosts H s uid = Some l \<Longrightarrow> distinct l"
  shows "hosts H (Offline H uid host s) = (hosts H s)(uid := map_option (removeAll host) (hosts H s uid))"
proof (cases "kv_get s uid")
  case None
  then have "hosts H s uid = None" by (simp add: hosts_def)
  then show ?thesis
    using None by (auto simp: Offline_def)
next
  case (Some l)
  with assms(2) have "distinct (hl_vals H l)" by (simp add: hosts_def)
  with Some assms(1) show ?thesis
    by (simp add: Offline_def vals_remove_host) (simp add: hosts_def)
qed

lemma hosts_OfflineHost:
  assumes "user_wf s" and "\<And>uid l. hosts H s uid = Some l \<Longrightarrow> distinct l"
  shows "hosts H (OfflineHost H host s) uid = map_option (removeAll host) (hosts H s uid)"
proof -
  let ?rm = "\<lambda>l. fst (remove_loop H (\<lambda>h. h = host) (hl_elems H l) l 0)"
  have "kv_get (OfflineHost H host s) uid = map_option ?rm (kv_get s uid)"
    using assms(1) ub.get_map [of "kv s" "\<lambda>_. ?rm" uid] by (simp add: user_wf_def kv_get_def OfflineHost_def)
  then show ?thesis
    using assms(2) [of uid] by (cases "kv_get s uid") (simp_all add: hosts_def vals_remove_host)
qed

lemma vals_GetUserComet: "GetUserComet H uid s = (case kv_get s uid of
    None \<Rightarrow> Inl (UserNotFound uid) | Some l \<Rightarrow> GetUserComet H uid s)
  \<and> (\<forall>l. GetUserComet H uid s = Inr l \<longrightarrow> hosts H s uid = Some (rev (hl_vals H l)))"
  by (auto simp: GetUserComet_def hosts_def vals_PushFront_fold split: option.splits)

end

section \<open>Presence\<close>

text \<open>
  What the rest of the bus needs of the table: where a user is online, and how the three
  notifications change it.  The client's lemma says what a sequence of notifications leaves.
\<close>

datatype notice = Up i64 string | Down i64 string | HostDown string

locale presence =
  fixes inv :: "'s \<Rightarrow> bool" and at :: "'s \<Rightarrow> i64 \<Rightarrow> string set" and apply_notice :: "notice \<Rightarrow> 's \<Rightarrow> 's"
  assumes inv_apply: "inv s \<Longrightarrow> inv (apply_notice ev s)"
    and at_Up: "inv s \<Longrightarrow> at (apply_notice (Up u h) s) v = (if v = u then insert h (at s v) else at s v)"
    and at_Down: "inv s \<Longrightarrow> at (apply_notice (Down u h) s) v = (if v = u then at s v - {h} else at s v)"
    and at_HostDown: "inv s \<Longrightarrow> at (apply_notice (HostDown h) s) v = at s v - {h}"
begin

lemma inv_run: "inv s \<Longrightarrow> inv (fold apply_notice evs s)"
  by (induction evs arbitrary: s) (simp_all add: inv_apply)

lemma at_run:
  assumes "inv s"
  shows "h \<in> at (fold apply_notice evs s) u \<longleftrightarrow>
    (\<exists>xs ys. evs = xs @ Up u h # ys \<and> Down u h \<notin> set ys \<and> HostDown h \<notin> set ys)
    \<or> h \<in> at s u \<and> Down u h \<notin> set evs \<and> HostDown h \<notin> set evs"
proof (induction evs rule: rev_induct)
  case Nil
  then show ?case by simp
next
  case (snoc ev evs)
  note I = inv_run [OF assms, of evs]
  have split: "(\<exists>xs ys. evs @ [ev] = xs @ Up u h # ys \<and> Down u h \<notin> set ys \<and> HostDown h \<notin> set ys) \<longleftrightarrow>
      ev = Up u h \<or> (ev \<noteq> Down u h \<and> ev \<noteq> HostDown h
        \<and> (\<exists>xs ys. evs = xs @ Up u h # ys \<and> Down u h \<notin> set ys \<and> HostDown h \<notin> set ys))"
    (is "?L \<longleftrightarrow> ?R")
  proof
    assume ?L
    then obtain xs ys where eq: "evs @ [ev] = xs @ Up u h # ys" "Down u h \<notin> set ys" "HostDown h \<notin> set ys"
      by blast
    then show ?R
      by (cases ys rule: rev_cases) (auto simp flip: append_assoc append_Cons)
  next
    assume ?R
    then show ?L
    proof
      assume "ev = Up u h"
      then show ?L by (intro exI [of _ evs] exI [of _ "[]"]) simp
    next
      assume *: "ev \<noteq> Down u h \<and> ev \<noteq> HostDown h
        \<and> (\<exists>xs ys. evs = xs @ Up u h # ys \<and> Down u h \<notin> set ys \<and> HostDown h \<notin> set ys)"
      then obtain xs ys where "evs = xs @ Up u h # ys" "Down u h \<notin> set ys" "HostDown h \<notin> set ys"
        by blast
      with * show ?L by (intro exI [of _ xs] exI [of _ "ys @ [ev]"]) auto
    qed
  qed
  show ?case
    unfolding split using snoc I
    by (cases ev) (auto simp: at_Up at_Down at_HostDown)
qed

end

definition users_inv :: "('e, 'h) hosts_ops \<Rightarrow> 'h bus \<Rightarrow> bool" where
  "users_inv H s \<longleftrightarrow> user_wf s \<and> (\<forall>uid l. hosts H s uid = Some l \<longrightarrow> distinct l)"

definition online_at :: "('e, 'h) hosts_ops \<Rightarrow> 'h bus \<Rightarrow> i64 \<Rightarrow> string set" where
  "online_at H s uid = set (host_list H s uid)"

fun apply_notice :: "('e, 'h) hosts_ops \<Rightarrow> notice \<Rightarrow> 'h bus \<Rightarrow> 'h bus" where
  "apply_notice H (Up u h) s = Online H u h s"
| "apply_notice H (Down u h) s = Offline H u h s"
| "apply_notice H (HostDown h) s = OfflineHost H h s"

lemma users_inv_init: "kv s = InitUserMap \<Longrightarrow> users_inv H s"
  using user_wf_init [of s H] by (simp add: users_inv_def)

sublocale host_lists \<subseteq> users: presence "users_inv H" "online_at H" "apply_notice H"
proof
  fix s ev
  assume "users_inv H s"
  then show "users_inv H (apply_notice H ev s)"
    by (cases ev)
       (auto simp: users_inv_def wf_Online wf_Offline wf_OfflineHost hosts_Online hosts_Offline hosts_OfflineHost
          host_list_def distinct_removeAll split: if_splits option.splits)
next
  fix s u h v
  assume "users_inv H s"
  then show "online_at H (apply_notice H (Up u h) s) v = (if v = u then insert h (online_at H s v) else online_at H s v)"
    and "online_at H (apply_notice H (Down u h) s) v = (if v = u then online_at H s v - {h} else online_at H s v)"
    and "online_at H (apply_notice H (HostDown h) s) v = online_at H s v - {h}"
    by (cases "hosts H s v";
        auto simp: users_inv_def online_at_def host_list_def hosts_Online hosts_Offline hosts_OfflineHost)+
qed

context host_lists
begin

lemmas presence_run = users.at_run
lemmas presence_inv = users.inv_run
lemmas presence_users = users.presence_axioms

end

interpretation plain_users: host_lists "plain_hlist r"
  by unfold_locales

section \<open>Pushing to a user\<close>

text \<open>Every host of the list is registered and every write succeeds.\<close>

definition deliverable :: "bus_env \<Rightarrow> 'h bus \<Rightarrow> string list \<Rightarrow> bool" where
  "deliverable env s hs \<longleftrightarrow> set hs \<subseteq> dom (Servers s) \<and> (\<forall>tr c bs. tcp_ok env tr c bs)"

definition host_conn :: "'h bus \<Rightarrow> string \<Rightarrow> conn_id" where
  "host_conn s h = cs_conn (the (Servers s h))"

definition delivery :: "'h bus \<Rightarrow> byte list \<Rightarrow> string \<Rightarrow> bus_event list" where
  "delivery s bs h = [TcpWrite (host_conn s h) (le_bytes 4 (of_nat (length bs) :: u32)), TcpWrite (host_conn s h) bs]"

definition log_safe :: "bus_env \<Rightarrow> slice \<Rightarrow> bool" where
  "log_safe env msg \<longleftrightarrow> glogV env 3 \<or> \<not> glogV env 2 \<or> 3 \<le> length (arr msg)"

lemma Comets_PushMsg_ok:
  assumes "deliverable env s (h # hs)"
  shows "Comets_PushMsg env bs h s = (Ret None, s\<lparr>events := events s @ delivery s bs h\<rparr>)"
  using assms
  by (auto simp: Comets_PushMsg_eq CometServer_Push_eq push_events_def deliverable_def delivery_def host_conn_def Let_def)

lemma deliverable_events [simp]: "deliverable env (s\<lparr>events := es\<rparr>) hs = deliverable env s hs"
  "host_conn (s\<lparr>events := es\<rparr>) = host_conn s" "delivery (s\<lparr>events := es\<rparr>) = delivery s"
  by (simp_all add: deliverable_def host_conn_def delivery_def fun_eq_iff)

lemma push_loop_ok:
  assumes "deliverable env s hs" and "log_safe env msg"
  shows "push_loop env msg hs err s =
    (Ret (if hs = [] then err else None),
     s\<lparr>events := events s @ concat (map (\<lambda>h. delivery s (sl_bytes msg) h @ [StatInc DownStreamOut]) hs)\<rparr>)"
  using assms(1)
proof (induction hs arbitrary: s err)
  case Nil
  then show ?case by (simp add: go_monad)
next
  case (Cons h hs)
  let ?s = "s\<lparr>events := events s @ delivery s (sl_bytes msg) h @ [StatInc DownStreamOut]\<rparr>"
  have "push_loop env msg (h # hs) err s = push_loop env msg hs None ?s"
    using Comets_PushMsg_ok [OF Cons.prems] assms(2)
    by (auto simp: go_monad comet_defs log_safe_def sl_range_def)
  moreover have "deliverable env ?s hs"
    using Cons.prems by (simp add: deliverable_def)
  ultimately show ?case
    using Cons.IH [of ?s None] by simp
qed

lemma written_delivery:
  "written c (concat (map (\<lambda>h. delivery s bs h @ [StatInc DownStreamOut]) hs))
     = concat (map (\<lambda>h. if host_conn s h = c then framed bs else []) hs)"
  by (induction hs) (simp_all add: delivery_def framed_def)

section \<open>The status page\<close>

abbreviation opt_list :: "'a list option \<Rightarrow> 'a list" where
  "opt_list x \<equiv> case x of Some l \<Rightarrow> l | None \<Rightarrow> []"

lemma fold_append_entry:
  "fold (\<lambda>h um. um(k \<mapsto> opt_list (um k) @ [h])) hs um
     = (if hs = [] then um else um(k \<mapsto> opt_list (um k) @ hs))"
  by (induction hs arbitrary: um) (auto simp: fun_eq_iff)

lemma getall_user_at:
  "getall_user H m k um (FormatInt uid) =
     (if k = uid \<and> opt_list (map_option (hl_vals H) (m k)) \<noteq> []
      then Some (opt_list (um (FormatInt uid)) @ opt_list (map_option (hl_vals H) (m k)))
      else um (FormatInt uid))"
  by (auto simp: getall_user_def fold_append_entry split: option.split)

lemma fold_getall_at:
  assumes "distinct ks"
  shows "fold (getall_user H m) ks um (FormatInt uid) =
    (if uid \<in> set ks \<and> opt_list (map_option (hl_vals H) (m uid)) \<noteq> []
     then Some (opt_list (um (FormatInt uid)) @ opt_list (map_option (hl_vals H) (m uid)))
     else um (FormatInt uid))"
  using assms by (induction ks arbitrary: um) (auto simp: getall_user_at)

lemma fold_blocks_at:
  assumes "\<And>b. b < n \<Longrightarrow> distinct (keys b) \<and> (uid \<in> set (keys b) \<longleftrightarrow> b = c)"
  shows "fold (\<lambda>b. fold (getall_user H (t ! b)) (keys b)) [0..<n] Map.empty (FormatInt uid) =
    (if c < n \<and> opt_list (map_option (hl_vals H) ((t ! c) uid)) \<noteq> []
     then Some (opt_list (map_option (hl_vals H) ((t ! c) uid))) else None)"
  using assms
proof (induction n)
  case 0
  then show ?case by simp
next
  case (Suc n)
  then show ?case
    by (cases "c = n") (auto simp: fold_getall_at)
qed

section \<open>Properties\<close>

text \<open>The block number of every user id, also of the smallest 64-bit integer, is a valid index of
  the table of 128 blocks.\<close>

theorem getBlockID_in_range:
  "0 \<le> sint (getBlockID uid) \<and> sint (getBlockID uid) < int (length InitUserMap)"
  using getBlockID_range [of uid] by (simp add: InitUserMap_def BlockSize_def)

text \<open>C10: After any sequence of online, offline and host-offline notifications, a user is listed at a
  host exactly when the last notification about the two said so: there is an online notification
  with no later offline notification of that user at that host and none of the whole host, or the
  user was there before and nothing took it away.\<close>

theorem presence_history:
  assumes "hlist H" and "users_inv H s"
  shows "host \<in> online_at H (fold (apply_notice H) evs s) uid \<longleftrightarrow>
    (\<exists>xs ys. evs = xs @ Up uid host # ys \<and> Down uid host \<notin> set ys \<and> HostDown host \<notin> set ys)
    \<or> host \<in> online_at H s uid \<and> Down uid host \<notin> set evs \<and> HostDown host \<notin> set evs"
  by (rule host_lists.presence_run [OF host_lists.intro [OF assms(1)] assms(2)])

definition empty_bus :: "'h bus" where
  "empty_bus = comets.extend NewComets \<lparr>kv = InitUserMap\<rparr>"

lemma users_inv_empty [simp]: "users_inv H empty_bus"
  by (rule users_inv_init) (simp add: empty_bus_def comets.defs)

theorem presence_history_witness:
  "''b'' \<in> online_at (plain_hlist True) (fold (apply_notice (plain_hlist True))
     [Up 17 ''a'', Up 17 ''b'', Down 17 ''a'', HostDown ''c''] empty_bus) 17"
  by (subst presence_history [OF plain.hlist_axioms users_inv_empty])
     (rule disjI1, rule exI [of _ "[Up 17 ''a'']"], rule exI [of _ "[Down 17 ''a'', HostDown ''c'']"], simp)

text \<open>Pushing a message to a known user whose hosts are all connected writes its frame once per host
  to the connection of that host, and nothing anywhere else, and returns no error; an unknown user
  gives an error and no write.  A known user with no host left gives no error either, although
  nothing is sent.\<close>

theorem PushToComet_spec:
  assumes "hlist H" and "deliverable env s (host_list H s uid)" and "log_safe env msg"
  shows "PushToComet H env uid msg s = (case hosts H s uid of
      None \<Rightarrow> (Ret (Some (UserNotFound uid)), s)
    | Some hs \<Rightarrow> (Ret None, s\<lparr>events := events s @ concat (map (\<lambda>h. delivery s (sl_bytes msg) h @ [StatInc DownStreamOut]) hs)\<rparr>))
    \<and> written c (concat (map (\<lambda>h. delivery s (sl_bytes msg) h @ [StatInc DownStreamOut]) (host_list H s uid)))
      = concat (replicate (length (filter (\<lambda>h. host_conn s h = c) (host_list H s uid))) (framed (sl_bytes msg)))"
proof -
  have "concat (map (\<lambda>h. if host_conn s h = c then x else []) hs)
      = concat (replicate (length (filter (\<lambda>h. host_conn s h = c) hs)) x)" for hs and x :: "byte list"
    by (induction hs) simp_all
  then have "written c (concat (map (\<lambda>h. delivery s (sl_bytes msg) h @ [StatInc DownStreamOut]) (host_list H s uid)))
      = concat (replicate (length (filter (\<lambda>h. host_conn s h = c) (host_list H s uid))) (framed (sl_bytes msg)))"
    by (simp add: written_delivery)
  then show ?thesis
    using assms(2) push_loop_ok [OF _ assms(3), of s]
    by (auto simp: PushToComet_def hosts_def host_list_def go_monad split: option.splits)
qed

definition sample_bus :: "(nat \<times> string) list bus" where
  "sample_bus = Online (plain_hlist True) 17 ''a'' (snd (AddServer ''a'' 5 CometWs empty_bus))"

lemma sample_bus_Servers: "Servers sample_bus = [''a'' \<mapsto> \<lparr>cs_kv = {}, cs_conn = 5, cometType = CometWs\<rparr>]"
  by (simp add: sample_bus_def AddServer_def comet_defs go_monad Online_def kv_set_def empty_bus_def
      NewComets_def comets.defs Let_def)

lemma sample_bus_hosts: "hosts (plain_hlist True) sample_bus 17 = Some [''a'']"
  using plain_users.hosts_Online [of "snd (AddServer ''a'' 5 CometWs empty_bus)" True 17 "''a''"]
    user_wf_init [of "snd (AddServer ''a'' 5 CometWs empty_bus)" "plain_hlist True"]
  by (simp add: sample_bus_def host_list_def AddServer_def comet_defs go_monad empty_bus_def comets.defs)

theorem PushToComet_spec_witness:
  "PushToComet (plain_hlist True) sample_env 17 (mk_slice [1, 0, 7] []) sample_bus =
     (Ret None, sample_bus\<lparr>events := events sample_bus @ delivery sample_bus [1, 0, 7] ''a'' @ [StatInc DownStreamOut]\<rparr>)
   \<and> written 5 (delivery sample_bus [1, 0, 7] ''a'') = framed [1, 0, 7]"
  using PushToComet_spec [OF plain.hlist_axioms, of sample_env sample_bus True 17 "mk_slice [1, 0, 7] []" 5]
  by (simp add: sample_bus_hosts sample_bus_Servers host_list_def deliverable_def log_safe_def sample_env_def
      host_conn_def)

text \<open>Loading the stored list of a host's users after one of them was announced online lists the
  host twice for that user, so that every message for the user is then written twice to it.\<close>

theorem Load_duplicates:
  assumes "hlist H" and "user_wf s"
  shows "host_list H (Load H [FormatInt uid] host (Online H uid host s)) uid
      = host # host_list H (Online H uid host s) uid
    \<and> host \<in> set (host_list H (Online H uid host s) uid)"
  using assms host_lists.hosts_Load1 [OF host_lists.intro [OF assms(1)], of "Online H uid host s" uid host]
    host_lists.wf_Online [OF host_lists.intro [OF assms(1)] assms(2)]
    host_lists.hosts_Online [OF host_lists.intro [OF assms(1)] assms(2), of uid host]
  by (simp add: host_list_def)

theorem Load_duplicates_witness:
  "host_list (plain_hlist True) (Load (plain_hlist True) [FormatInt 17] ''a'' (Online (plain_hlist True) 17 ''a'' empty_bus)) 17
      = ''a'' # host_list (plain_hlist True) (Online (plain_hlist True) 17 ''a'' empty_bus) 17
    \<and> ''a'' \<in> set (host_list (plain_hlist True) (Online (plain_hlist True) 17 ''a'' empty_bus) 17)"
  by (rule Load_duplicates [OF plain.hlist_axioms]) (use users_inv_empty [of "plain_hlist True"] in \<open>simp add: users_inv_def\<close>)

text \<open>The status page shows, under the decimal form of every user id, exactly the hosts of that user,
  and no entry for a user without hosts, in whatever order the blocks are iterated.\<close>

theorem GetAll_spec:
  assumes "user_wf s" and "\<And>b. b < 128 \<Longrightarrow> distinct (keys b) \<and> set (keys b) = dom (kv s ! b)"
  shows "GetAll H keys s (FormatInt uid) = (if host_list H s uid = [] then None else Some (host_list H s uid))"
proof (cases "uid \<in> dom (kv_get s)")
  case True
  have "b = bn uid" if "b < 128" "uid \<in> set (keys b)" for b
    using that assms by (auto simp: user_wf_def blocks_wf_def)
  moreover have "uid \<in> set (keys (bn uid))"
    using True assms(2) [of "bn uid"] by (auto simp: kv_get_def block_get_def)
  ultimately have "\<And>b. b < 128 \<Longrightarrow> distinct (keys b) \<and> (uid \<in> set (keys b) \<longleftrightarrow> b = bn uid)"
    using assms(2) by blast
  from fold_blocks_at [where n = 128 and t = "kv s" and H = H, OF this] show ?thesis
    using assms(1) ub.bid_less [of uid]
    by (simp add: GetAll_def user_wf_def blocks_wf_def host_list_def hosts_def kv_get_def block_get_def)
next
  case False
  have "uid \<notin> set (keys b)" if "b < 128" for b
    using that False assms ub.in_block_iff [of "kv s" uid]
    by (fastforce simp: user_wf_def kv_get_def blocks_wf_def)
  then have "\<And>b. b < 128 \<Longrightarrow> distinct (keys b) \<and> (uid \<in> set (keys b) \<longleftrightarrow> b = 128)"
    using assms(2) by auto
  from fold_blocks_at [where n = 128 and t = "kv s" and H = H, OF this] show ?thesis
    using assms(1) False
    by (auto simp: GetAll_def user_wf_def blocks_wf_def host_list_def hosts_def dom_def)
qed

theorem GetAll_spec_witness:
  "GetAll (plain_hlist True) (\<lambda>b. if b = 17 then [17] else []) (Online (plain_hlist True) 17 ''a'' empty_bus) (FormatInt 17)
     = Some [''a'']"
proof -
  let ?s = "Online (plain_hlist True) 17 ''a'' empty_bus"
  have wf: "user_wf ?s" "user_wf (empty_bus :: (nat \<times> string) list bus)" "hosts (plain_hlist True) empty_bus = Map.empty"
    using users_inv_empty [of "plain_hlist True"] plain_users.wf_Online [of empty_bus True 17 "''a''"] user_wf_init [of empty_bus "plain_hlist True"]
    by (simp_all add: users_inv_def empty_bus_def comets.defs)
  have bn: "bn 17 = 17" by (simp add: getBlockID_def BlockSize_def go_pos_def go_rem_def)
  have "set (if b = 17 then [17] else []) = dom (kv ?s ! b)" if "b < 128" for b
    using that bn
    by (simp add: Online_def Let_def plain_hlist_def kv_or_new_def kv_get_def kv_set_def block_get_def block_set_def
        empty_bus_def comets.defs InitUserMap_def BlockSize_def nth_list_update)
  then show ?thesis
    using GetAll_spec [OF wf(1), of "\<lambda>b. if b = 17 then [17] else []" "plain_hlist True" 17] plain_users.hosts_Online [OF wf(2), of True 17 "''a''"] wf(3)
    by (simp add: host_list_def)
qed

end
