(* ===== verification/BusHandler.thy ===== *)
theory BusHandler
  imports UserMap Frames
begin

text \<open>
  The message bus's handlers (\<^verbatim>\<open>msgbus/handler.go\<close>, \<^verbatim>\<open>msgbus/main.go\<close>, the loading part of
  \<^verbatim>\<open>msgbus/redis.go\<close>): \<open>MainHandle\<close> routes one frame received from a comet, \<open>handleOnlineEvent\<close>
  applies the notifications received from redis to the user table, \<open>LoadUsers\<close> fills it at the start.

  \<open>MainHandle\<close> works on the receive buffer of the connection, so the frame is a slice with a capacity.
  \<open>H\<close> and \<open>J\<close> are the list package at the types of the host lists and of the lists of ids.
  The order in which Go iterates over the map of comets is chosen by the environment.
\<close>

section \<open>Routing\<close>

text \<open>The fields of a frame: the sender, the rest, the number of ids, the ids, the message.\<close>

definition parse_bus :: "slice \<Rightarrow> (i64 \<times> slice \<times> u16 \<times> slice \<times> slice) option" where
  "parse_bus srcMsg = do {
     s \<leftarrow> sl_range srcMsg 0 8;
     srcId \<leftarrow> Uint64 (sl_bytes s);
     msg \<leftarrow> sl_from srcMsg 8;
     s \<leftarrow> sl_range msg 0 2;
     idsSize \<leftarrow> Uint16 (sl_bytes s);
     toIds \<leftarrow> sl_range msg 2 (unat (2 + idsSize * 8));
     data \<leftarrow> sl_from msg (unat (2 + idsSize * 8));
     Some (srcId, msg, idsSize, toIds, data)
   }"

text \<open>The log line at verbosity 2 reads all ids and slices the first three bytes.\<close>

fun read_ids :: "slice \<Rightarrow> nat list \<Rightarrow> i64 list option" where
  "read_ids s [] = Some []"
| "read_ids s (i # is) = (case get_id16 s i of
     None \<Rightarrow> None
   | Some x \<Rightarrow> map_option (Cons x) (read_ids s is))"

definition log_in :: "bus_env \<Rightarrow> slice \<Rightarrow> slice \<Rightarrow> u16 \<Rightarrow> unit option" where
  "log_in env msg toIds idsSize =
     (if glogV env 2 then do {
        ids \<leftarrow> read_ids toIds [0..<unat idsSize];
        s \<leftarrow> sl_range msg 0 3;
        Some ()
      } else Some ())"

text \<open>A message from a board that is not to be forwarded: it is put into the queue of the application
  servers and acknowledged to the sender.\<close>

definition ack_frame :: "i64 \<Rightarrow> byte list \<Rightarrow> byte list option" where
  "ack_frame dst ackMsg = do {
     let pushBuf = replicate (2 + 8 + length ackMsg) 0;
     pushBuf \<leftarrow> Put 2 pushBuf 0 (1 :: u16);
     pushBuf \<leftarrow> Put 8 pushBuf 2 dst;
     copy_at pushBuf (2 + 8) ackMsg
   }"

definition handle_board :: "('e, 'h) hosts_ops \<Rightarrow> bus_env \<Rightarrow> slice \<Rightarrow> ('h bus, unit) go" where
  "handle_board H env data =
     go_bind (go_lift (GetMsgId data)) (\<lambda>msgId.
     go_seq (emit (RmqPush (sl_bytes data) msgId)) (
     go_bind (go_lift (ForwardSrcId data)) (\<lambda>dst.
     go_bind (go_lift (Option.bind (NewAckMsg (sl_bytes data)) (ack_frame dst))) (\<lambda>pushBuf.
     go_bind (PushToComet H env dst (mk_slice pushBuf [])) (\<lambda>err.
     if err \<noteq> None then emit (StatInc DownStreamOutBad) else go_ret ())))))"

text \<open>One destination: the frame is passed on as it is.\<close>

definition handle_one :: "('e, 'h) hosts_ops \<Rightarrow> bus_env \<Rightarrow> slice \<Rightarrow> slice \<Rightarrow> ('h bus, unit) go" where
  "handle_one H env msg toIds =
     go_bind (go_lift (Uint64 (sl_bytes toIds))) (\<lambda>uid.
     go_bind
       (if go_pos uid then PushToComet H env uid msg
        else if go_neg uid then
          go_bind (PushUdpMsg env (sl_bytes msg)) (\<lambda>err.
            go_seq
              (if err = None \<and> \<not> glogV env 3 \<and> glogV env 2
               then go_bind (go_lift (sl_range msg 0 3)) (\<lambda>_. go_ret ()) else go_ret ())
              (go_ret err))
        else go_ret None) (\<lambda>err.
     if err \<noteq> None then emit (StatInc DownStreamOutBad) else go_ret ()))"

text \<open>Several destinations: the ids are sorted by the comet hosts of their users, with one list for all
  boards; \<open>(ws, udp)\<close> are \<^verbatim>\<open>wsCometToIds\<close> and \<^verbatim>\<open>udpIds\<close>.\<close>

fun add_id :: "('f, i64, 'j) hlist_ops \<Rightarrow> i64 \<Rightarrow> string \<Rightarrow> (string \<times> 'j) list \<Rightarrow> (string \<times> 'j) list" where
  "add_id J uid host [] = [(host, snd (hl_PushFront J uid (hl_New J)))]"
| "add_id J uid host ((k, l) # ws) =
     (if k = host then (k, snd (hl_PushFront J uid l)) # ws else (k, l) # add_id J uid host ws)"

definition group_step ::
  "('e, 'h) hosts_ops \<Rightarrow> ('f, i64, 'j) hlist_ops \<Rightarrow> 'h bus \<Rightarrow> i64 \<Rightarrow>
   (string \<times> 'j) list \<times> 'j option \<Rightarrow> (string \<times> 'j) list \<times> 'j option" where
  "group_step H J s uid g = (case g of (ws, udp) \<Rightarrow>
     if go_pos uid then
       (case GetUserComet H uid s of
          Inl _ \<Rightarrow> (ws, udp)
        | Inr cometHosts \<Rightarrow> (fold (add_id J uid) (hl_vals H cometHosts) ws, udp))
     else if go_neg uid then
       (ws, Some (snd (hl_PushFront J uid (case udp of None \<Rightarrow> hl_New J | Some l \<Rightarrow> l))))
     else (ws, udp))"

fun group_ids ::
  "('e, 'h) hosts_ops \<Rightarrow> ('f, i64, 'j) hlist_ops \<Rightarrow> 'h bus \<Rightarrow> slice \<Rightarrow> nat list \<Rightarrow>
   (string \<times> 'j) list \<times> 'j option \<Rightarrow> ((string \<times> 'j) list \<times> 'j option) option" where
  "group_ids H J s toIds [] g = Some g"
| "group_ids H J s toIds (i # is) g = (case get_id16 toIds i of
     None \<Rightarrow> None
   | Some uid \<Rightarrow> group_ids H J s toIds is (group_step H J s uid g))"

definition ws_frame :: "i64 list \<Rightarrow> byte list \<Rightarrow> byte list option" where
  "ws_frame ids data = do {
     let vSize = (of_nat (length ids) :: u16);
     let pushData = replicate (unat (2 + vSize * 8 + of_nat (length data) :: u16)) 0;
     pushData \<leftarrow> Put 2 pushData 0 vSize;
     pushData \<leftarrow> put_ids pushData 2 ids;
     copy_at pushData (unat (2 + vSize * 8)) data
   }"

text \<open>The frame for the UDP comets: the code computes the room for the ids but never writes them.\<close>

definition udp_frame :: "nat \<Rightarrow> byte list \<Rightarrow> byte list option" where
  "udp_frame n data = do {
     let vSize = (of_nat n :: u16);
     let pushData = replicate (unat (2 + vSize * 8 + of_nat (length data) :: u16)) 0;
     pushData \<leftarrow> Put 2 pushData 0 vSize;
     copy_at pushData (unat (2 + vSize * 8)) data
   }"

definition log_out :: "bus_env \<Rightarrow> byte list \<Rightarrow> ('s, unit) go" where
  "log_out env pushData =
     (if glogV env 3 then go_ret () else go_bind (go_lift (sl_range (mk_slice pushData []) 0 3)) (\<lambda>_. go_ret ()))"

definition push_ws :: "('f, i64, 'j) hlist_ops \<Rightarrow> bus_env \<Rightarrow> byte list \<Rightarrow> (string \<rightharpoonup> 'j) \<Rightarrow> string \<Rightarrow> ('h bus, unit) go" where
  "push_ws J env data ws k = (case ws k of
     None \<Rightarrow> go_ret ()
   | Some v \<Rightarrow>
       go_bind (go_lift (ws_frame (hl_vals J v) data)) (\<lambda>pushData.
       go_bind (Comets_PushMsg env pushData k) (\<lambda>err.
       if err \<noteq> None then go_ret () else log_out env pushData)))"

definition push_udp :: "('f, i64, 'j) hlist_ops \<Rightarrow> bus_env \<Rightarrow> byte list \<Rightarrow> 'j option \<Rightarrow> ('h bus, unit) go" where
  "push_udp J env data udpIds = (case udpIds of
     None \<Rightarrow> go_ret ()
   | Some l \<Rightarrow>
       go_bind (go_lift (udp_frame (hl_Len J l) data)) (\<lambda>pushData.
       go_bind (PushUdpMsg env pushData) (\<lambda>err.
       if err \<noteq> None then go_ret () else log_out env pushData)))"

definition handle_many ::
  "('e, 'h) hosts_ops \<Rightarrow> ('f, i64, 'j) hlist_ops \<Rightarrow> bus_env \<Rightarrow> u16 \<Rightarrow> slice \<Rightarrow> byte list \<Rightarrow> ('h bus, unit) go" where
  "handle_many H J env idsSize toIds data =
     go_bind (go_get id) (\<lambda>s.
     go_bind (go_lift (group_ids H J s toIds [0..<unat idsSize] ([], None))) (\<lambda>(ws, udpIds).
     go_seq (go_each (push_ws J env data (map_of ws)) (map_order env (events s) (map fst ws)))
       (push_udp J env data udpIds)))"

definition MainHandle ::
  "('e, 'h) hosts_ops \<Rightarrow> ('f, i64, 'j) hlist_ops \<Rightarrow> bus_env \<Rightarrow> slice \<Rightarrow> ('h bus, unit) go" where
  "MainHandle H J env srcMsg =
     go_seq (emit (StatInc UpStreamIn)) (
     go_bind (go_lift (parse_bus srcMsg)) (\<lambda>(srcId, msg, idsSize, toIds, data).
     go_seq (go_lift (log_in env msg toIds idsSize)) (
     go_bind (if go_neg srcId then go_lift (IsForwardType data) else go_ret True) (\<lambda>shouldForward.
     if \<not> shouldForward then handle_board H env data
     else if idsSize = 1 then handle_one H env msg toIds
     else handle_many H J env idsSize toIds (sl_bytes data)))))"

definition HandleClose :: "string \<Rightarrow> ('h bus, unit) go" where
  "HandleClose host = RemoveServer (hostName host)"

section \<open>User state\<close>

text \<open>One notification \<^verbatim>\<open>uid|host|flag\<close>; a missing field is an index out of range.\<close>

definition onlineEvent :: "('e, 'h) hosts_ops \<Rightarrow> string \<Rightarrow> ('h bus, unit) go" where
  "onlineEvent H user_ori = (case split_on (CHR ''|'') user_ori of
     f0 # host # isOnline # _ \<Rightarrow>
       (let uid = fst (ParseInt f0)
        in if isOnline = ''1'' then go_upd (Online H uid host)
           else if uid = 0 then go_upd (OfflineHost H host)
           else go_upd (Offline H uid host))
   | _ \<Rightarrow> go_lift None)"

definition handleOnlineEvent :: "('e, 'h) hosts_ops \<Rightarrow> string list \<Rightarrow> ('h bus, unit) go" where
  "handleOnlineEvent H = go_each (onlineEvent H)"

text \<open>The start: \<open>keys\<close> and \<open>hkeys\<close> are the replies of redis to \<^verbatim>\<open>KEYS Host:*\<close> and to
  \<^verbatim>\<open>HKEYS host\<close>, \<^term>\<open>None\<close> an error.\<close>

fun GetAllUsers :: "('e, 'h) hosts_ops \<Rightarrow> (string \<Rightarrow> string list option) \<Rightarrow> string list \<Rightarrow> 'h bus \<Rightarrow> 'h bus" where
  "GetAllUsers H hkeys [] s = s"
| "GetAllUsers H hkeys (host # hs) s = (case hkeys host of
     None \<Rightarrow> GetAllUsers H hkeys hs s
   | Some users \<Rightarrow> GetAllUsers H hkeys hs (Load H users (hostName host) s))"

definition LoadUsers :: "('e, 'h) hosts_ops \<Rightarrow> string list option \<Rightarrow> (string \<Rightarrow> string list option) \<Rightarrow> 'h bus \<Rightarrow> bool \<times> 'h bus" where
  "LoadUsers H keys hkeys s = (case keys of
     None \<Rightarrow> (False, s)
   | Some hs \<Rightarrow> (True, GetAllUsers H hkeys hs s))"

section \<open>Frames\<close>

lemma parse_bus_frame:
  assumes "frame_fits ids data"
  shows "parse_bus (mk_slice (bus_frame src ids data) stale) =
    Some (src, mk_slice (id_frame ids data) stale, of_nat (length ids),
      mk_slice (ids_bytes ids) (data @ stale), mk_slice data stale)"
proof -
  have "unat (2 + of_nat (length ids) * 8 :: u16) = 2 + 8 * length ids"
    using unat_u16_exact [of 2 "length ids" 0] assms by (simp add: frame_fits_def)
  then show ?thesis
    by (simp add: parse_bus_def bus_frame_def id_frame_def)
qed

lemma read_ids_exact:
  "8 * length ids < 2 ^ 16 \<Longrightarrow> \<forall>i \<in> set is. i < length ids \<Longrightarrow>
   read_ids (mk_slice (ids_bytes ids) stale) is = Some (map ((!) ids) is)"
  by (induction "is") (simp_all add: get_id16_exact')

lemma log_in_ok:
  assumes "frame_fits ids data" and "data \<noteq> []"
  shows "log_in env (mk_slice (id_frame ids data) stale) (mk_slice (ids_bytes ids) stale') (of_nat (length ids)) = Some ()"
proof -
  have "8 * length ids < 2 ^ 16" "unat (of_nat (length ids) :: u16) = length ids"
    using assms(1) by (simp_all add: frame_fits_def)
  moreover have "3 \<le> length (id_frame ids data)"
    using assms(2) by (cases data) simp_all
  ultimately show ?thesis
    by (simp add: log_in_def read_ids_exact)
qed

lemma replicate_split: "m + n = k \<Longrightarrow> replicate k x = replicate m x @ replicate n x"
  by (simp add: replicate_add flip: replicate_add)

lemma ws_frame_exact:
  assumes "frame_fits ids data"
  shows "ws_frame ids data = Some (id_frame ids data)"
proof -
  let ?n = "2 + 8 * length ids + length data"
  have sizes: "unat (2 + of_nat (length ids) * 8 + of_nat (length data) :: u16) = ?n"
    "unat (2 + of_nat (length ids) * 8 :: u16) = 2 + 8 * length ids"
    using unat_u16_exact [of 2 "length ids" "length data"] unat_u16_exact [of 2 "length ids" 0] assms
    by (simp_all add: frame_fits_def)
  have "Put 2 (replicate ?n 0) 0 (of_nat (length ids) :: u16)
      = Some (le_bytes 2 (of_nat (length ids) :: u16) @ replicate (8 * length ids + length data) 0)"
    by (simp add: Put_def overwrite_def)
  moreover have "put_ids (le_bytes 2 (of_nat (length ids) :: u16) @ replicate (8 * length ids + length data) 0) 2 ids
      = Some (le_bytes 2 (of_nat (length ids) :: u16) @ ids_bytes ids @ replicate (length data) 0)"
    by (subst put_ids_exact) simp_all
  ultimately show ?thesis
    by (simp add: ws_frame_def sizes copy_at_def overwrite_def id_frame_def Let_def)
qed

lemma ids_bytes_zeros: "ids_bytes (replicate n 0) = replicate (8 * n) 0"
proof (induction n)
  case (Suc n)
  have "le_bytes 8 (0 :: i64) = replicate 8 0"
    by (simp add: eval_nat_numeral)
  then show ?case
    using Suc by (simp add: replicate_add flip: replicate_add)
qed simp

lemma udp_frame_zeros:
  assumes "10 + 8 * n + length data < 2 ^ 16"
  shows "udp_frame n data = Some (id_frame (replicate n 0) data)"
proof -
  let ?n = "2 + 8 * n + length data"
  have sizes: "unat (2 + of_nat n * 8 + of_nat (length data) :: u16) = ?n"
    "unat (2 + of_nat n * 8 :: u16) = 2 + 8 * n"
    using unat_u16_exact [of 2 n "length data"] unat_u16_exact [of 2 n 0] assms by simp_all
  have "Put 2 (replicate ?n 0) 0 (of_nat n :: u16)
      = Some (le_bytes 2 (of_nat n :: u16) @ replicate (8 * n) 0 @ replicate (length data) 0)"
    by (simp add: Put_def overwrite_def replicate_add)
  then show ?thesis
    by (simp add: udp_frame_def sizes copy_at_def overwrite_def id_frame_def Let_def ids_bytes_zeros)
qed

lemma log_out_ok: "3 \<le> length bs \<Longrightarrow> log_out env bs = go_ret ()"
  by (rule ext) (simp add: log_out_def go_monad)

section \<open>Grouping by comet\<close>

text \<open>The ids of a request that belong to the users online at a host.\<close>

definition ids_for :: "('e, 'h) hosts_ops \<Rightarrow> 'h bus \<Rightarrow> string \<Rightarrow> i64 list \<Rightarrow> i64 list" where
  "ids_for H s k ids = filter (\<lambda>uid. go_pos uid \<and> k \<in> online_at H s uid) ids"

lemma ids_for_snoc:
  "ids_for H s k (ids @ [uid]) = (if go_pos uid \<and> k \<in> online_at H s uid then ids_for H s k ids @ [uid] else ids_for H s k ids)"
  by (simp add: ids_for_def)

locale id_lists = hlist J for J :: "('f, i64, 'j) hlist_ops"
begin

lemma map_of_add_id:
  "map_of (add_id J uid host ws) = (map_of ws)(host \<mapsto> snd (hl_PushFront J uid (case map_of ws host of None \<Rightarrow> hl_New J | Some l \<Rightarrow> l)))"
  by (induction ws) (auto simp: fun_eq_iff)

lemma keys_add_id: "fst ` set (add_id J uid host ws) = insert host (fst ` set ws)"
proof (induction ws)
  case (Cons kl ws)
  then show ?case by (cases kl) (simp add: insert_commute)
qed simp

lemma distinct_add_id: "distinct (map fst ws) \<Longrightarrow> distinct (map fst (add_id J uid host ws))"
proof (induction ws)
  case (Cons kl ws)
  then show ?case
    using keys_add_id [of uid host ws] by (cases kl) (auto simp: image_iff)
qed simp

lemma fold_add_id:
  assumes "distinct hs" and "distinct (map fst ws)"
  shows "distinct (map fst (fold (add_id J uid) hs ws))
    \<and> map_of (fold (add_id J uid) hs ws) k =
      (if k \<in> set hs then Some (snd (hl_PushFront J uid (case map_of ws k of None \<Rightarrow> hl_New J | Some l \<Rightarrow> l)))
       else map_of ws k)"
  using assms by (induction hs arbitrary: ws) (auto simp: map_of_add_id distinct_add_id)

text \<open>A missing list stands for no ids, a list holds at least one, newest first.\<close>

definition holds :: "'j option \<Rightarrow> i64 list \<Rightarrow> bool" where
  "holds l ids \<longleftrightarrow> (case l of None \<Rightarrow> ids = [] | Some l \<Rightarrow> hl_vals J l = rev ids \<and> ids \<noteq> [])"

definition grouped :: "('e, 'h) hosts_ops \<Rightarrow> 'h bus \<Rightarrow> i64 list \<Rightarrow> (string \<times> 'j) list \<times> 'j option \<Rightarrow> bool" where
  "grouped H s ids g \<longleftrightarrow> distinct (map fst (fst g))
    \<and> (\<forall>k. holds (map_of (fst g) k) (ids_for H s k ids)) \<and> holds (snd g) (filter go_neg ids)"

lemma holds_push:
  "holds l ids \<Longrightarrow> holds (Some (snd (hl_PushFront J uid (case l of None \<Rightarrow> hl_New J | Some l \<Rightarrow> l)))) (ids @ [uid])"
  by (auto simp: holds_def split: option.splits)

lemma grouped_step:
  assumes "hlist H" and "users_inv H s" and "grouped H s ids g"
  shows "grouped H s (ids @ [uid]) (group_step H J s uid g)"
proof -
  obtain ws udp where g: "g = (ws, udp)" by fastforce
  have dist: "distinct (map fst ws)" and ws: "\<And>k. holds (map_of ws k) (ids_for H s k ids)"
    and udp: "holds udp (filter go_neg ids)"
    using assms(3) by (simp_all add: g grouped_def)
  show ?thesis
  proof (cases "go_pos uid \<and> kv_get s uid \<noteq> None")
    case True
    then obtain l where l: "kv_get s uid = Some l" by blast
    let ?hs = "hl_vals H (fold (\<lambda>v l. snd (hl_PushFront H v l)) (hl_vals H l) (hl_New H))"
    have hs: "?hs = rev (hl_vals H l)"
      using hlist.vals_PushFront_fold [OF assms(1)] hlist.vals_New [OF assms(1)] by simp
    have at: "online_at H s uid = set (hl_vals H l)" "distinct (hl_vals H l)"
      using l assms(2) by (auto simp: online_at_def host_list_def hosts_def users_inv_def)
    have fold: "distinct (map fst (fold (add_id J uid) (rev (hl_vals H l)) ws))"
      "map_of (fold (add_id J uid) (rev (hl_vals H l)) ws) k =
        (if k \<in> set (hl_vals H l) then Some (snd (hl_PushFront J uid (case map_of ws k of None \<Rightarrow> hl_New J | Some l \<Rightarrow> l)))
         else map_of ws k)" for k
      using fold_add_id [of "rev (hl_vals H l)" ws uid k] at(2) dist by simp_all
    then show ?thesis
      using l True udp ws holds_push [OF ws]
      by (simp add: g grouped_def group_step_def GetUserComet_def hs ids_for_snoc at(1) del: map_of_eq_Some_iff)
  next
    case False
    then have "go_pos uid \<Longrightarrow> online_at H s uid = {}"
      by (simp add: online_at_def host_list_def hosts_def)
    then show ?thesis
      using False dist ws udp holds_push [OF udp, of uid]
      by (auto simp: g grouped_def group_step_def GetUserComet_def ids_for_snoc)
  qed
qed

lemma groupedD:
  assumes "grouped H s ids g"
  shows "distinct (map fst (fst g))"
    and "map_of (fst g) k = Some l \<Longrightarrow> hl_vals J l = rev (ids_for H s k ids) \<and> ids_for H s k ids \<noteq> []"
    and "map_of (fst g) k = None \<Longrightarrow> ids_for H s k ids = []"
    and "filter go_neg ids = [] \<Longrightarrow> snd g = None"
    and "filter go_neg ids \<noteq> [] \<Longrightarrow> \<exists>l. snd g = Some l \<and> hl_vals J l = rev (filter go_neg ids)"
proof -
  have "holds (map_of (fst g) k) (ids_for H s k ids)" "holds (snd g) (filter go_neg ids)"
    using assms by (simp_all add: grouped_def)
  then show "map_of (fst g) k = Some l \<Longrightarrow> hl_vals J l = rev (ids_for H s k ids) \<and> ids_for H s k ids \<noteq> []"
    and "map_of (fst g) k = None \<Longrightarrow> ids_for H s k ids = []"
    and "filter go_neg ids = [] \<Longrightarrow> snd g = None"
    and "filter go_neg ids \<noteq> [] \<Longrightarrow> \<exists>l. snd g = Some l \<and> hl_vals J l = rev (filter go_neg ids)"
    by (simp_all add: holds_def split: option.splits)
qed (use assms in \<open>simp add: grouped_def\<close>)

lemma group_ids_upto:
  assumes "hlist H" and "users_inv H s" and "8 * length ids < 2 ^ 16" and "n \<le> length ids"
    and "grouped H s (take (length ids - n) ids) g"
  shows "\<exists>g'. group_ids H J s (mk_slice (ids_bytes ids) stale) [length ids - n..<length ids] g = Some g' \<and> grouped H s ids g'"
  using assms(4,5)
proof (induction n arbitrary: g)
  case 0
  then show ?case by simp
next
  case (Suc n)
  let ?i = "length ids - Suc n"
  have "[?i..<length ids] = ?i # [length ids - n..<length ids]"
    using Suc.prems(1) by (simp add: upt_rec Suc_diff_Suc)
  moreover have "take (length ids - n) ids = take ?i ids @ [ids ! ?i]"
    using Suc.prems(1) take_Suc_conv_app_nth [of ?i ids] by (simp add: Suc_diff_Suc)
  ultimately show ?case
    using Suc grouped_step [OF assms(1,2) Suc.prems(2), of "ids ! ?i"] get_id16_exact' [OF _ assms(3), of ?i stale]
    by simp
qed

lemma group_ids_grouped:
  assumes "hlist H" and "users_inv H s" and "8 * length ids < 2 ^ 16"
  obtains g where "group_ids H J s (mk_slice (ids_bytes ids) stale) [0..<length ids] ([], None) = Some g" and "grouped H s ids g"
  using group_ids_upto [OF assms, of "length ids" "([], None)" stale] by (auto simp: grouped_def ids_for_def holds_def)

end

interpretation plain_ids: id_lists "plain_hlist r"
  by unfold_locales

section \<open>Broadcast\<close>

lemma push_ws_ok:
  assumes "deliverable env s [k]" and "ws k = Some l" and "frame_fits (hl_vals J l) data" and "data \<noteq> []"
  shows "push_ws J env data ws k s = (Ret (), s\<lparr>events := events s @ delivery s (id_frame (hl_vals J l) data) k\<rparr>)"
proof -
  have "3 \<le> length (id_frame (hl_vals J l) data)"
    using assms(4) by (cases data) simp_all
  then show ?thesis
    using assms Comets_PushMsg_ok [OF assms(1), of "id_frame (hl_vals J l) data"]
    by (simp add: push_ws_def ws_frame_exact log_out_ok go_monad)
qed

lemma push_all_ws:
  assumes "deliverable env s ks" and "set ks \<subseteq> dom ws"
    and "\<And>k l. ws k = Some l \<Longrightarrow> frame_fits (hl_vals J l) data" and "data \<noteq> []"
  shows "go_each (push_ws J env data ws) ks s =
    (Ret (), s\<lparr>events := events s @ concat (map (\<lambda>k. delivery s (id_frame (hl_vals J (the (ws k))) data) k) ks)\<rparr>)"
  using assms(1,2)
proof (induction ks arbitrary: s)
  case Nil
  then show ?case by (simp add: go_monad)
next
  case (Cons k ks)
  then obtain l where l: "ws k = Some l" by auto
  let ?s = "s\<lparr>events := events s @ delivery s (id_frame (hl_vals J l) data) k\<rparr>"
  have "deliverable env s [k]" "deliverable env ?s ks"
    using Cons.prems(1) by (simp_all add: deliverable_def)
  then show ?case
    using Cons push_ws_ok [of env s k ws l J data] assms(3) [OF l] assms(4) l
    by (simp add: go_monad)
qed

lemma written_deliveries:
  assumes "distinct ks" and "inj_on (host_conn s) (set ks \<union> {k})"
  shows "written (host_conn s k) (concat (map (\<lambda>k. delivery s (f k) k) ks)) = (if k \<in> set ks then framed (f k) else [])"
  using assms
proof (induction ks)
  case (Cons x xs)
  then have "inj_on (host_conn s) (set xs \<union> {k})"
    by (auto intro: inj_on_subset)
  with Cons show ?case
    by (cases "k = x") (auto simp: delivery_def framed_def inj_on_def)
qed simp

text \<open>The message a comet must receive of a request: nothing when none of its users is addressed, else
  one frame with the ids of its users.\<close>

definition comet_share :: "('e, 'h) hosts_ops \<Rightarrow> 'h bus \<Rightarrow> string \<Rightarrow> i64 list \<Rightarrow> byte list \<Rightarrow> byte list" where
  "comet_share H s k ids data =
     (if ids_for H s k ids = [] then [] else framed (id_frame (rev (ids_for H s k ids)) data))"

lemma ids_for_events [simp]: "ids_for H (s\<lparr>events := es\<rparr>) = ids_for H s" "users_inv H (s\<lparr>events := es\<rparr>) = users_inv H s"
  by (simp_all add: fun_eq_iff ids_for_def online_at_def host_list_def users_inv_def)

lemma handle_many_ws:
  assumes H: "hlist H" and J: "hlist J" and inv: "users_inv H s" and fits: "frame_fits ids data" and ne: "data \<noteq> []"
    and users: "filter go_neg ids = []" and net: "\<forall>tr c bs. tcp_ok env tr c bs"
    and known: "\<forall>k. ids_for H s k ids \<noteq> [] \<longrightarrow> k \<in> dom (Servers s)"
    and inj: "inj_on (host_conn s) (dom (Servers s))"
    and order: "\<And>tr ks. distinct ks \<Longrightarrow> distinct (map_order env tr ks) \<and> set (map_order env tr ks) = set ks"
  shows "\<exists>es. handle_many H J env (of_nat (length ids)) (mk_slice (ids_bytes ids) stale) data s = (Ret (), s\<lparr>events := events s @ es\<rparr>)
    \<and> (\<forall>k \<in> dom (Servers s). written (host_conn s k) es = comet_share H s k ids data)"
proof -
  have len: "8 * length ids < 2 ^ 16" "unat (of_nat (length ids) :: u16) = length ids"
    using fits by (simp_all add: frame_fits_def)
  obtain g where g: "group_ids H J s (mk_slice (ids_bytes ids) stale) [0..<length ids] ([], None) = Some g"
    and gr: "id_lists.grouped J H s ids g"
    by (rule id_lists.group_ids_grouped [OF id_lists.intro [OF J] H inv len(1)])
  define ws where "ws = fst g"
  note grD = id_lists.groupedD [OF id_lists.intro [OF J] gr]
  have g_eq: "g = (ws, None)"
    using grD(4) users by (simp add: ws_def prod_eq_iff)
  have dist: "distinct (map fst ws)"
    and vals: "\<And>k l. map_of ws k = Some l \<Longrightarrow> hl_vals J l = rev (ids_for H s k ids) \<and> ids_for H s k ids \<noteq> []"
    and none: "\<And>k. map_of ws k = None \<Longrightarrow> ids_for H s k ids = []"
    unfolding ws_def by (fact grD)+
  define ks where "ks = map_order env (events s) (map fst ws)"
  have ks: "distinct ks" "set ks = dom (map_of ws)"
    using order [OF dist] by (auto simp: ks_def dom_map_of_conv_image_fst)
  have "frame_fits (hl_vals J l) data" if "map_of ws k = Some l" for k l
  proof -
    have "length (ids_for H s k ids) \<le> length ids"
      by (simp add: ids_for_def)
    then show ?thesis
      using vals [OF that] fits by (simp add: frame_fits_def)
  qed
  moreover have dlv: "deliverable env s ks"
    using ks(2) vals known net by (fastforce simp: deliverable_def)
  ultimately have "handle_many H J env (of_nat (length ids)) (mk_slice (ids_bytes ids) stale) data s
      = (Ret (), s\<lparr>events := events s @ concat (map (\<lambda>k. delivery s (id_frame (hl_vals J (the (map_of ws k))) data) k) ks)\<rparr>)"
    using push_all_ws [OF dlv, of "map_of ws" J data] ks(2) ne
    by (simp add: handle_many_def go_monad len(2) g g_eq ks_def push_udp_def)
  moreover have "written (host_conn s k) (concat (map (\<lambda>k. delivery s (id_frame (hl_vals J (the (map_of ws k))) data) k) ks))
      = comet_share H s k ids data" if "k \<in> dom (Servers s)" for k
  proof -
    have "inj_on (host_conn s) (set ks \<union> {k})"
      using dlv that by (intro inj_on_subset [OF inj]) (auto simp: deliverable_def)
    from written_deliveries [OF ks(1) this] show ?thesis
      using vals none [of k] ks(2) by (auto simp: comet_share_def)
  qed
  ultimately show ?thesis by blast
qed

section \<open>Properties\<close>

text \<open>The frames the bus forwards: from a user, or from a board with the forward opcode.\<close>

definition forwarded :: "i64 \<Rightarrow> byte list \<Rightarrow> bool" where
  "forwarded src data \<longleftrightarrow> data \<noteq> [] \<and> (go_neg src \<longrightarrow> hd data AND 7 = 3)"

lemma MainHandle_dispatch:
  assumes "frame_fits ids data" and "forwarded src data"
  shows "MainHandle H J env (mk_slice (bus_frame src ids data) stale) s =
    (if length ids = 1
     then handle_one H env (mk_slice (id_frame ids data) stale) (mk_slice (ids_bytes ids) (data @ stale))
     else handle_many H J env (of_nat (length ids)) (mk_slice (ids_bytes ids) (data @ stale)) data)
    (s\<lparr>events := events s @ [StatInc UpStreamIn]\<rparr>)"
proof -
  have "unat (of_nat (length ids) :: u16) = length ids"
    using assms(1) by (simp add: frame_fits_def)
  then have "(of_nat (length ids) :: u16) = 1 \<longleftrightarrow> length ids = 1"
    by (metis of_nat_1 unat_1)
  moreover have "IsForwardType (mk_slice data stale) = Some (hd data AND 7 = 3)"
    using assms(2) by (cases data) (simp_all add: IsForwardType_def forwarded_def)
  ultimately show ?thesis
    using assms log_in_ok [OF assms(1), of env stale "data @ stale"]
    by (simp add: MainHandle_def parse_bus_frame emit_def go_monad forwarded_def)
qed

lemma written_count: "written c (concat (map (\<lambda>h. f h @ [StatInc x]) hs)) = written c (concat (map f hs))"
  by (induction hs) simp_all

lemma handle_one_ws:
  assumes H: "hlist H" and inv: "users_inv H s" and fits: "frame_fits [uid] data" and ne: "data \<noteq> []"
    and user: "\<not> go_neg uid" and net: "\<forall>tr c bs. tcp_ok env tr c bs"
    and known: "\<forall>k. ids_for H s k [uid] \<noteq> [] \<longrightarrow> k \<in> dom (Servers s)"
    and inj: "inj_on (host_conn s) (dom (Servers s))"
  shows "\<exists>es. handle_one H env (mk_slice (id_frame [uid] data) stale) (mk_slice (ids_bytes [uid]) stale') s = (Ret (), s\<lparr>events := events s @ es\<rparr>)
    \<and> (\<forall>k \<in> dom (Servers s). written (host_conn s k) es = comet_share H s k [uid] data)"
proof (cases "go_pos uid")
  case False
  then show ?thesis
    using user by (intro exI [of _ "[]"]) (simp add: handle_one_def go_monad comet_share_def ids_for_def)
next
  case True
  let ?hs = "host_list H s uid" and ?f = "id_frame [uid] data"
  let ?es = "concat (map (\<lambda>h. delivery s ?f h @ [StatInc DownStreamOut]) ?hs)"
  have dist: "distinct ?hs" using inv by (auto simp: users_inv_def host_list_def split: option.splits)
  have sub: "set ?hs \<subseteq> dom (Servers s)"
  proof
    fix k assume "k \<in> set ?hs"
    then have "ids_for H s k [uid] \<noteq> []" using True by (simp add: ids_for_def online_at_def)
    then show "k \<in> dom (Servers s)" using known by blast
  qed
  have "log_safe env (mk_slice ?f stale)" using ne by (cases data) (simp_all add: log_safe_def mk_slice_def)
  then have push: "PushToComet H env uid (mk_slice ?f stale) s =
      (if hosts H s uid = None then (Ret (Some (UserNotFound uid)), s) else (Ret None, s\<lparr>events := events s @ ?es\<rparr>))"
    using sub net push_loop_ok [of env s ?hs "mk_slice ?f stale"]
    by (auto simp: PushToComet_def hosts_def host_list_def go_monad deliverable_def split: option.splits)
  have w: "written (host_conn s k) ?es = comet_share H s k [uid] data" if k: "k \<in> dom (Servers s)" for k
  proof -
    have "inj_on (host_conn s) (set ?hs \<union> {k})" using sub k by (intro inj_on_subset [OF inj]) auto
    from written_deliveries [OF dist this, of "\<lambda>_. ?f"]
    have "written (host_conn s k) ?es = (if k \<in> set ?hs then framed ?f else [])"
      by (simp add: written_count)
    then show ?thesis using True by (simp add: comet_share_def ids_for_def online_at_def)
  qed
  show ?thesis
  proof (cases "hosts H s uid = None")
    case none: True
    then have "?hs = []" by (simp add: hosts_def host_list_def split: option.splits)
    then show ?thesis
      using none push w True by (intro exI [of _ "[StatInc DownStreamOutBad]"]) (simp add: handle_one_def go_monad emit_def)
  next
    case False
    then have "PushToComet H env uid (mk_slice ?f stale) s = (Ret None, s\<lparr>events := events s @ ?es\<rparr>)" using push by argo
    then show ?thesis
      using w True by (intro exI [of _ ?es]) (simp add: handle_one_def go_monad)
  qed
qed

lemma MainHandle_ws:
  assumes "hlist H" and "hlist J" and "users_inv H s" and "frame_fits ids data" and "forwarded src data"
    and "filter go_neg ids = []" and "\<forall>tr c bs. tcp_ok env tr c bs"
    and "\<forall>k. ids_for H s k ids \<noteq> [] \<longrightarrow> k \<in> dom (Servers s)"
    and "inj_on (host_conn s) (dom (Servers s))"
    and "\<And>tr ks. distinct ks \<Longrightarrow> distinct (map_order env tr ks) \<and> set (map_order env tr ks) = set ks"
  shows "\<exists>es. MainHandle H J env (mk_slice (bus_frame src ids data) stale) s = (Ret (), s\<lparr>events := events s @ es\<rparr>)
    \<and> (\<forall>k \<in> dom (Servers s). written (host_conn s k) es = comet_share H s k ids data)"
proof -
  let ?s = "s\<lparr>events := events s @ [StatInc UpStreamIn]\<rparr>"
  let ?m = "if length ids = 1
     then handle_one H env (mk_slice (id_frame ids data) stale) (mk_slice (ids_bytes ids) (data @ stale))
     else handle_many H J env (of_nat (length ids)) (mk_slice (ids_bytes ids) (data @ stale)) data"
  have "\<exists>es. ?m ?s = (Ret (), ?s\<lparr>events := events ?s @ es\<rparr>)
      \<and> (\<forall>k \<in> dom (Servers ?s). written (host_conn ?s k) es = comet_share H ?s k ids data)"
  proof (cases "length ids = 1")
    case True
    then obtain uid where uid: "ids = [uid]" by (auto simp: length_Suc_conv)
    have "\<exists>es. handle_one H env (mk_slice (id_frame [uid] data) stale) (mk_slice (ids_bytes [uid]) (data @ stale)) ?s = (Ret (), ?s\<lparr>events := events ?s @ es\<rparr>)
      \<and> (\<forall>k \<in> dom (Servers ?s). written (host_conn ?s k) es = comet_share H ?s k [uid] data)"
      by (rule handle_one_ws [OF assms(1)]) (use assms uid in \<open>simp_all add: forwarded_def split: if_splits\<close>)
    then show ?thesis using uid by simp
  next
    case False
    have "\<exists>es. handle_many H J env (of_nat (length ids)) (mk_slice (ids_bytes ids) (data @ stale)) data ?s
          = (Ret (), ?s\<lparr>events := events ?s @ es\<rparr>)
        \<and> (\<forall>k \<in> dom (Servers ?s). written (host_conn ?s k) es = comet_share H ?s k ids data)"
      by (rule handle_many_ws [OF assms(1,2)]) (use assms in \<open>simp_all add: forwarded_def\<close>)
    then show ?thesis using False by simp
  qed
  then obtain es where "?m ?s = (Ret (), s\<lparr>events := events s @ [StatInc UpStreamIn] @ es\<rparr>)"
    "\<forall>k \<in> dom (Servers s). written (host_conn s k) es = comet_share H s k ids data"
    by (auto simp: comet_share_def)
  then show ?thesis
    using MainHandle_dispatch [OF assms(4,5), of H J env stale s]
    by (intro exI [of _ "[StatInc UpStreamIn] @ es"]) simp
qed

text \<open>C7: A frame for users, whatever its sender and however many users it names, reaches exactly the right comets: when the
  network works and every host in the table is connected on a connection of its own, each connected
  websocket comet is written nothing if none of the addressed users is online there, and otherwise
  one frame with exactly the ids of the addressed users online there and the unchanged message.\<close>

theorem MainHandle_broadcast:
  assumes "hlist H" and "hlist J" and "users_inv H s" and "frame_fits ids data" and "forwarded src data"
    and "filter go_neg ids = []" and "\<forall>tr c bs. tcp_ok env tr c bs"
    and "\<forall>k. ids_for H s k ids \<noteq> [] \<longrightarrow> k \<in> dom (Servers s)"
    and "inj_on (host_conn s) (dom (Servers s))"
    and "\<And>tr ks. distinct ks \<Longrightarrow> distinct (map_order env tr ks) \<and> set (map_order env tr ks) = set ks"
  shows "\<exists>es. MainHandle H J env (mk_slice (bus_frame src ids data) stale) s = (Ret (), s\<lparr>events := events s @ es\<rparr>)
    \<and> (\<forall>k \<in> dom (Servers s). written (host_conn s k) es = comet_share H s k ids data)"
  by (rule MainHandle_ws [OF assms])

lemma sample_bus_inv: "users_inv (plain_hlist True) sample_bus"
proof -
  have "users_inv (plain_hlist True) (snd (AddServer ''a'' 5 CometWs empty_bus))"
    by (rule users_inv_init) (simp add: AddServer_def comet_defs go_monad empty_bus_def comets.defs)
  from plain_users.presence_inv [OF this, of "[Up 17 ''a'']"] show ?thesis
    by (simp add: sample_bus_def)
qed

lemma sample_ids_for: "ids_for (plain_hlist True) sample_bus k [17, 18] = (if k = ''a'' then [17] else [])"
proof -
  have "hosts (plain_hlist True) sample_bus 18 = None"
    using plain_users.hosts_Online [of "snd (AddServer ''a'' 5 CometWs empty_bus)" True 17 "''a''"]
      user_wf_init [of "snd (AddServer ''a'' 5 CometWs empty_bus)" "plain_hlist True"]
    by (simp add: sample_bus_def AddServer_def comet_defs go_monad empty_bus_def comets.defs)
  then show ?thesis
    using sample_bus_hosts by (simp add: ids_for_def online_at_def host_list_def go_pos_def)
qed

theorem MainHandle_broadcast_witness:
  "\<exists>es. MainHandle (plain_hlist True) (plain_hlist True) sample_env (mk_slice (bus_frame 33 [17, 18] [3, 0]) []) sample_bus
      = (Ret (), sample_bus\<lparr>events := events sample_bus @ es\<rparr>)
    \<and> written 5 es = framed (id_frame [17] [3, 0])"
proof -
  have "\<exists>es. MainHandle (plain_hlist True) (plain_hlist True) sample_env (mk_slice (bus_frame 33 [17, 18] [3, 0]) []) sample_bus
      = (Ret (), sample_bus\<lparr>events := events sample_bus @ es\<rparr>)
    \<and> (\<forall>k \<in> dom (Servers sample_bus). written (host_conn sample_bus k) es = comet_share (plain_hlist True) sample_bus k [17, 18] [3, 0])"
    by (rule MainHandle_broadcast [OF plain.hlist_axioms plain.hlist_axioms sample_bus_inv])
       (simp_all add: frame_fits_def forwarded_def sample_env_def sample_ids_for sample_bus_Servers go_neg_def)
  then show ?thesis
    by (simp add: sample_bus_Servers host_conn_def comet_share_def sample_ids_for)
qed

text \<open>A frame for a single user is passed on unchanged: the bus does exactly what pushing the frame
  without the sender's id to that user does, and counts a failed push.\<close>

theorem MainHandle_single:
  assumes "frame_fits [uid] data" and "forwarded src data" and "go_pos uid"
  shows "MainHandle H J env (mk_slice (bus_frame src [uid] data) stale) s =
    go_bind (PushToComet H env uid (mk_slice (id_frame [uid] data) stale))
      (\<lambda>err. if err \<noteq> None then emit (StatInc DownStreamOutBad) else go_ret ())
      (s\<lparr>events := events s @ [StatInc UpStreamIn]\<rparr>)"
  using MainHandle_dispatch [OF assms(1,2)] assms(3) by (simp add: handle_one_def go_monad)

theorem MainHandle_single_witness:
  "MainHandle (plain_hlist True) (plain_hlist True) sample_env (mk_slice (bus_frame 33 [17] [2]) []) sample_bus =
    go_bind (PushToComet (plain_hlist True) sample_env 17 (mk_slice (id_frame [17] [2]) []))
      (\<lambda>err. if err \<noteq> None then emit (StatInc DownStreamOutBad) else go_ret ())
      (sample_bus\<lparr>events := events sample_bus @ [StatInc UpStreamIn]\<rparr>)"
  by (rule MainHandle_single) (simp_all add: frame_fits_def forwarded_def go_neg_def go_pos_def)

text \<open>A message from a board that is not of the forward type crashes the bus: after it has been
  put into the application queue, reading its sender panics, so that no acknowledgement is sent.\<close>

theorem MainHandle_board_panics:
  assumes "frame_fits ids data" and "go_neg src" and "30 \<le> length data" and "hd data AND 7 \<noteq> 3"
  shows "\<exists>msgId. GetMsgId (mk_slice data stale) = Some msgId
    \<and> MainHandle H J env (mk_slice (bus_frame src ids data) stale) s =
      (Panic, s\<lparr>events := events s @ [StatInc UpStreamIn, RmqPush data msgId]\<rparr>)"
proof -
  have ne: "data \<noteq> []" using assms(3) by auto
  have src: "ForwardSrcId (mk_slice data stale) = None"
    using assms(3) by (simp add: ForwardSrcId_def Uint64_def Uint_def)
  have fwd: "IsForwardType (mk_slice data stale) = Some False"
    using ne assms(4) by (cases data) (simp_all add: IsForwardType_def)
  moreover have "\<exists>m. GetMsgId (mk_slice data stale) = Some m"
    using assms(3) fwd by (simp add: GetMsgId_def Uint16_def Uint_def)
  ultimately show ?thesis
    using assms log_in_ok [OF assms(1) ne, of env stale "data @ stale"]
    by (auto simp: MainHandle_def parse_bus_frame emit_def go_monad handle_board_def src)
qed

theorem MainHandle_board_panics_witness:
  "\<exists>msgId. GetMsgId (mk_slice (2 # replicate 40 0) []) = Some msgId
    \<and> MainHandle (plain_hlist True) (plain_hlist True) sample_env (mk_slice (bus_frame (- 9) [17] (2 # replicate 40 0)) []) sample_bus =
      (Panic, sample_bus\<lparr>events := events sample_bus @ [StatInc UpStreamIn, RmqPush (2 # replicate 40 0) msgId]\<rparr>)"
  by (rule MainHandle_board_panics) (simp_all add: frame_fits_def go_neg_def)

text \<open>A frame for several boards reaches a UDP comet with its ids erased: the bus forwards the right
  number of ids and the message, but every id is zero.\<close>

theorem MainHandle_boards_zero_ids:
  assumes "hlist H" and "hlist J" and "users_inv H s" and "frame_fits ids data" and "forwarded src data"
    and "2 \<le> length ids" and "\<forall>i \<in> set ids. go_neg i"
    and "\<And>tr ks. distinct ks \<Longrightarrow> distinct (map_order env tr ks) \<and> set (map_order env tr ks) = set ks"
  shows "MainHandle H J env (mk_slice (bus_frame src ids data) stale) s =
    go_bind (PushUdpMsg env (id_frame (replicate (length ids) 0) data)) (\<lambda>_. go_ret ())
      (s\<lparr>events := events s @ [StatInc UpStreamIn]\<rparr>)"
proof -
  let ?s = "s\<lparr>events := events s @ [StatInc UpStreamIn]\<rparr>"
  have len: "8 * length ids < 2 ^ 16" "unat (of_nat (length ids) :: u16) = length ids"
    using assms(4) by (simp_all add: frame_fits_def)
  have inv: "users_inv H ?s" using assms(3) by simp
  obtain g where g: "group_ids H J ?s (mk_slice (ids_bytes ids) (data @ stale)) [0..<length ids] ([], None) = Some g"
    and gr: "id_lists.grouped J H ?s ids g"
    by (rule id_lists.group_ids_grouped [OF id_lists.intro [OF assms(2)] assms(1) inv len(1)])
  note grD = id_lists.groupedD [OF id_lists.intro [OF assms(2)] gr]
  have neg: "filter go_neg ids = ids" and none: "ids_for H ?s k ids = []" for k
    using assms(7) by (auto simp: filter_id_conv ids_for_def filter_empty_conv)
  have "ids \<noteq> []" using assms(6) by auto
  then obtain l where l: "snd g = Some l" "hl_vals J l = rev ids"
    using grD(5) neg by auto
  have "map_of (fst g) k = None" for k
    using grD(2) [of k] none [of k] by (cases "map_of (fst g) k") auto
  then have "fst g = []"
    by (metis list.set_intros(1) map_of_eq_None_iff neq_Nil_conv image_eqI)
  then have g_eq: "g = ([], Some l)" using l(1) by (simp add: prod_eq_iff)
  have "hl_Len J l = length ids"
    using l(2) hlist.Len_elems [OF assms(2)] by (metis hl_vals_def length_map length_rev)
  moreover have "map_order env (events ?s) [] = []"
    using assms(8) [of "[]"] by simp
  moreover have "udp_frame (length ids) data = Some (id_frame (replicate (length ids) 0) data)"
    using udp_frame_zeros assms(4) by (simp add: frame_fits_def)
  moreover have "3 \<le> length (id_frame (replicate (length ids) 0) data)"
    using assms(6) by simp
  ultimately show ?thesis
    using MainHandle_dispatch [OF assms(4,5), of H J env stale s] assms(6) g
    by (auto simp: handle_many_def go_monad len(2) g_eq push_udp_def log_out_ok split: prod.splits outcome.splits)
qed

theorem MainHandle_boards_zero_ids_witness:
  "MainHandle (plain_hlist True) (plain_hlist True) sample_env (mk_slice (bus_frame 33 [- 9, - 10] [3, 0]) []) sample_bus =
    go_bind (PushUdpMsg sample_env (id_frame [0, 0] [3, 0])) (\<lambda>_. go_ret ())
      (sample_bus\<lparr>events := events sample_bus @ [StatInc UpStreamIn]\<rparr>)"
  using MainHandle_boards_zero_ids [OF plain.hlist_axioms plain.hlist_axioms sample_bus_inv, of "[- 9, - 10]" "[3, 0]" 33 sample_env True "[]"]
  by (simp add: frame_fits_def forwarded_def go_neg_def sample_env_def)

text \<open>The text of a notification as the comets publish it.\<close>

fun notice_text :: "notice \<Rightarrow> string" where
  "notice_text (Up u h) = FormatInt u @ ''|'' @ h @ ''|1''"
| "notice_text (Down u h) = FormatInt u @ ''|'' @ h @ ''|0''"
| "notice_text (HostDown h) = ''0|'' @ h @ ''|0''"

fun notice_ok :: "notice \<Rightarrow> bool" where
  "notice_ok (Up u h) \<longleftrightarrow> CHR ''|'' \<notin> set h"
| "notice_ok (Down u h) \<longleftrightarrow> CHR ''|'' \<notin> set h \<and> u \<noteq> 0"
| "notice_ok (HostDown h) \<longleftrightarrow> CHR ''|'' \<notin> set h"

lemma split_notice:
  "CHR ''|'' \<notin> set h \<Longrightarrow> split_on (CHR ''|'') (FormatInt u @ CHR ''|'' # h @ CHR ''|'' # [c]) =
     (if c = CHR ''|'' then [FormatInt u, h, [], []] else [FormatInt u, h, [c]])"
  by (simp add: split_on_append FormatInt_no_char of_char_def)

lemma FormatInt_0: "FormatInt 0 = ''0''"
  by (simp add: FormatInt_def format_nat.simps digit_char_def char_of_def bit_0)

lemma ParseInt_0: "ParseInt ''0'' = (0, None)"
  using ParseInt_FormatInt [of 0] by (simp add: FormatInt_0)

lemma onlineEvent_notice: "notice_ok ev \<Longrightarrow> onlineEvent H (notice_text ev) s = (Ret (), apply_notice H ev s)"
  using split_notice [of _ 0]
  by (cases ev) (auto simp: onlineEvent_def split_notice FormatInt_0 ParseInt_0 go_monad)

lemma handle_notices:
  "\<forall>ev \<in> set evs. notice_ok ev \<Longrightarrow> handleOnlineEvent H (map notice_text evs) s = (Ret (), fold (apply_notice H) evs s)"
  by (induction evs arbitrary: s) (simp_all add: handleOnlineEvent_def go_monad onlineEvent_notice)

text \<open>The text of every notification is read back as that notification: handling a sequence of
  published texts applies exactly the corresponding online, offline and host-offline updates, in
  order, and ends normally.\<close>

theorem handleOnlineEvent_notices:
  assumes "\<forall>ev \<in> set evs. notice_ok ev"
  shows "handleOnlineEvent H (map notice_text evs) s = (Ret (), fold (apply_notice H) evs s)"
  by (rule handle_notices [OF assms])

theorem handleOnlineEvent_notices_witness:
  "handleOnlineEvent (plain_hlist True) [''-9|10.0.0.2|1'', ''0|10.0.0.2|0''] sample_bus
     = (Ret (), OfflineHost (plain_hlist True) ''10.0.0.2'' (Online (plain_hlist True) (- 9) ''10.0.0.2'' sample_bus))"
proof -
  have "FormatInt (- 9) = ''-9''"
    by (simp add: FormatInt_def format_nat.simps digit_char_def char_of_def bit_0)
  then show ?thesis
    using handleOnlineEvent_notices [of "[Up (- 9) ''10.0.0.2'', HostDown ''10.0.0.2'']" "plain_hlist True" sample_bus] by simp
qed

text \<open>A notification with fewer than two separators ends the bus: the missing field is an index out
  of range, and no notification after it is handled.\<close>

theorem handleOnlineEvent_malformed:
  assumes "length (filter (\<lambda>c. c = CHR ''|'') bad) < 2"
  shows "handleOnlineEvent H (bad # rest) s = (Panic, s)"
proof -
  have "length (split_on (CHR ''|'') bad) < 3"
    using assms by (simp add: split_on_length)
  then show ?thesis
    by (auto simp: handleOnlineEvent_def onlineEvent_def go_monad split: list.splits)
qed

theorem handleOnlineEvent_malformed_witness:
  "handleOnlineEvent (plain_hlist True) [''17|10.0.0.2'', ''18|10.0.0.2|1''] sample_bus = (Panic, sample_bus)"
  by (rule handleOnlineEvent_malformed) simp

end
