(* ===== verification/Presence.thy ===== *)
theory Presence
  imports CometRedis BusHandler
begin

text \<open>
  The comets' announcements and the bus's user table put together: the scripts of
  \<^verbatim>\<open>comet/redis.go\<close> count the connections of every id on every host and publish the first and the
  last of them, the bus handles these publications, and so its table follows the counters.
\<close>

section \<open>Connection counts and the bus\<close>

text \<open>The notifications published so far, as the bus reads them.\<close>

definition notices_of :: "'r redis_ops \<Rightarrow> 'r \<Rightarrow> string list" where
  "notices_of R r = map snd (filter (\<lambda>p. fst p = PubKey) (rd_published R r))"

datatype comet_op = Connect i64 string | Disconnect i64 string | Restart string

fun comet_step :: "'r redis_ops \<Rightarrow> comet_op \<Rightarrow> 'r \<Rightarrow> 'r" where
  "comet_step R (Connect u h) r = snd (SetUserOnline R u h r)"
| "comet_step R (Disconnect u h) r = snd (SetUserOffline R u h r)"
| "comet_step R (Restart h) r = snd (ClearRedis R h r)"

abbreviation conns :: "'r redis_ops \<Rightarrow> 'r \<Rightarrow> i64 \<Rightarrow> string \<Rightarrow> int" where
  "conns R r u h \<equiv> rd_count R (HostUsers h) (FormatInt u) r"

text \<open>Comets behave: they disconnect only what is connected, id 0 never connects, and host names contain no
  separator.\<close>

fun op_ok :: "'r redis_ops \<Rightarrow> 'r \<Rightarrow> comet_op \<Rightarrow> bool" where
  "op_ok R r (Connect u h) \<longleftrightarrow> u \<noteq> 0 \<and> CHR ''|'' \<notin> set h"
| "op_ok R r (Disconnect u h) \<longleftrightarrow> u \<noteq> 0 \<and> CHR ''|'' \<notin> set h \<and> 0 < conns R r u h"
| "op_ok R r (Restart h) \<longleftrightarrow> CHR ''|'' \<notin> set h"

fun op_notice :: "'r redis_ops \<Rightarrow> 'r \<Rightarrow> comet_op \<Rightarrow> notice list" where
  "op_notice R r (Connect u h) = (if conns R r u h = 0 then [Up u h] else [])"
| "op_notice R r (Disconnect u h) = (if conns R r u h = 1 then [Down u h] else [])"
| "op_notice R r (Restart h) = [HostDown h]"

fun ops_ok :: "'r redis_ops \<Rightarrow> comet_op list \<Rightarrow> 'r \<Rightarrow> bool" where
  "ops_ok R [] r \<longleftrightarrow> True"
| "ops_ok R (op # ops) r \<longleftrightarrow> op_ok R r op \<and> ops_ok R ops (comet_step R op r)"

locale comet_redis = redis_counters +
  assumes up: "rd_up R r"
begin

lemma HostUsers_inj [simp]: "HostUsers h = HostUsers h' \<longleftrightarrow> h = h'"
  by (simp add: HostUsers_def)

lemma comet_step_count:
  "conns R (comet_step R op r) u h = (case op of
     Connect u' h' \<Rightarrow> conns R r u h + (if u = u' \<and> h = h' then 1 else 0)
   | Disconnect u' h' \<Rightarrow> conns R r u h - (if u = u' \<and> h = h' then 1 else 0)
   | Restart h' \<Rightarrow> if h = h' then 0 else conns R r u h)"
  by (cases op)
     (auto simp: SetUserOnline_def SetUserOffline_def ClearRedis_def scriptOnline_def scriptOffline_def up
       HINCRBY_count HDEL_count DEL_count HINCRBY_result Let_def case_prod_beta)

lemma comet_step_notices:
  "notices_of R (comet_step R op r) = notices_of R r @ map notice_text (op_notice R r op)"
  by (cases op)
     (simp_all add: notices_of_def SetUserOnline_def SetUserOffline_def ClearRedis_def scriptOnline_def scriptOffline_def
       up HINCRBY_result Let_def case_prod_beta PubKey_def)

text \<open>The bus agrees with the counters.\<close>

definition agrees :: "('e, 'h) hosts_ops \<Rightarrow> 'a \<Rightarrow> 'h bus \<Rightarrow> bool" where
  "agrees H r s \<longleftrightarrow> users_inv H s
     \<and> (\<forall>u h. 0 \<le> conns R r u h \<and> (h \<in> online_at H s u \<longleftrightarrow> 0 < conns R r u h))"

lemma agrees_step:
  assumes "hlist H" and "agrees H r s" and "op_ok R r op"
  shows "agrees H (comet_step R op r) (fold (apply_notice H) (op_notice R r op) s)"
proof -
  have P: "presence (users_inv H) (online_at H) (apply_notice H)"
    by (rule host_lists.presence_users [OF host_lists.intro [OF assms(1)]])
  have inv: "users_inv H s" and nonneg: "\<And>u h. 0 \<le> conns R r u h"
    and at: "\<And>u h. h \<in> online_at H s u \<longleftrightarrow> 0 < conns R r u h"
    using assms(2) by (auto simp: agrees_def)
  have "users_inv H (fold (apply_notice H) (op_notice R r op) s)"
    by (rule presence.inv_run [OF P inv])
  moreover have "0 \<le> conns R (comet_step R op r) u h
      \<and> (h \<in> online_at H (fold (apply_notice H) (op_notice R r op) s) u \<longleftrightarrow> 0 < conns R (comet_step R op r) u h)" for u h
    unfolding comet_step_count
    using assms(3) nonneg [of h u] at [of h u] inv
    by (cases op) (auto simp: presence.at_Up [OF P] presence.at_Down [OF P] presence.at_HostDown [OF P] simp del: apply_notice.simps)
  ultimately show ?thesis by (simp add: agrees_def)
qed

lemma notice_ok_op: "op_ok R r op \<Longrightarrow> ev \<in> set (op_notice R r op) \<Longrightarrow> notice_ok ev"
  by (cases op) (auto split: if_splits)

lemma run_agrees:
  assumes "hlist H" and "agrees H r s" and "ops_ok R ops r"
  shows "\<exists>evs. notices_of R (fold (comet_step R) ops r) = notices_of R r @ map notice_text evs
    \<and> (\<forall>ev \<in> set evs. notice_ok ev) \<and> agrees H (fold (comet_step R) ops r) (fold (apply_notice H) evs s)"
  using assms(2,3)
proof (induction ops arbitrary: r s)
  case Nil
  then show ?case by (intro exI [of _ "[]"]) simp
next
  case (Cons op ops)
  let ?s = "fold (apply_notice H) (op_notice R r op) s"
  have "agrees H (comet_step R op r) ?s" using agrees_step [OF assms(1)] Cons.prems by simp
  with Cons obtain evs where evs: "notices_of R (fold (comet_step R) ops (comet_step R op r)) = notices_of R (comet_step R op r) @ map notice_text evs"
    "\<forall>ev \<in> set evs. notice_ok ev" "agrees H (fold (comet_step R) ops (comet_step R op r)) (fold (apply_notice H) evs ?s)"
    by (metis ops_ok.simps(2))
  then show ?case
    using notice_ok_op [of r op] Cons.prems
    by (intro exI [of _ "op_notice R r op @ evs"]) (auto simp: comet_step_notices)
qed

end

interpretation plain_comets: comet_redis plain_redis
  by unfold_locales (simp add: plain_redis_def)

end
