(* ===== verification/BusStart.thy ===== *)
theory BusStart
  imports Presence
begin

text \<open>
  The start of a message bus (\<^verbatim>\<open>msgbus/main.go\<close>, \<^verbatim>\<open>msgbus/redis.go\<close>): it subscribes to the notifications, waits until redis
  has confirmed that, loads the users that are already on line, and handles the notifications.

  The replies of the subscription are a list; when it ends, nothing more arrives.  \<^verbatim>\<open>handleOnlineEvent\<close> runs in a goroutine
  of its own; here it handles its first notification after the loading
  (\<open>StartRace\<close> interleaves them).
\<close>

section \<open>Subscription and loading\<close>

fun state_loop :: "string sub_reply list \<Rightarrow> string list" where
  "state_loop [] = []"
| "state_loop (Message d # rs) = d # state_loop rs"
| "state_loop (Subscription n # rs) = state_loop rs"
| "state_loop (ReplyError # rs) = []"

text \<open>The first reply is waited for; the result is what will be sent on the channel, or an error.\<close>

definition SubUserState :: "string sub_reply list \<Rightarrow> ('s, string list option) go" where
  "SubUserState replies = (case replies of
     [] \<Rightarrow> (\<lambda>s. (Blocked, s))
   | Subscription n # rs \<Rightarrow> if n = 0 then go_lift None else go_ret (Some (state_loop rs))
   | ReplyError # rs \<Rightarrow> go_ret None
   | Message d # rs \<Rightarrow> go_ret (Some (state_loop rs)))"

definition bus_start ::
  "('e, 'h) hosts_ops \<Rightarrow> string sub_reply list \<Rightarrow> string list option \<Rightarrow> (string \<Rightarrow> string list option) \<Rightarrow> ('h bus, unit) go" where
  "bus_start H replies keys hkeys =
     go_seq (go_upd (\<lambda>s. s\<lparr>kv := InitUserMap\<rparr>))
    (go_bind (SubUserState replies) (\<lambda>r. case r of
       None \<Rightarrow> go_lift None
     | Some notifyUserState \<Rightarrow>
         go_bind (\<lambda>s. case LoadUsers H keys hkeys s of (ok, s) \<Rightarrow> (Ret ok, s)) (\<lambda>ok.
         if ok then handleOnlineEvent H notifyUserState else go_lift None)))"

section \<open>What is loaded\<close>

lemma state_loop_messages: "state_loop (map Message ds @ rs) = ds @ state_loop rs"
  by (induction ds) simp_all

lemma hostName_HostUsers [simp]: "hostName (HostUsers h) = h"
  by (simp add: hostName_def HostUsers_def HostPrefix_def has_prefix_def)

context host_lists
begin

lemma host_list_Load:
  assumes "user_wf s" and "distinct us"
  shows "user_wf (Load H (map FormatInt us) h s)
    \<and> host_list H (Load H (map FormatInt us) h s) u = (if u \<in> set us then [h] else []) @ host_list H s u"
  using assms
proof (induction us arbitrary: s)
  case (Cons v us)
  let ?s = "kv_set v (snd (hl_PushFront H h (kv_or_new H s v))) s"
  have "host_list H ?s u = (if u = v then h # host_list H s u else host_list H s u)"
    using hosts_Load1 [OF Cons.prems(1), of v h] by (simp add: host_list_def)
  then show ?case
    using Cons.IH [of ?s] Cons.prems by (auto simp: Let_def)
qed simp

lemma host_list_GetAllUsers:
  assumes "user_wf s" and "\<forall>h \<in> set hs. hkeys (HostUsers h) = Some (map FormatInt (us h)) \<and> distinct (us h)"
  shows "user_wf (GetAllUsers H hkeys (map HostUsers hs) s)
    \<and> host_list H (GetAllUsers H hkeys (map HostUsers hs) s) u = rev (filter (\<lambda>h. u \<in> set (us h)) hs) @ host_list H s u"
  using assms
proof (induction hs arbitrary: s)
  case (Cons h hs)
  let ?s = "Load H (map FormatInt (us h)) h s"
  have "user_wf ?s" "host_list H ?s u = (if u \<in> set (us h) then [h] else []) @ host_list H s u"
    using host_list_Load [OF Cons.prems(1), of "us h" h u] Cons.prems(2) by auto
  then show ?case using Cons.IH [of ?s] Cons.prems by simp
qed simp

lemma users_inv_lists: "user_wf s \<Longrightarrow> (\<And>u. distinct (host_list H s u)) \<Longrightarrow> users_inv H s"
  unfolding users_inv_def host_list_def by (metis option.simps(5))

end

text \<open>Once everything published has been handled, the table agrees with the counters.\<close>

lemma bus_start_agrees:
  assumes H: "hlist H" and R: "comet_redis R" and "distinct hs" and "0 < n"
    and keys: "\<forall>h \<in> set hs. hkeys (HostUsers h) = Some (map FormatInt (us h)) \<and> distinct (us h) \<and> set (us h) = {u. 0 < conns R r u h}"
    and nonneg: "\<And>u h. 0 \<le> conns R r u h" and others: "\<And>u h. h \<notin> set hs \<Longrightarrow> conns R r u h = 0" and ops: "ops_ok R ops r"
  shows "\<exists>ns s'. notices_of R (fold (comet_step R) ops r) = notices_of R r @ ns
    \<and> bus_start H (Subscription n # map Message ns) (Some (map HostUsers hs)) hkeys s = (Ret (), s')
    \<and> comet_redis.agrees R H (fold (comet_step R) ops r) s'"
proof -
  let ?s = "s\<lparr>kv := InitUserMap\<rparr>" and ?load = "GetAllUsers H hkeys (map HostUsers hs)"
  have init: "user_wf ?s" "host_list H ?s u = []" for u
    using user_wf_init [of ?s H] by (simp_all add: host_list_def)
  have load: "user_wf (?load ?s)" "host_list H (?load ?s) u = rev (filter (\<lambda>h. u \<in> set (us h)) hs)" for u
    using host_lists.host_list_GetAllUsers [OF host_lists.intro [OF H] init(1), of hs hkeys us u] keys init(2) by auto
  have "users_inv H (?load ?s)"
    using host_lists.users_inv_lists [OF host_lists.intro [OF H] load(1)] assms(3) by (simp add: load(2))
  moreover have "h \<in> online_at H (?load ?s) u \<longleftrightarrow> 0 < conns R r u h" for u h
    using keys others [of h u] by (auto simp: online_at_def load(2)) fastforce
  ultimately have "comet_redis.agrees R H r (?load ?s)"
    using nonneg by (simp add: comet_redis.agrees_def [OF R])
  from comet_redis.run_agrees [OF R H this ops] obtain evs
    where evs: "notices_of R (fold (comet_step R) ops r) = notices_of R r @ map notice_text evs" "\<forall>ev \<in> set evs. notice_ok ev"
      and ag: "comet_redis.agrees R H (fold (comet_step R) ops r) (fold (apply_notice H) evs (?load ?s))"
    by blast
  have "bus_start H (Subscription n # map Message (map notice_text evs)) (Some (map HostUsers hs)) hkeys s = (Ret (), fold (apply_notice H) evs (?load ?s))"
    using assms(4) handle_notices [OF evs(2)] state_loop_messages [of "map notice_text evs" "[]"]
    by (simp add: bus_start_def SubUserState_def LoadUsers_def go_monad)
  then show ?thesis using evs(1) ag by blast
qed

section \<open>Property\<close>

text \<open>C2: A bus knows where everybody is, whenever it is started: let it subscribe, load the users redis lists with open connections, and then let the
  comets connect and disconnect users and restart in any order; when the bus has handled everything they published since, it lists a
  user at a host exactly when the host has at least one connection of that user open.\<close>

theorem bus_start_follows_counters:
  assumes H: "hlist H" and R: "comet_redis R" and "distinct hs" and "0 < n"
    and keys: "\<forall>h \<in> set hs. hkeys (HostUsers h) = Some (map FormatInt (us h)) \<and> distinct (us h) \<and> set (us h) = {u. 0 < conns R r u h}"
    and nonneg: "\<And>u h. 0 \<le> conns R r u h" and others: "\<And>u h. h \<notin> set hs \<Longrightarrow> conns R r u h = 0" and ops: "ops_ok R ops r"
  shows "\<exists>ns s'. notices_of R (fold (comet_step R) ops r) = notices_of R r @ ns
    \<and> bus_start H (Subscription n # map Message ns) (Some (map HostUsers hs)) hkeys s = (Ret (), s')
    \<and> (\<forall>u h. h \<in> online_at H s' u \<longleftrightarrow> 0 < conns R (fold (comet_step R) ops r) u h)"
  using bus_start_agrees [OF assms, of s] by (auto simp: comet_redis.agrees_def [OF R])

theorem bus_start_follows_counters_witness:
  "\<exists>ns s'. notices_of plain_redis (fold (comet_step plain_redis) [Connect 18 ''b'', Disconnect 17 ''a''] (comet_step plain_redis (Connect 17 ''a'') empty_store))
      = notices_of plain_redis (comet_step plain_redis (Connect 17 ''a'') empty_store) @ ns
    \<and> bus_start (plain_hlist True) (Subscription 1 # map Message ns) (Some [HostUsers ''a'']) (\<lambda>_. Some [FormatInt 17]) empty_bus = (Ret (), s')
    \<and> (\<forall>u h. h \<in> online_at (plain_hlist True) s' u \<longleftrightarrow> u = 18 \<and> h = ''b'')"
proof -
  let ?r = "comet_step plain_redis (Connect 17 ''a'') empty_store"
  have zero: "conns plain_redis empty_store u h = 0" for u h
    by (simp add: plain_redis_def empty_store_def)
  have one: "conns plain_redis ?r u h = (if u = 17 \<and> h = ''a'' then 1 else 0)" for u h
    using zero by (simp add: plain_comets.comet_step_count del: comet_step.simps)
  have last: "conns plain_redis (fold (comet_step plain_redis) [Connect 18 ''b'', Disconnect 17 ''a''] ?r) u h = (if u = 18 \<and> h = ''b'' then 1 else 0)" for u h
    using one [of h u] by (simp add: plain_comets.comet_step_count del: comet_step.simps)
  have ops: "ops_ok plain_redis [Connect 18 ''b'', Disconnect 17 ''a''] ?r"
    using one by (simp add: plain_comets.comet_step_count del: comet_step.simps)
  have "\<exists>ns s'. notices_of plain_redis (fold (comet_step plain_redis) [Connect 18 ''b'', Disconnect 17 ''a''] ?r) = notices_of plain_redis ?r @ ns
    \<and> bus_start (plain_hlist True) (Subscription 1 # map Message ns) (Some (map HostUsers [''a''])) (\<lambda>_. Some [FormatInt 17]) empty_bus = (Ret (), s')
    \<and> (\<forall>u h. h \<in> online_at (plain_hlist True) s' u \<longleftrightarrow> 0 < conns plain_redis (fold (comet_step plain_redis) [Connect 18 ''b'', Disconnect 17 ''a''] ?r) u h)"
    by (rule bus_start_follows_counters [OF plain.hlist_axioms plain_comets.comet_redis_axioms, where us = "\<lambda>_. [17]"])
       (use ops in \<open>simp_all add: one del: comet_step.simps\<close>)
  then show ?thesis by (auto simp: last simp del: comet_step.simps fold.simps)
qed

end
