(* ===== verification/BusServer.thy ===== *)
theory BusServer
  imports BusHandler
begin

text \<open>
  The bus's side of a comet connection (\<^verbatim>\<open>msgbus/server.go\<close>): the login byte, the loop that reads
  length-prefixed messages into a buffer used again for every message, and the clean-up.  The input
  of a connection is the list of all bytes received before it is closed; a read that would go beyond
  its end fails.
\<close>

section \<open>A connection\<close>

definition INIT_MAX :: nat where "INIT_MAX = 1024"
definition PAYLOAD_MAX :: nat where "PAYLOAD_MAX = 32 * 1024"

text \<open>The loop of \<^verbatim>\<open>handleClient\<close>.  \<open>buf\<close> is the buffer; it grows to the largest message accepted
  so far.\<close>

function client_loop ::
  "('e, 'h) hosts_ops \<Rightarrow> ('f, i64, 'j) hlist_ops \<Rightarrow> bus_env \<Rightarrow> byte list \<Rightarrow> byte list \<Rightarrow> ('h bus, unit) go" where
  "client_loop H J env buf input =
     (if length input < 4 then go_ret ()
      else
        let size = frame_size input; input = drop 4 input
        in if length buf < size \<and> PAYLOAD_MAX < size then
             (if length input < size then go_ret () else client_loop H J env buf (drop size input))
           else
             let buf = (if length buf < size then replicate size 0 else buf)
             in if length input < size then go_ret ()
                else go_seq (MainHandle H J env (mk_slice (take size input) (drop size buf)))
                       (client_loop H J env (take size input @ drop size buf) (drop size input)))"
  by pat_completeness auto

termination
  by (relation "measure (\<lambda>(H, J, env, buf, input). length input)") auto

declare client_loop.simps [simp del]

definition comet_type :: "byte \<Rightarrow> CometType option" where
  "comet_type b = (if b = 0 then Some CometWs else if b = 1 then Some CometUdp else None)"

definition login :: "bus_env \<Rightarrow> conn_id \<Rightarrow> byte list \<Rightarrow> ('h bus, (CometType \<times> byte list) option) go" where
  "login env c input = (case input of
     [] \<Rightarrow> go_ret None
   | b # rest \<Rightarrow> (case comet_type b of
       None \<Rightarrow> go_ret None
     | Some t \<Rightarrow> go_bind (conn_Write env c [b]) (\<lambda>ok. go_ret (if ok then Some (t, rest) else None))))"

definition handleClient ::
  "('e, 'h) hosts_ops \<Rightarrow> ('f, i64, 'j) hlist_ops \<Rightarrow> bus_env \<Rightarrow> string \<Rightarrow> conn_id \<Rightarrow> byte list \<Rightarrow> ('h bus, unit) go" where
  "handleClient H J env ip c input = go_bind (login env c input) (\<lambda>r. case r of
     None \<Rightarrow> go_ret ()
   | Some (t, rest) \<Rightarrow>
       go_seq (AddServer ip c t)
         (go_seq (client_loop H J env (replicate INIT_MAX 0) rest) (HandleClose ip)))"

section \<open>Reading back what was framed\<close>

lemma client_loop_skip:
  assumes "length msg < 2 ^ 32" and "PAYLOAD_MAX < length msg" and "length buf \<le> PAYLOAD_MAX"
  shows "client_loop H J env buf (framed msg @ rest) = client_loop H J env buf rest"
  using assms drop_4_framed [of msg rest]
  by (subst client_loop.simps) (simp add: le_word_4_framed)

lemma client_loop_deliver:
  assumes "length msg \<le> PAYLOAD_MAX"
  shows "\<exists>buf' stale. length buf' = max (length buf) (length msg)
    \<and> client_loop H J env buf (framed msg @ rest) =
      go_seq (MainHandle H J env (mk_slice msg stale)) (client_loop H J env buf' rest)"
proof -
  let ?b = "if length buf < length msg then replicate (length msg) 0 else buf"
  have "length msg < 2 ^ 32" using assms by (simp add: PAYLOAD_MAX_def)
  then have "client_loop H J env buf (framed msg @ rest) =
      go_seq (MainHandle H J env (mk_slice msg (drop (length msg) ?b))) (client_loop H J env (msg @ drop (length msg) ?b) rest)"
    using assms drop_4_framed [of msg rest] by (subst client_loop.simps) (simp add: le_word_4_framed Let_def)
  moreover have "length (msg @ drop (length msg) ?b) = max (length buf) (length msg)"
    by simp
  ultimately show ?thesis by blast
qed

text \<open>C12: The bus handles exactly the messages a comet has framed, in order: on a connection that
  received the frames of a list of messages followed by a rest too short to be a frame header, the
  loop calls \<open>MainHandle\<close> once for every message of at most 32 KiB, on a slice holding that message,
  skips the longer ones, and then ends.\<close>

theorem client_loop_frames:
  assumes "\<forall>m \<in> set ms. length m < 2 ^ 32" and "length buf \<le> PAYLOAD_MAX" and "length tail < 4"
  shows "\<exists>slices. map sl_bytes slices = filter (\<lambda>m. length m \<le> PAYLOAD_MAX) ms
    \<and> client_loop H J env buf (concat (map framed ms) @ tail) = go_each (MainHandle H J env) slices"
  using assms(1,2)
proof (induction ms arbitrary: buf)
  case Nil
  then show ?case using assms(3) by (simp add: client_loop.simps)
next
  case (Cons m ms)
  show ?case
  proof (cases "length m \<le> PAYLOAD_MAX")
    case False
    then show ?thesis
      using Cons client_loop_skip [of m buf H J env] by simp
  next
    case True
    from client_loop_deliver [OF this, of buf H J env "concat (map framed ms) @ tail"]
    obtain buf' stale where buf': "length buf' = max (length buf) (length m)"
      and eq: "client_loop H J env buf (framed m @ concat (map framed ms) @ tail) =
        go_seq (MainHandle H J env (mk_slice m stale)) (client_loop H J env buf' (concat (map framed ms) @ tail))"
      by blast
    have "length buf' \<le> PAYLOAD_MAX" using buf' True Cons.prems(2) by simp
    with Cons obtain slices where "map sl_bytes slices = filter (\<lambda>m. length m \<le> PAYLOAD_MAX) ms"
      and "client_loop H J env buf' (concat (map framed ms) @ tail) = go_each (MainHandle H J env) slices"
      by (metis list.set_intros(2))
    then show ?thesis
      using True eq by (intro exI [of _ "mk_slice m stale # slices"]) simp
  qed
qed

theorem client_loop_frames_witness:
  "\<exists>slices. map sl_bytes slices = [[1, 2], [3]]
    \<and> client_loop (plain_hlist True) (plain_hlist True) sample_env (replicate 8 0) (framed [1, 2] @ framed [3] @ [0]) = go_each (MainHandle (plain_hlist True) (plain_hlist True) sample_env) slices"
  using client_loop_frames [of "[[1, 2], [3]]" "replicate 8 0" "[0]" "plain_hlist True" "plain_hlist True" sample_env] by (simp add: PAYLOAD_MAX_def)

text \<open>A comet that does not log in with the byte of a comet type leaves no trace: no server is
  registered and nothing is written.\<close>

theorem handleClient_rejects:
  assumes "input = [] \<or> 1 < hd input"
  shows "handleClient H J env ip c input s = (Ret (), s)"
proof -
  have "comet_type b = None" if "1 < b" for b
    using that by (auto simp: comet_type_def)
  then show ?thesis
    using assms by (cases input) (auto simp: handleClient_def login_def go_monad)
qed

theorem handleClient_rejects_witness:
  "handleClient (plain_hlist True) (plain_hlist True) sample_env ''10.0.0.2'' 7 [7, 1, 2] sample_bus = (Ret (), sample_bus)"
  by (rule handleClient_rejects) simp

end
