(* ===== verification/BusListener.thy ===== *)
theory BusListener
  imports BusServer
begin

text \<open>
  The listener of a message bus (\<^verbatim>\<open>msgbus/server.go\<close>, \<^verbatim>\<open>msgbus/tcp_server.go\<close>): starting it, the goroutine that accepts comets, a goroutine for
  every comet, and stopping.  A comet's goroutine is run to its end in one step, with all it will receive.
\<close>

section \<open>State and operations\<close>

datatype listener = NoListener | Open | Closed

record 'h server =
  ln :: listener
  accepting :: bool
  live :: "(conn_id \<times> string) list"
  wg :: int
  server_bus :: "'h bus"

definition NewServer :: "'h bus \<Rightarrow> 'h server" where
  "NewServer b = \<lparr>ln = NoListener, accepting = False, live = [], wg = 0, server_bus = b\<rparr>"

text \<open>The results: no error, the error that the server has started, and the end of the program when the address cannot be resolved or listened on.\<close>

datatype start_result = Started | HasStarted | StartFatal

definition buildListener :: "bool \<Rightarrow> 'h server \<Rightarrow> start_result \<times> 'h server" where
  "buildListener opened s =
     (if ln s \<noteq> NoListener then (HasStarted, s)
      else if \<not> opened then (StartFatal, s)
      else (Started, s\<lparr>ln := Open\<rparr>))"

definition closeListener :: "'h server \<Rightarrow> 'h server" where
  "closeListener s = (if ln s \<noteq> NoListener then s\<lparr>ln := Closed\<rparr> else s)"

definition Start :: "bool \<Rightarrow> 'h server \<Rightarrow> start_result \<times> 'h server" where
  "Start opened s = (case buildListener opened s of
     (Started, s) \<Rightarrow> (Started, s\<lparr>wg := wg s + 1, accepting := True\<rparr>)
   | r \<Rightarrow> r)"

definition Stop :: "'h server \<Rightarrow> 'h server" where
  "Stop s = closeListener s"

text \<open>One round of \<^verbatim>\<open>listen\<close>: an accepted connection, or an error, which is the only outcome on a closed listener.\<close>

definition listen_round :: "(conn_id \<times> string) option \<Rightarrow> 'h server \<Rightarrow> 'h server" where
  "listen_round r s = (case r of
     None \<Rightarrow> s\<lparr>accepting := False, wg := wg s - 1\<rparr>
   | Some c \<Rightarrow> s\<lparr>wg := wg s + 1, live := c # live s\<rparr>)"

definition client_run ::
  "('e, 'h) hosts_ops \<Rightarrow> ('f, i64, 'j) hlist_ops \<Rightarrow> bus_env \<Rightarrow> conn_id \<times> string \<Rightarrow> byte list \<Rightarrow> 'h server \<Rightarrow> 'h server option" where
  "client_run H J env c input s = (case handleClient H J env (snd c) (fst c) input (server_bus s) of
     (Ret _, b) \<Rightarrow> Some (s\<lparr>server_bus := b, live := remove1 c (live s), wg := wg s - 1\<rparr>)
   | _ \<Rightarrow> None)"

inductive server_step :: "('e, 'h) hosts_ops \<Rightarrow> ('f, i64, 'j) hlist_ops \<Rightarrow> bus_env \<Rightarrow> 'h server \<Rightarrow> 'h server \<Rightarrow> bool"
  for H J env where
  start: "Start opened s = (r, s') \<Longrightarrow> r \<noteq> StartFatal \<Longrightarrow> server_step H J env s s'"
| stop: "server_step H J env s (Stop s)"
| accept: "accepting s \<Longrightarrow> ln s = Open \<Longrightarrow> c \<notin> set (live s) \<Longrightarrow> server_step H J env s (listen_round (Some c) s)"
| accept_error: "accepting s \<Longrightarrow> server_step H J env s (listen_round None s)"
| client: "c \<in> set (live s) \<Longrightarrow> client_run H J env c input s = Some s' \<Longrightarrow> server_step H J env s s'"
| notice: "handleOnlineEvent H ds (server_bus s) = (Ret (), b) \<Longrightarrow> server_step H J env s (s\<lparr>server_bus := b\<rparr>)"

section \<open>Properties\<close>

definition server_ok :: "'h server \<Rightarrow> bool" where
  "server_ok s \<longleftrightarrow> wg s = int (length (live s)) + (if accepting s then 1 else 0) \<and> distinct (live s) \<and> (ln s = NoListener \<longrightarrow> \<not> accepting s)"

lemma server_step_ok: "server_step H J env s s' \<Longrightarrow> server_ok s \<Longrightarrow> server_ok s'"
proof (induction rule: server_step.induct)
  case (client c s input s')
  have "length (live s) = Suc (length (remove1 c (live s)))" using client(1) by (rule length_remove1_Suc)
  then show ?case
    using client by (auto simp: client_run_def server_ok_def distinct_remove1 split: prod.splits outcome.splits)
qed (auto simp: server_ok_def Start_def Stop_def closeListener_def buildListener_def listen_round_def split: prod.splits start_result.splits if_splits)

lemma gave_up_step:
  "server_step H J env s s' \<Longrightarrow> \<not> accepting s \<and> ln s \<noteq> NoListener \<Longrightarrow> \<not> accepting s' \<and> ln s' \<noteq> NoListener \<and> set (live s') \<subseteq> set (live s)"
proof (induction rule: server_step.induct)
  case (client c s input s')
  then show ?case using set_remove1_subset [of c "live s"] by (auto simp: client_run_def split: prod.splits outcome.splits)
qed (auto simp: Start_def Stop_def closeListener_def buildListener_def listen_round_def split: prod.splits start_result.splits if_splits)

text \<open>The counter of goroutines is exact: whatever comets connect and disconnect and whenever the bus is started and stopped, it is the number of comets that are
  being served plus one while the bus accepts comets; so it is never negative.\<close>

theorem server_wait_group:
  assumes "(server_step H J env)\<^sup>*\<^sup>* (NewServer b) s"
  shows "wg s = int (length (live s)) + (if accepting s then 1 else 0) \<and> 0 \<le> wg s \<and> distinct (live s)"
proof -
  have "server_ok s"
    using assms
  proof (induction rule: rtranclp_induct)
    case base
    show ?case by (simp add: server_ok_def NewServer_def)
  qed (rule server_step_ok)
  then show ?thesis by (simp add: server_ok_def)
qed

theorem server_wait_group_witness:
  "wg (listen_round (Some (7, ''10.0.0.2'')) (snd (Start True (NewServer sample_bus)))) = 2"
proof -
  let ?step = "server_step (plain_hlist True) (plain_hlist True) sample_env"
  let ?s = "snd (Start True (NewServer sample_bus))"
  have s: "Start True (NewServer sample_bus) = (Started, ?s)" "accepting ?s" "ln ?s = Open" "live ?s = []"
    by (simp_all add: Start_def buildListener_def NewServer_def)
  have "?step (NewServer sample_bus) ?s" using s(1) by (rule server_step.start) simp
  moreover have "?step ?s (listen_round (Some (7, ''10.0.0.2'')) ?s)" using s by (intro server_step.accept) simp_all
  ultimately have "?step\<^sup>*\<^sup>* (NewServer sample_bus) (listen_round (Some (7, ''10.0.0.2'')) ?s)" by (meson rtranclp.rtrancl_refl rtranclp.rtrancl_into_rtrancl)
  from server_wait_group [OF this] show ?thesis using s by (simp add: listen_round_def)
qed

text \<open>One failed accept is final: after the goroutine that accepts comets has met an error, of whatever kind, the bus accepts no comet any more, however long it
  runs, and cannot be started again.\<close>

theorem accept_error_final:
  assumes "accepting s" and "ln s \<noteq> NoListener" and "(server_step H J env)\<^sup>*\<^sup>* (listen_round None s) s'"
  shows "\<not> accepting s' \<and> set (live s') \<subseteq> set (live s) \<and> Start opened s' = (HasStarted, s')"
proof -
  have "\<not> accepting s' \<and> ln s' \<noteq> NoListener \<and> set (live s') \<subseteq> set (live s)"
    using assms(3)
  proof (induction rule: rtranclp_induct)
    case base
    then show ?case using assms(2) by (simp add: listen_round_def)
  next
    case (step y z)
    then show ?case using gave_up_step [OF step(2)] by blast
  qed
  then show ?thesis by (simp add: Start_def buildListener_def)
qed

theorem accept_error_final_witness:
  "let s = snd (Start True (NewServer sample_bus)) in \<not> accepting (listen_round None s) \<and> Start True (listen_round None s) = (HasStarted, listen_round None s)"
proof -
  have "accepting (snd (Start True (NewServer sample_bus)))" "ln (snd (Start True (NewServer sample_bus))) \<noteq> NoListener"
    by (simp_all add: Start_def buildListener_def NewServer_def)
  from accept_error_final [OF this rtranclp.rtrancl_refl] show ?thesis by (simp add: Let_def)
qed

end
