(* ===== verification/BusMan.thy ===== *)
theory BusMan
  imports Msgs Frames Hlist
begin

text \<open>
  The comet's connections to the message buses (\<^verbatim>\<open>comet/msgbus_man.go\<close>, the sending half of
  \<^verbatim>\<open>comet/msgbus.go\<close>): the list of connected buses, the one used next, and \<open>Push2Bus\<close>, which
  builds a frame and sends it round robin.

  The events of a comet are a trace, newest last.  The environment decides from the trace how a dial
  ends, whether a write succeeds, and what the clock shows.  \<open>GMsgBusManager\<close> is a component of the
  comet's state; its operations hold its mutex and are atomic (\<open>Push2Bus\<close> reads \<^verbatim>\<open>curr\<close> before it
  takes the mutex; \<open>BusRace\<close> has the interleavings).
\<close>

section \<open>Events and environment of a comet\<close>

type_synonym bus_conn = nat
type_synonym ws_conn = nat

datatype comet_stat = CUpStreamIn | CUpStreamOut | CDownStreamIn | CDownStreamOut | CMsgbusConns | CConnTotal | CConnOnline

datatype comet_event =
    BusWrite bus_conn "byte list"
  | BusFail bus_conn
  | BusClose bus_conn
  | StartReciver nat
  | WsSend ws_conn "byte list"
  | WsFail ws_conn
  | WsClose ws_conn
  | UdpSend string "byte list"
  | HttpPost string string
  | CStatInc comet_stat
  | CStatDec comet_stat

text \<open>How \<^verbatim>\<open>Dail\<close> ends: no connection, a connection whose handshake fails, or a working one.\<close>

datatype dial = NoConn | BadLogin bus_conn | Connected bus_conn

record comet_env =
  bus_dial :: "comet_event list \<Rightarrow> string \<Rightarrow> dial"
  bus_ok :: "comet_event list \<Rightarrow> bus_conn \<Rightarrow> byte list \<Rightarrow> bool"
  peer :: "bus_conn \<Rightarrow> string"
  ws_ok :: "comet_event list \<Rightarrow> ws_conn \<Rightarrow> byte list \<Rightarrow> bool"
  clock :: "comet_event list \<Rightarrow> u64"
  verbose :: "nat \<Rightarrow> bool"

section \<open>State\<close>

text \<open>A server is an object compared by its address \<open>srv_ptr\<close>; none of its fields changes once it is
  in the list.\<close>

record MsgBusServer =
  srv_ptr :: nat
  remoteAddr :: string
  srv_conn :: "bus_conn option"

record ('e, 'h) busman =
  bm_list :: 'h
  bm_curr :: "'e option"
  bm_fresh :: nat
  trace :: "comet_event list"

type_synonym ('e, 'h) srv_ops = "('e, MsgBusServer, 'h) hlist_ops"

definition NewMsgBusManager :: "('e, 'h) srv_ops \<Rightarrow> ('e, 'h) busman" where
  "NewMsgBusManager B = \<lparr>bm_list = hl_New B, bm_curr = None, bm_fresh = 0, trace = []\<rparr>"

definition note_ev :: "comet_event \<Rightarrow> (('e, 'h, 'a) busman_scheme, unit) go" where
  "note_ev ev = go_upd (\<lambda>s. s\<lparr>trace := trace s @ [ev]\<rparr>)"

section \<open>Operations\<close>

text \<open>\<^verbatim>\<open>Dail\<close>: the connection the server ends up with and whether it returned no error.\<close>

definition Dail :: "comet_env \<Rightarrow> string \<Rightarrow> comet_event list \<Rightarrow> bus_conn option \<times> bool" where
  "Dail env addr tr = (case bus_dial env tr addr of
     NoConn \<Rightarrow> (None, False)
   | BadLogin c \<Rightarrow> (Some c, False)
   | Connected c \<Rightarrow> (Some c, True))"

text \<open>The search of \<open>Online\<close>: \<^verbatim>\<open>RemoteAddr()\<close> of a missing connection is nil, and \<^verbatim>\<open>String()\<close>
  on it panics.\<close>

fun find_addr :: "comet_env \<Rightarrow> string \<Rightarrow> MsgBusServer list \<Rightarrow> bool option" where
  "find_addr env addr [] = Some False"
| "find_addr env addr (srv # srvs) = (case srv_conn srv of
     None \<Rightarrow> None
   | Some c \<Rightarrow> if peer env c = addr then Some True else find_addr env addr srvs)"

definition Online :: "('e, 'h) srv_ops \<Rightarrow> comet_env \<Rightarrow> string \<Rightarrow> (('e, 'h, 'a) busman_scheme, unit) go" where
  "Online B env addr =
     go_bind (go_get (\<lambda>s. hl_vals B (bm_list s))) (\<lambda>srvs.
     go_bind (go_lift (find_addr env addr srvs)) (\<lambda>found.
     if found then go_ret ()
     else
       go_bind (go_get (\<lambda>s. (bm_fresh s, Dail env addr (trace s)))) (\<lambda>(p, c, ok).
       go_seq (if ok then note_ev (StartReciver p) else go_ret ()) (
       go_seq (go_upd (\<lambda>s.
         let (e, h) = hl_PushFront B \<lparr>srv_ptr = p, remoteAddr = addr, srv_conn = c\<rparr> (bm_list s)
         in s\<lparr>bm_list := h, bm_curr := Some e, bm_fresh := Suc p\<rparr>))
       (note_ev (CStatInc CMsgbusConns))))))"

text \<open>The loop of \<open>Offline\<close> stops at the server it removes.\<close>

fun find_ptr :: "('e, 'h) srv_ops \<Rightarrow> nat \<Rightarrow> 'e list \<Rightarrow> 'e option" where
  "find_ptr B p [] = None"
| "find_ptr B p (e # es) = (if srv_ptr (hl_Value B e) = p then Some e else find_ptr B p es)"

definition Offline :: "('e, 'h) srv_ops \<Rightarrow> nat \<Rightarrow> (('e, 'h, 'a) busman_scheme, unit) go" where
  "Offline B p = go_bind (go_get (\<lambda>s. find_ptr B p (hl_elems B (bm_list s)))) (\<lambda>r. case r of
     None \<Rightarrow> go_ret ()
   | Some e \<Rightarrow>
       go_seq (go_upd (\<lambda>s. s\<lparr>bm_list := hl_Remove B e (bm_list s)\<rparr>)) (
       go_seq (go_upd (\<lambda>s. if bm_curr s = Some e then s\<lparr>bm_curr := None\<rparr> else s))
         (note_ev (CStatDec CMsgbusConns))))"

definition onMsgBusCloseEvent :: "('e, 'h) srv_ops \<Rightarrow> nat \<Rightarrow> (('e, 'h, 'a) busman_scheme, unit) go" where
  "onMsgBusCloseEvent B p = Offline B p"

text \<open>\<open>Send\<close> writes the length and the message at once and closes the connection when that fails; on a
  missing connection both fail without a panic.\<close>

definition MsgBusServer_Send :: "comet_env \<Rightarrow> MsgBusServer \<Rightarrow> byte list \<Rightarrow> (('e, 'h, 'a) busman_scheme, unit) go" where
  "MsgBusServer_Send env srv msg =
     (let buf = le_bytes 4 (of_nat (length msg) :: u32) @ msg
      in case srv_conn srv of
           None \<Rightarrow> go_ret ()
         | Some c \<Rightarrow> go_bind (go_get trace) (\<lambda>tr.
             if bus_ok env tr c buf then note_ev (BusWrite c buf)
             else go_seq (note_ev (BusFail c)) (note_ev (BusClose c))))"

text \<open>The frame, with all sizes and offsets in \<^verbatim>\<open>uint16\<close>.\<close>

definition push_data :: "i64 \<Rightarrow> i64 list \<Rightarrow> byte list \<Rightarrow> byte list option" where
  "push_data srcId ids msg = do {
     let size = (of_nat (length ids) :: u16);
     let pushData = replicate (unat (8 + 2 + size * 8 + of_nat (length msg) :: u16)) 0;
     pushData \<leftarrow> Put 8 pushData 0 srcId;
     pushData \<leftarrow> Put 2 pushData 8 size;
     _ \<leftarrow> (if 10 \<le> unat (8 + 2 + size * 8) \<and> unat (8 + 2 + size * 8) \<le> length pushData then Some () else None);
     pushData \<leftarrow> put_ids16 10 pushData 0 (take (unat size) ids);
     copy_at pushData (unat (8 + 2 + size * 8)) msg
   }"

definition Push2Bus :: "('e, 'h) srv_ops \<Rightarrow> comet_env \<Rightarrow> i64 \<Rightarrow> i64 list \<Rightarrow> byte list \<Rightarrow> (('e, 'h, 'a) busman_scheme, unit) go" where
  "Push2Bus B env srcId ids msg =
     go_bind (go_lift (push_data srcId ids msg)) (\<lambda>pushData.
     go_bind (go_get bm_curr) (\<lambda>curr.
     go_seq
       (case curr of
          None \<Rightarrow> go_ret ()
        | Some e \<Rightarrow>
            go_seq (MsgBusServer_Send env (hl_Value B e) pushData)
              (go_upd (\<lambda>s. s\<lparr>bm_curr := (case hl_Next B (bm_list s) e of
                  Some e' \<Rightarrow> Some e'
                | None \<Rightarrow> hl_Front B (bm_list s))\<rparr>)))
       (note_ev (CStatInc CUpStreamOut))))"

text \<open>The status message about a board's new or lost users; both calls use one message object, whose
  body is replaced in between.  The body is always short enough to be marshalled.\<close>

definition status_body :: "byte \<Rightarrow> i64 \<Rightarrow> byte list option" where
  "status_body t i = (case MsgStatus_Marshal \<lparr>Type = t, Id = i, Payload = []\<rparr> of
     None \<Rightarrow> None | Some (Inl _) \<Rightarrow> Some [] | Some (Inr b) \<Rightarrow> Some b)"

definition status_msg :: "u32 \<Rightarrow> i64 \<Rightarrow> AppMsg" where
  "status_msg now i =
     (let m = NewMsg now [] None
      in m\<lparr>FrameHdr := (FrameHdr m)\<lparr>SrcId := i, Opcode := 2\<rparr>, DataHdr := (DataHdr m)\<lparr>MsgId := MIDStatus\<rparr>\<rparr>)"

definition notify :: "('e, 'h) srv_ops \<Rightarrow> comet_env \<Rightarrow> byte \<Rightarrow> i64 \<Rightarrow> i64 list \<Rightarrow> AppMsg \<Rightarrow> (('e, 'h, 'a) busman_scheme, AppMsg) go" where
  "notify B env t deviceId ids m =
     (if ids = [] then go_ret m
      else
        go_bind (go_lift (status_body t deviceId)) (\<lambda>body.
        go_bind (go_get (\<lambda>s. clock env (trace s))) (\<lambda>now.
        go_bind (go_lift (MarshalBytes (ucast now) (m\<lparr>Data := body\<rparr>))) (\<lambda>(m, bytes).
        go_seq (Push2Bus B env 0 ids bytes) (go_ret m)))))"

definition NotifyBindedIdChanged ::
  "('e, 'h) srv_ops \<Rightarrow> comet_env \<Rightarrow> i64 \<Rightarrow> i64 list \<Rightarrow> i64 list \<Rightarrow> (('e, 'h, 'a) busman_scheme, unit) go" where
  "NotifyBindedIdChanged B env deviceId newBindIds unbindIds =
     go_bind (go_get (\<lambda>s. clock env (trace s))) (\<lambda>now.
     go_bind (notify B env MSTBinded deviceId newBindIds (status_msg (ucast now) deviceId)) (\<lambda>m.
     go_bind (notify B env MSTUnbinded deviceId unbindIds m) (\<lambda>_. go_ret ())))"

section \<open>The frame\<close>

lemma replicate_16: "replicate (10 + n) (0::byte) = replicate 8 0 @ replicate 2 0 @ replicate n 0"
proof -
  have "10 + n = 8 + (2 + n)" by simp
  then show ?thesis by (simp only: replicate_add)
qed

lemma push_data_exact:
  assumes "frame_fits ids msg"
  shows "push_data srcId ids msg = Some (bus_frame srcId ids msg)"
proof -
  let ?n = "length ids" and ?z = "replicate (8 * length ids + length msg) (0 :: byte)"
  have sizes: "unat (10 + of_nat ?n * 8 + of_nat (length msg) :: u16) = 10 + (8 * ?n + length msg)"
    "unat (10 + of_nat ?n * 8 :: u16) = 10 + 8 * ?n" "unat (of_nat ?n :: u16) = ?n"
    using unat_u16_exact [of 10 ?n "length msg"] unat_u16_exact [of 10 ?n 0] assms
    by (simp_all add: frame_fits_def)
  have "Put 8 (replicate (10 + (8 * ?n + length msg)) 0) 0 srcId = Some (le_bytes 8 srcId @ replicate 2 0 @ ?z)"
    by (simp add: Put_def overwrite_def replicate_16)
  moreover have "Put 2 (le_bytes 8 srcId @ replicate 2 0 @ ?z) 8 (of_nat ?n :: u16)
      = Some ((le_bytes 8 srcId @ le_bytes 2 (of_nat ?n :: u16)) @ ?z)"
    by (simp add: Put_def overwrite_def)
  moreover have "put_ids16 10 ((le_bytes 8 srcId @ le_bytes 2 (of_nat ?n :: u16)) @ ?z) 0 ids
      = Some ((le_bytes 8 srcId @ le_bytes 2 (of_nat ?n :: u16)) @ ids_bytes ids @ replicate (length msg) 0)"
    using assms by (subst put_ids16_exact) (simp_all add: frame_fits_def)
  ultimately show ?thesis
    by (simp add: push_data_def Let_def sizes copy_at_def overwrite_def bus_frame_def id_frame_def)
qed

section \<open>Invariant\<close>

text \<open>The current bus is one of the list, and the servers are different objects.\<close>

definition busman_wf :: "('e, 'h) srv_ops \<Rightarrow> ('e, 'h, 'a) busman_scheme \<Rightarrow> bool" where
  "busman_wf B s \<longleftrightarrow>
     (\<forall>e. bm_curr s = Some e \<longrightarrow> e \<in> set (hl_elems B (bm_list s)))
   \<and> distinct (map srv_ptr (hl_vals B (bm_list s)))
   \<and> (\<forall>v \<in> set (hl_vals B (bm_list s)). srv_ptr v < bm_fresh s)"

lemma busman_wf_trace [simp]: "busman_wf B (s\<lparr>trace := t\<rparr>) = busman_wf B s"
  by (simp add: busman_wf_def)

lemma note_ev_eq [simp]: "note_ev ev s = (Ret (), s\<lparr>trace := trace s @ [ev]\<rparr>)"
  by (simp add: note_ev_def go_monad)

text \<open>A loop whose iterations only append events appends them all.\<close>

lemma go_each_events:
  assumes "\<And>a t. a \<in> set as \<Longrightarrow> f a (s\<lparr>trace := t\<rparr>) = (Ret (), s\<lparr>trace := t @ g a\<rparr>)"
  shows "go_each f as s = (Ret (), s\<lparr>trace := trace s @ concat (map g as)\<rparr>)"
proof -
  have "go_each f as (s\<lparr>trace := t\<rparr>) = (Ret (), s\<lparr>trace := t @ concat (map g as)\<rparr>)" for t
    using assms by (induction as arbitrary: t) (simp_all add: go_monad)
  from this [of "trace s"] show ?thesis by simp
qed

lemma go_fold_events:
  assumes step: "\<And>a m t. a \<in> set as \<Longrightarrow> Q m \<Longrightarrow> \<exists>m' es. f a m (s\<lparr>trace := t\<rparr>) = (Ret m', s\<lparr>trace := t @ es\<rparr>) \<and> Q m' \<and> R a es"
    and "Q m"
  shows "\<exists>m' ess. go_fold f as m (s\<lparr>trace := t\<rparr>) = (Ret m', s\<lparr>trace := t @ concat ess\<rparr>) \<and> Q m' \<and> list_all2 R as ess"
  using assms
proof (induction as arbitrary: m t)
  case Nil
  then show ?case by (auto simp: go_monad)
next
  case (Cons a as)
  from Cons.prems(1) [of a m t] Cons.prems(2) obtain m1 es
    where 1: "f a m (s\<lparr>trace := t\<rparr>) = (Ret m1, s\<lparr>trace := t @ es\<rparr>)" "Q m1" "R a es"
    by auto
  from Cons.IH [OF _ 1(2), of "t @ es"] Cons.prems(1) obtain m' ess
    where 2: "go_fold f as m1 (s\<lparr>trace := t @ es\<rparr>) = (Ret m', s\<lparr>trace := (t @ es) @ concat ess\<rparr>)" "Q m'" "list_all2 R as ess"
    by auto
  show ?case
    using 1 2 by (intro exI [of _ m'] exI [of _ "es # ess"]) (simp add: go_monad)
qed

lemma find_ptr_Some: "find_ptr B p es = Some e \<Longrightarrow> e \<in> set es \<and> srv_ptr (hl_Value B e) = p"
  by (induction es) (auto split: if_splits)

lemma find_ptr_None: "find_ptr B p es = None \<longleftrightarrow> (\<forall>e \<in> set es. srv_ptr (hl_Value B e) \<noteq> p)"
  by (induction es) auto

locale srv_lists = hlist B for B :: "('e, MsgBusServer, 'h) hlist_ops"
begin

lemma wf_new: "busman_wf B (NewMsgBusManager B)"
  by (simp add: busman_wf_def NewMsgBusManager_def)

lemma Online_eq:
  assumes "find_addr env addr (hl_vals B (bm_list s)) = Some False" and "Dail env addr (trace s) = (c, ok)"
  shows "\<exists>e h. hl_PushFront B \<lparr>srv_ptr = bm_fresh s, remoteAddr = addr, srv_conn = c\<rparr> (bm_list s) = (e, h)
    \<and> Online B env addr s = (Ret (), s\<lparr>bm_list := h, bm_curr := Some e, bm_fresh := Suc (bm_fresh s),
        trace := trace s @ (if ok then [StartReciver (bm_fresh s)] else []) @ [CStatInc CMsgbusConns]\<rparr>)"
  using assms
  by (cases "hl_PushFront B \<lparr>srv_ptr = bm_fresh s, remoteAddr = addr, srv_conn = c\<rparr> (bm_list s)")
     (auto simp: Online_def go_monad)

lemma wf_Online: "busman_wf B s \<Longrightarrow> busman_wf B (snd (Online B env addr s))"
proof (cases "find_addr env addr (hl_vals B (bm_list s)) = Some False")
  case True
  assume wf: "busman_wf B s"
  obtain c ok where "Dail env addr (trace s) = (c, ok)" by fastforce
  from Online_eq [OF True this] obtain e h
    where push: "hl_PushFront B \<lparr>srv_ptr = bm_fresh s, remoteAddr = addr, srv_conn = c\<rparr> (bm_list s) = (e, h)"
      and eq: "Online B env addr s = (Ret (), s\<lparr>bm_list := h, bm_curr := Some e, bm_fresh := Suc (bm_fresh s),
        trace := trace s @ (if ok then [StartReciver (bm_fresh s)] else []) @ [CStatInc CMsgbusConns]\<rparr>)"
    by blast
  have "hl_vals B h = \<lparr>srv_ptr = bm_fresh s, remoteAddr = addr, srv_conn = c\<rparr> # hl_vals B (bm_list s)"
    using vals_PushFront push by (metis snd_conv)
  then show ?thesis
    using wf elems_PushFront [OF push] unfolding eq by (auto simp: busman_wf_def less_Suc_eq)
next
  case False
  then show "busman_wf B s \<Longrightarrow> ?thesis"
    by (auto simp: Online_def go_monad split: option.splits)
qed

lemma wf_Offline: "busman_wf B s \<Longrightarrow> busman_wf B (snd (Offline B p s))"
proof (cases "find_ptr B p (hl_elems B (bm_list s))")
  case None
  then show "busman_wf B s \<Longrightarrow> ?thesis" by (simp add: Offline_def go_monad)
next
  case (Some e)
  assume wf: "busman_wf B s"
  have e: "e \<in> set (hl_elems B (bm_list s))" using find_ptr_Some [OF Some] by simp
  then have "set (hl_elems B (hl_Remove B e (bm_list s))) = set (hl_elems B (bm_list s)) - {e}"
    by (simp add: set_remove1_eq)
  moreover have "distinct (map srv_ptr (hl_vals B (hl_Remove B e (bm_list s))))"
    using wf e by (auto simp: busman_wf_def hl_vals_def distinct_map set_remove1_eq inj_on_diff intro: inj_on_subset distinct_remove1)
  ultimately show ?thesis
    using wf Some by (auto simp: Offline_def go_monad busman_wf_def hl_vals_def)
qed

end

interpretation plain_srvs: srv_lists "plain_hlist r"
  by unfold_locales

section \<open>Sending\<close>

text \<open>Every server of the list has a connection and every write succeeds.\<close>

definition buses_up :: "('e, 'h) srv_ops \<Rightarrow> comet_env \<Rightarrow> 'h \<Rightarrow> bool" where
  "buses_up B env h \<longleftrightarrow> (\<forall>v \<in> set (hl_vals B h). srv_conn v \<noteq> None) \<and> (\<forall>tr c bs. bus_ok env tr c bs)"

definition nth_conn :: "('e, 'h) srv_ops \<Rightarrow> 'h \<Rightarrow> nat \<Rightarrow> bus_conn" where
  "nth_conn B h i = the (srv_conn (hl_Value B (hl_elems B h ! i)))"

context srv_lists
begin

lemma Push2Bus_nth:
  assumes "i < length (hl_elems B (bm_list s))" and "bm_curr s = Some (hl_elems B (bm_list s) ! i)"
    and "buses_up B env (bm_list s)" and "frame_fits ids msg"
  shows "Push2Bus B env src ids msg s =
    (Ret (), s\<lparr>bm_curr := Some (hl_elems B (bm_list s) ! (Suc i mod length (hl_elems B (bm_list s)))),
      trace := trace s @ [BusWrite (nth_conn B (bm_list s) i) (framed (bus_frame src ids msg)), CStatInc CUpStreamOut]\<rparr>)"
proof -
  have "hl_Value B (hl_elems B (bm_list s) ! i) \<in> set (hl_vals B (bm_list s))"
    using assms(1) by (simp add: hl_vals_def)
  then obtain c where "srv_conn (hl_Value B (hl_elems B (bm_list s) ! i)) = Some c"
    using assms(3) by (auto simp: buses_up_def)
  then show ?thesis
    using assms next_or_front [OF elems_distinct assms(1)]
    by (simp add: Push2Bus_def push_data_exact MsgBusServer_Send_def go_monad buses_up_def nth_conn_def framed_def Let_def cong: option.case_cong)
qed

end

lemma push_all_dropped:
  assumes "\<forall>(src, ids, msg) \<in> set ms. frame_fits ids msg" and "bm_curr t = None"
  shows "go_each (\<lambda>(src, ids, msg). Push2Bus B env src ids msg) ms t
    = (Ret (), t\<lparr>trace := trace t @ replicate (length ms) (CStatInc CUpStreamOut)\<rparr>)"
  using assms by (induction ms arbitrary: t) (auto simp: go_monad Push2Bus_def push_data_exact)

section \<open>Properties\<close>

text \<open>As long as the 16-bit sizes suffice, the frame \<open>Push2Bus\<close> builds is the sender's id, the
  number of ids, the ids and the message.\<close>

theorem push_data_spec:
  assumes "frame_fits ids msg"
  shows "push_data srcId ids msg =
    Some (le_bytes 8 srcId @ le_bytes 2 (of_nat (length ids) :: u16) @ concat (map (le_bytes 8) ids) @ msg)"
  using push_data_exact [OF assms] by (simp add: bus_frame_def id_frame_def ids_bytes_def)

theorem push_data_spec_witness:
  "push_data 33 [17, - 9] [2, 0] =
    Some (le_bytes 8 (33 :: i64) @ le_bytes 2 (2 :: u16) @ (le_bytes 8 (17 :: i64) @ le_bytes 8 (- 9 :: i64)) @ [2, 0])"
  using push_data_spec [of "[17, - 9]" "[2, 0]" 33] by (simp add: frame_fits_def)

text \<open>A message whose frame is just too long for the 16-bit size crashes the comet: the size wraps
  around to less than the header and the ids need.\<close>

theorem push_data_overflow_panics:
  assumes "2 ^ 16 \<le> 10 + 8 * length ids + length msg" and "length msg < 2 ^ 16" and "10 + 8 * length ids < 2 ^ 16"
  shows "Push2Bus B env srcId ids msg s = (Panic, s)"
proof -
  let ?n = "10 + 8 * length ids + length msg - 2 ^ 16"
  have "(10 + of_nat (length ids) * 8 + of_nat (length msg) :: u16) = of_nat (10 + 8 * length ids + length msg)"
    by simp
  then have n: "unat (10 + of_nat (length ids) * 8 + of_nat (length msg) :: u16) = ?n"
    using assms by (simp only: unat_of_nat take_bit_eq_mod) (simp add: mod_if)
  have "unat (10 + of_nat (length ids) * 8 :: u16) = 10 + 8 * length ids"
    using unat_u16_exact [of 10 "length ids" 0] assms(3) by simp
  moreover have "?n < 10 + 8 * length ids"
    using assms by simp
  ultimately have "push_data srcId ids msg = None"
    using n by (auto simp: push_data_def Let_def Put_def)
  then show ?thesis
    by (simp add: Push2Bus_def go_monad)
qed

definition sample_cenv :: comet_env where
  "sample_cenv = \<lparr>bus_dial = \<lambda>_ _. Connected 4, bus_ok = \<lambda>_ _ _. True, peer = \<lambda>_. ''10.0.0.9:9923'',
     ws_ok = \<lambda>_ _ _. True, clock = \<lambda>_. 1500000000, verbose = \<lambda>_. True\<rparr>"

definition sample_man :: "(nat \<times> MsgBusServer, (nat \<times> MsgBusServer) list) busman" where
  "sample_man = snd (Online (plain_hlist True) sample_cenv ''10.0.0.9:9923'' (NewMsgBusManager (plain_hlist True)))"

lemma sample_man_eq:
  "sample_man = (let e = (1, \<lparr>srv_ptr = 0, remoteAddr = ''10.0.0.9:9923'', srv_conn = Some 4\<rparr>)
     in \<lparr>bm_list = [e], bm_curr = Some e, bm_fresh = 1, trace = [StartReciver 0, CStatInc CMsgbusConns]\<rparr>)"
  by (simp add: sample_man_def Online_def NewMsgBusManager_def plain_hlist_def hl_vals_def sample_cenv_def Dail_def go_monad Let_def)

theorem push_data_overflow_panics_witness:
  "Push2Bus (plain_hlist True) sample_cenv 33 [17] (replicate 65530 0) sample_man = (Panic, sample_man)"
  by (rule push_data_overflow_panics) simp_all

text \<open>What a sequence of messages writes when the bus at position \<open>i\<close> is the first to be used.\<close>

definition turn_events :: "('e, 'h) srv_ops \<Rightarrow> 'h \<Rightarrow> nat \<Rightarrow> (i64 \<times> i64 list \<times> byte list) list \<Rightarrow> comet_event list" where
  "turn_events B h i ms = concat (map (\<lambda>j. case ms ! j of (src, ids, msg) \<Rightarrow>
     [BusWrite (nth_conn B h ((i + j) mod length (hl_elems B h))) (framed (bus_frame src ids msg)), CStatInc CUpStreamOut])
     [0..<length ms])"

lemma turn_events_snoc:
  "turn_events B h i (ms @ [(src, ids, msg)]) = turn_events B h i ms @
     [BusWrite (nth_conn B h ((i + length ms) mod length (hl_elems B h))) (framed (bus_frame src ids msg)), CStatInc CUpStreamOut]"
  unfolding turn_events_def
  by (simp, intro arg_cong [where f = concat] map_cong) (simp_all add: nth_append)

text \<open>Messages are spread evenly: with \<open>n\<close> connected buses and the current one at position \<open>i\<close>, the
  \<open>j\<close>-th of a sequence of pushes is written, as one whole frame, to the bus at position \<open>i + j\<close>
  modulo \<open>n\<close>, and nothing is written elsewhere.\<close>

theorem Push2Bus_round_robin:
  assumes "hlist B" and "i < length (hl_elems B (bm_list s))" and "bm_curr s = Some (hl_elems B (bm_list s) ! i)"
    and "buses_up B env (bm_list s)" and "\<forall>(src, ids, msg) \<in> set ms. frame_fits ids msg"
  shows "go_each (\<lambda>(src, ids, msg). Push2Bus B env src ids msg) ms s =
    (Ret (), s\<lparr>bm_curr := Some (hl_elems B (bm_list s) ! ((i + length ms) mod length (hl_elems B (bm_list s)))),
      trace := trace s @ turn_events B (bm_list s) i ms\<rparr>)"
  using assms(5)
proof (induction ms rule: rev_induct)
  case Nil
  have "s\<lparr>bm_curr := bm_curr s, trace := trace s\<rparr> = s" by simp
  then show ?case using assms(2,3) by (simp add: go_monad turn_events_def)
next
  case (snoc m ms)
  let ?n = "length (hl_elems B (bm_list s))"
  obtain src ids msg where m: "m = (src, ids, msg)" by (cases m)
  have lt: "(i + length ms) mod ?n < ?n"
    using assms(2) by (intro mod_less_divisor) linarith
  have fits: "frame_fits ids msg" using snoc.prems m by simp
  note push = srv_lists.Push2Bus_nth [OF srv_lists.intro [OF assms(1)], where i = "(i + length ms) mod ?n" and env = env]
  show ?case
    using snoc assms(4) lt fits by (simp add: go_each_append go_monad m push turn_events_snoc mod_Suc_eq)
qed

theorem Push2Bus_round_robin_witness:
  "go_each (\<lambda>(src, ids, msg). Push2Bus (plain_hlist True) sample_cenv src ids msg) [(33, [17], [2]), (33, [- 9], [3])] sample_man =
    (Ret (), sample_man\<lparr>trace := trace sample_man @
       [BusWrite 4 (framed (bus_frame 33 [17] [2])), CStatInc CUpStreamOut,
        BusWrite 4 (framed (bus_frame 33 [- 9] [3])), CStatInc CUpStreamOut]\<rparr>)"
proof -
  have "hl_elems (plain_hlist True) (bm_list sample_man) = [(1, \<lparr>srv_ptr = 0, remoteAddr = ''10.0.0.9:9923'', srv_conn = Some 4\<rparr>)]"
    "bm_curr sample_man = Some (1, \<lparr>srv_ptr = 0, remoteAddr = ''10.0.0.9:9923'', srv_conn = Some 4\<rparr>)"
    by (simp_all add: sample_man_eq plain_hlist_def Let_def)
  then show ?thesis
    using Push2Bus_round_robin [OF plain.hlist_axioms, of 0 True sample_man sample_cenv "[(33, [17], [2]), (33, [- 9], [3])]"]
    by (simp add: buses_up_def frame_fits_def hl_vals_def nth_conn_def sample_cenv_def plain_hlist_def sample_man_eq Let_def turn_events_def)
qed

text \<open>When the bus whose turn it is goes offline, the comet drops every message until another bus comes
  online, even when other connected buses are in the list: pushing only counts the message.\<close>

theorem Offline_current_drops:
  assumes "hlist B" and "busman_wf B s" and "bm_curr s = Some e" and "srv_ptr (hl_Value B e) = p"
    and "\<forall>(src, ids, msg) \<in> set ms. frame_fits ids msg"
  shows "\<exists>s'. Offline B p s = (Ret (), s') \<and> bm_curr s' = None
    \<and> hl_elems B (bm_list s') = remove1 e (hl_elems B (bm_list s))
    \<and> go_each (\<lambda>(src, ids, msg). Push2Bus B env src ids msg) ms s'
      = (Ret (), s'\<lparr>trace := trace s' @ replicate (length ms) (CStatInc CUpStreamOut)\<rparr>)"
proof -
  have e: "e \<in> set (hl_elems B (bm_list s))"
    using assms(2,3) by (simp add: busman_wf_def)
  have inj: "inj_on (\<lambda>e. srv_ptr (hl_Value B e)) (set (hl_elems B (bm_list s)))"
    using assms(2) by (simp add: busman_wf_def hl_vals_def distinct_map comp_def)
  obtain e' where e': "find_ptr B p (hl_elems B (bm_list s)) = Some e'"
    using e assms(4) by (cases "find_ptr B p (hl_elems B (bm_list s))") (auto simp: find_ptr_None)
  from find_ptr_Some [OF this] have "e' = e"
    using inj e assms(4) by (auto dest: inj_onD)
  define s' where "s' = s\<lparr>bm_list := hl_Remove B e (bm_list s), bm_curr := None, trace := trace s @ [CStatDec CMsgbusConns]\<rparr>"
  have "Offline B p s = (Ret (), s')"
    using e' \<open>e' = e\<close> assms(3) by (simp add: Offline_def go_monad s'_def)
  moreover have "hl_elems B (bm_list s') = remove1 e (hl_elems B (bm_list s))"
    using hlist.elems_Remove [OF assms(1) e] by (simp add: s'_def)
  ultimately show ?thesis
    using push_all_dropped [OF assms(5), of s' B env] by (intro exI [of _ s']) (simp add: s'_def)
qed

theorem Offline_current_drops_witness:
  "\<exists>s'. Offline (plain_hlist True) 0 sample_man = (Ret (), s') \<and> bm_curr s' = None
    \<and> hl_elems (plain_hlist True) (bm_list s') = []
    \<and> go_each (\<lambda>(src, ids, msg). Push2Bus (plain_hlist True) sample_cenv src ids msg) [(33, [17], [2])] s'
      = (Ret (), s'\<lparr>trace := trace s' @ [CStatInc CUpStreamOut]\<rparr>)"
  using Offline_current_drops [OF plain.hlist_axioms, of True sample_man "(1, \<lparr>srv_ptr = 0, remoteAddr = ''10.0.0.9:9923'', srv_conn = Some 4\<rparr>)" 0
      "[(33, [17], [2])]" sample_cenv]
  by (simp add: sample_man_eq busman_wf_def plain_hlist_def hl_vals_def frame_fits_def Let_def)

text \<open>The operations other parts call on the bus list.\<close>

datatype man_op = OpOnline string | OpOffline nat | OpPush i64 "i64 list" "byte list"

fun man_step :: "('e, 'h) srv_ops \<Rightarrow> comet_env \<Rightarrow> man_op \<Rightarrow> (('e, 'h) busman, unit) go" where
  "man_step B env (OpOnline addr) = Online B env addr"
| "man_step B env (OpOffline p) = onMsgBusCloseEvent B p"
| "man_step B env (OpPush src ids msg) = Push2Bus B env src ids msg"

context srv_lists
begin

lemma wf_Push2Bus:
  assumes "busman_wf B s"
  shows "busman_wf B (snd (Push2Bus B env src ids msg s))"
proof (cases "push_data src ids msg")
  case None
  then show ?thesis using assms by (simp add: Push2Bus_def go_monad)
next
  case (Some bytes)
  show ?thesis
  proof (cases "bm_curr s")
    case None
    then show ?thesis using assms Some by (simp add: Push2Bus_def go_monad)
  next
    case (Some e)
    then obtain i where i: "i < length (hl_elems B (bm_list s))" "e = hl_elems B (bm_list s) ! i"
      using assms by (auto simp: busman_wf_def in_set_conv_nth)
    have send: "\<exists>es. MsgBusServer_Send env v bytes s = (Ret (), s\<lparr>trace := es\<rparr>)" for v
      by (cases "srv_conn v") (auto simp: MsgBusServer_Send_def go_monad Let_def intro: exI [of _ "trace s"])
    then obtain es where "MsgBusServer_Send env (hl_Value B e) bytes s = (Ret (), s\<lparr>trace := es\<rparr>)" by blast
    moreover have "hl_elems B (bm_list s) ! (Suc i mod length (hl_elems B (bm_list s))) \<in> set (hl_elems B (bm_list s))"
      using i(1) by (intro nth_mem mod_less_divisor) linarith
    ultimately show ?thesis
      using assms Some \<open>push_data src ids msg = Some bytes\<close> i next_or_front [OF elems_distinct i(1)]
      by (simp add: Push2Bus_def go_monad busman_wf_def cong: option.case_cong)
  qed
qed

lemma wf_man_step: "busman_wf B s \<Longrightarrow> busman_wf B (snd (man_step B env op s))"
  by (cases op) (simp_all add: wf_Online wf_Offline wf_Push2Bus onMsgBusCloseEvent_def)

end

text \<open>The bookkeeping of the bus list keeps its invariant: after any sequence of buses coming online,
  going offline and messages being pushed, the current bus, if any, is in the list, and the servers of
  the list are different objects.\<close>

theorem busman_invariant:
  assumes "hlist B"
  shows "busman_wf B (snd (go_each (man_step B env) ops (NewMsgBusManager B)))"
proof (rule go_each_invariant [where P = "busman_wf B"])
  show "busman_wf B (NewMsgBusManager B)"
    by (rule srv_lists.wf_new [OF srv_lists.intro [OF assms]])
qed (rule srv_lists.wf_man_step [OF srv_lists.intro [OF assms]])

theorem busman_invariant_witness:
  "busman_wf (plain_hlist True) (snd (go_each (man_step (plain_hlist True) sample_cenv)
     [OpOnline ''10.0.0.9:9923'', OpPush 33 [17] [2], OpOffline 0] (NewMsgBusManager (plain_hlist True))))"
  by (rule busman_invariant [OF plain.hlist_axioms])

text \<open>A bus that cannot be reached is put into the list all the same, without a connection, and the
  next bus announced to the comet makes it panic when it compares addresses.\<close>

theorem Online_unreachable_panics:
  assumes "hlist B" and "find_addr env addr (hl_vals B (bm_list s)) = Some False" and "bus_dial env (trace s) addr = NoConn"
  shows "\<exists>s'. Online B env addr s = (Ret (), s') \<and> Online B env addr' s' = (Panic, s')"
proof -
  have "Dail env addr (trace s) = (None, False)"
    using assms(3) by (simp add: Dail_def)
  from srv_lists.Online_eq [OF srv_lists.intro [OF assms(1)] assms(2) this] obtain e h
    where push: "hl_PushFront B \<lparr>srv_ptr = bm_fresh s, remoteAddr = addr, srv_conn = None\<rparr> (bm_list s) = (e, h)"
      and eq: "Online B env addr s = (Ret (), s\<lparr>bm_list := h, bm_curr := Some e, bm_fresh := Suc (bm_fresh s),
        trace := trace s @ [CStatInc CMsgbusConns]\<rparr>)"
    by auto
  have "hl_vals B h = \<lparr>srv_ptr = bm_fresh s, remoteAddr = addr, srv_conn = None\<rparr> # hl_vals B (bm_list s)"
    using hlist.vals_PushFront [OF assms(1)] push by (metis snd_conv)
  then show ?thesis
    unfolding eq by (simp add: Online_def go_monad)
qed

theorem Online_unreachable_panics_witness:
  "\<exists>s'. Online (plain_hlist True) (sample_cenv\<lparr>bus_dial := \<lambda>_ _. NoConn\<rparr>) ''10.0.0.8:9923'' (NewMsgBusManager (plain_hlist True)) = (Ret (), s')
    \<and> Online (plain_hlist True) (sample_cenv\<lparr>bus_dial := \<lambda>_ _. NoConn\<rparr>) ''10.0.0.9:9923'' s' = (Panic, s')"
  by (rule Online_unreachable_panics [OF plain.hlist_axioms])
     (simp_all add: NewMsgBusManager_def plain_hlist_def hl_vals_def)

end
