(* ===== verification/Status.thy ===== *)
theory Status
  imports BusMan Comets
begin

text \<open>
  The counters of both servers and the rates derived from them (\<^verbatim>\<open>comet/status.go\<close>, \<^verbatim>\<open>msgbus/status.go\<close>).  The package that stores
  the counters is not part of the repository: its operations are a parameter, with what is documented of them in the locale
  \<open>app_stat\<close>.  The counting calls of the servers are events of their models; here each is given its counter.
\<close>

section \<open>Counters\<close>

record 's stat_ops =
  st_Get :: "string \<Rightarrow> 's \<Rightarrow> u64"
  st_Set :: "string \<Rightarrow> u64 \<Rightarrow> 's \<Rightarrow> 's"
  st_Inc :: "string \<Rightarrow> 's \<Rightarrow> 's"
  st_Dec :: "string \<Rightarrow> 's \<Rightarrow> 's"

locale app_stat =
  fixes A :: "'s stat_ops"
  assumes Get_Set [simp]: "st_Get A k' (st_Set A k v s) = (if k' = k then v else st_Get A k' s)"
    and Get_Inc [simp]: "st_Get A k' (st_Inc A k s) = (if k' = k then st_Get A k s + 1 else st_Get A k' s)"
    and Get_Dec [simp]: "st_Get A k' (st_Dec A k s) = (if k' = k then st_Get A k s - 1 else st_Get A k' s)"

definition plain_stat :: "(string \<Rightarrow> u64) stat_ops" where
  "plain_stat = \<lparr>st_Get = \<lambda>k s. s k, st_Set = \<lambda>k v s. s(k := v), st_Inc = \<lambda>k s. s(k := s k + 1), st_Dec = \<lambda>k s. s(k := s k - 1)\<rparr>"

interpretation plain_stat: app_stat plain_stat
  by unfold_locales (simp_all add: plain_stat_def)

fun comet_key :: "comet_stat \<Rightarrow> string" where
  "comet_key CConnTotal = ''ConnTotal''"
| "comet_key CConnOnline = ''ConnOnline''"
| "comet_key CUpStreamIn = ''UpStreamIn''"
| "comet_key CUpStreamOut = ''UpStreamOut''"
| "comet_key CDownStreamIn = ''DownStreamIn''"
| "comet_key CDownStreamOut = ''DownStreamOut''"
| "comet_key CMsgbusConns = ''MsgbusConns''"

fun bus_key :: "bus_stat \<Rightarrow> string" where
  "bus_key UpStreamIn = ''UpStreamIn''"
| "bus_key DownStreamOut = ''DownStreamOut''"
| "bus_key DownStreamOutBad = ''DownStreamOutBad''"
| "bus_key CometCount = ''CometCount''"

text \<open>What the events of a comet do to the counters.\<close>

fun count_event :: "'s stat_ops \<Rightarrow> comet_event \<Rightarrow> 's \<Rightarrow> 's" where
  "count_event A (CStatInc x) s = st_Inc A (comet_key x) s"
| "count_event A (CStatDec x) s = st_Dec A (comet_key x) s"
| "count_event A _ s = s"

text \<open>And those of a bus; the queue package calls back when a queue comes, goes and has been sent a message.\<close>

fun bus_count_event :: "'s stat_ops \<Rightarrow> bus_event \<Rightarrow> 's \<Rightarrow> 's" where
  "bus_count_event A (StatInc x) s = st_Inc A (bus_key x) s"
| "bus_count_event A (StatDec x) s = st_Dec A (bus_key x) s"
| "bus_count_event A _ s = s"

definition onNewRmq :: "'s stat_ops \<Rightarrow> 's \<Rightarrow> 's" where "onNewRmq A s = st_Inc A ''RmqCount'' s"
definition onClosedRmq :: "'s stat_ops \<Rightarrow> 's \<Rightarrow> 's" where "onClosedRmq A s = st_Dec A ''RmqCount'' s"
definition onSentMsg :: "'s stat_ops \<Rightarrow> 's \<Rightarrow> 's" where "onSentMsg A s = st_Inc A ''MsgsToMq'' s"

definition statGetConnOnline :: "'s stat_ops \<Rightarrow> 's \<Rightarrow> u64" where
  "statGetConnOnline A s = st_Get A (comet_key CConnOnline) s"

section \<open>Rates\<close>

text \<open>The names of a counter and its three rates, and the counter's last values.\<close>

record rate_keys =
  rk_total :: string
  rk_1s :: string
  rk_1m :: string
  rk_5m :: string

record rate =
  last1s :: u64
  last1m :: u64
  last5m :: u64

definition rate_init :: "'s stat_ops \<Rightarrow> rate_keys \<Rightarrow> 's \<Rightarrow> rate" where
  "rate_init A K s = (let t = st_Get A (rk_total K) s in \<lparr>last1s = t, last1m = t, last5m = t\<rparr>)"

definition rate_step :: "'s stat_ops \<Rightarrow> rate_keys \<Rightarrow> u64 \<Rightarrow> rate \<times> 's \<Rightarrow> rate \<times> 's" where
  "rate_step A K n1s ls = (case ls of (l, s) \<Rightarrow>
     let total = st_Get A (rk_total K) s;
         s = st_Set A (rk_1s K) (total - last1s l) s;
         l = l\<lparr>last1s := total\<rparr>;
         (l, s) = (if n1s mod 60 = 0 then (l\<lparr>last1m := total\<rparr>, st_Set A (rk_1m K) ((total - last1m l) div 60) s) else (l, s))
     in if n1s mod 300 = 0 then (l\<lparr>last5m := total\<rparr>, st_Set A (rk_5m K) ((total - last5m l) div 300) s) else (l, s))"

record stat_state =
  n1s :: u64
  upstream :: rate
  downstream :: rate

definition stat_tick :: "'s stat_ops \<Rightarrow> rate_keys \<Rightarrow> rate_keys \<Rightarrow> stat_state \<Rightarrow> 's \<Rightarrow> stat_state \<times> 's" where
  "stat_tick A U D p s =
     (let n = n1s p + 1;
          (u, s) = rate_step A U n (upstream p, s);
          (d, s) = rate_step A D n (downstream p, s)
      in (\<lparr>n1s = n, upstream = u, downstream = d\<rparr>, s))"

text \<open>\<^verbatim>\<open>statUpdatePerSecond\<close>, a tick for every element of a list: what the rest of the program does to the counters before that tick.\<close>

definition statUpdatePerSecond :: "'s stat_ops \<Rightarrow> rate_keys \<Rightarrow> rate_keys \<Rightarrow> ('s \<Rightarrow> 's) list \<Rightarrow> 's \<Rightarrow> stat_state \<times> 's" where
  "statUpdatePerSecond A U D fs s =
     fold (\<lambda>f (p, s). stat_tick A U D p (f s)) fs
       (\<lparr>n1s = 0, upstream = rate_init A U s, downstream = rate_init A D s\<rparr>, s)"

definition comet_upstream :: rate_keys where
  "comet_upstream = \<lparr>rk_total = ''UpStreamOut'', rk_1s = ''UpStreamOutPerSecond1s'', rk_1m = ''UpStreamOutPerSecond1m'', rk_5m = ''UpStreamOutPerSecond5m''\<rparr>"

definition comet_downstream :: rate_keys where
  "comet_downstream = \<lparr>rk_total = ''DownStreamOut'', rk_1s = ''DownStreamOutPerSecond1s'', rk_1m = ''DownStreamOutPerSecond1m'', rk_5m = ''DownStreamOutPerSecond5m''\<rparr>"

definition bus_upstream :: rate_keys where
  "bus_upstream = \<lparr>rk_total = ''UpStreamIn'', rk_1s = ''UpStreamInPerSecond1s'', rk_1m = ''UpStreamInPerSecond1m'', rk_5m = ''UpStreamInPerSecond5m''\<rparr>"

definition bus_downstream :: rate_keys where
  "bus_downstream = \<lparr>rk_total = ''DownStreamOut'', rk_1s = ''DownStreamOutPerSecond1s'', rk_1m = ''DownStreamOutPerSecond1m'', rk_5m = ''DownStreamOutPerSecond5m''\<rparr>"

definition comet_statUpdatePerSecond :: "'s stat_ops \<Rightarrow> ('s \<Rightarrow> 's) list \<Rightarrow> 's \<Rightarrow> stat_state \<times> 's" where
  "comet_statUpdatePerSecond A = statUpdatePerSecond A comet_upstream comet_downstream"

definition bus_statUpdatePerSecond :: "'s stat_ops \<Rightarrow> ('s \<Rightarrow> 's) list \<Rightarrow> 's \<Rightarrow> stat_state \<times> 's" where
  "bus_statUpdatePerSecond A = statUpdatePerSecond A bus_upstream bus_downstream"

section \<open>What the rates are\<close>

definition rate_names :: "rate_keys \<Rightarrow> string list" where
  "rate_names K = [rk_total K, rk_1s K, rk_1m K, rk_5m K]"

definition separate :: "rate_keys \<Rightarrow> rate_keys \<Rightarrow> bool" where
  "separate U D \<longleftrightarrow> distinct (rate_names U @ rate_names D)"

lemma separate_keys: "separate comet_upstream comet_downstream" "separate bus_upstream bus_downstream"
  by (simp_all add: separate_def rate_names_def comet_upstream_def comet_downstream_def bus_upstream_def bus_downstream_def)

text \<open>The value of a counter at the \<open>k\<close>-th tick; at the start for \<open>k = 0\<close>.\<close>

definition at_tick :: "'s stat_ops \<Rightarrow> rate_keys \<Rightarrow> rate_keys \<Rightarrow> ('s \<Rightarrow> 's) list \<Rightarrow> 's \<Rightarrow> string \<Rightarrow> nat \<Rightarrow> u64" where
  "at_tick A U D fs s key k = (if k = 0 then st_Get A key s
     else st_Get A key ((fs ! (k - 1)) (snd (statUpdatePerSecond A U D (take (k - 1) fs) s))))"

lemma statUpdatePerSecond_snoc:
  "k < length fs \<Longrightarrow> statUpdatePerSecond A U D (take (Suc k) fs) s =
    (case statUpdatePerSecond A U D (take k fs) s of (p, s') \<Rightarrow> stat_tick A U D p ((fs ! k) s'))"
  by (simp add: statUpdatePerSecond_def take_Suc_conv_app_nth split: prod.splits)

text \<open>What a tick with number \<open>n\<close> does to a rate.\<close>

definition ticked :: "'s stat_ops \<Rightarrow> rate_keys \<Rightarrow> u64 \<Rightarrow> rate \<Rightarrow> 's \<Rightarrow> rate \<Rightarrow> 's \<Rightarrow> bool" where
  "ticked A K n l s l' s' \<longleftrightarrow> (let t = st_Get A (rk_total K) s in
     st_Get A (rk_1s K) s' = t - last1s l \<and> last1s l' = t
   \<and> last1m l' = (if n mod 60 = 0 then t else last1m l) \<and> (n mod 60 = 0 \<longrightarrow> st_Get A (rk_1m K) s' = (t - last1m l) div 60)
   \<and> last5m l' = (if n mod 300 = 0 then t else last5m l) \<and> (n mod 300 = 0 \<longrightarrow> st_Get A (rk_5m K) s' = (t - last5m l) div 300))"

text \<open>The last values after \<open>k\<close> ticks when the counter had value \<open>t j\<close> at the \<open>j\<close>-th.\<close>

definition tracks :: "(nat \<Rightarrow> u64) \<Rightarrow> nat \<Rightarrow> rate \<Rightarrow> bool" where
  "tracks t k l \<longleftrightarrow> last1s l = t k \<and> last1m l = t (60 * (k div 60)) \<and> last5m l = t (300 * (k div 300))"

lemma u64_mod:
  assumes "k < 2 ^ 64" and "m < 2 ^ 64"
  shows "(of_nat k :: u64) mod of_nat m = 0 \<longleftrightarrow> k mod m = 0"
proof -
  have "unat (of_nat k :: u64) = k" "unat (of_nat m :: u64) = m"
    using assms by (simp_all add: unsigned_of_nat take_bit_nat_eq_self)
  then have "unat ((of_nat k :: u64) mod of_nat m) = k mod m" by (simp add: unat_mod_distrib)
  then show ?thesis by (metis unat_0 unat_eq_zero)
qed

lemma div_Suc_step: "m * (Suc k div m) = (if Suc k mod m = 0 then Suc k else m * (k div m))"
proof (cases "Suc k mod m = 0")
  case True
  then show ?thesis using mult_div_mod_eq [of m "Suc k"] by simp
next
  case False
  then show ?thesis using div_Suc [of k m] by simp
qed

lemma div_before:
  fixes k :: nat
  assumes "m dvd Suc k"
  shows "m * (k div m) = Suc k - m"
proof -
  have "Suc k div m = Suc (k div m)" using assms div_Suc [of k m] by (simp add: dvd_eq_mod_eq_0)
  then have "m + m * (k div m) = Suc k" using dvd_mult_div_cancel [OF assms] by simp
  then show ?thesis by linarith
qed

lemma tracks_step:
  assumes "tracks t k l" and "ticked A K (of_nat (Suc k)) l s l' s'" and "t (Suc k) = st_Get A (rk_total K) s" and "Suc k < 2 ^ 64"
  shows "tracks t (Suc k) l'"
  using assms u64_mod [OF assms(4), of 60] u64_mod [OF assms(4), of 300] div_Suc_step [of 60 k] div_Suc_step [of 300 k]
  by (auto simp: tracks_def ticked_def Let_def simp del: of_nat_Suc)

context app_stat
begin

lemma rate_step_other: "rate_step A K n (l, s) = (l', s') \<Longrightarrow> k \<notin> {rk_1s K, rk_1m K, rk_5m K} \<Longrightarrow> st_Get A k s' = st_Get A k s"
  by (auto simp: rate_step_def Let_def split: if_splits)

lemma rate_step_ticked:
  assumes "distinct (rate_names K)" and "rate_step A K n (l, s) = (l', s')"
  shows "ticked A K n l s l' s'"
  using assms by (auto simp: rate_step_def Let_def rate_names_def ticked_def split: if_splits)

lemma stat_tick_ticked:
  assumes "separate U D" and "stat_tick A U D p s = (p', s')"
  shows "n1s p' = n1s p + 1" "ticked A U (n1s p + 1) (upstream p) s (upstream p') s'" "ticked A D (n1s p + 1) (downstream p) s (downstream p') s'"
proof -
  let ?n = "n1s p + 1"
  obtain u s1 where u: "rate_step A U ?n (upstream p, s) = (u, s1)" by fastforce
  obtain d s2 where d: "rate_step A D ?n (downstream p, s1) = (d, s2)" by fastforce
  have eq: "p' = \<lparr>n1s = ?n, upstream = u, downstream = d\<rparr>" "s' = s2" using assms(2) u d by (simp_all add: stat_tick_def Let_def)
  then show "n1s p' = ?n" by simp
  have sep: "distinct (rate_names U)" "distinct (rate_names D)" "set (rate_names U) \<inter> set (rate_names D) = {}"
    using assms(1) by (simp_all only: separate_def distinct_append)
  have "st_Get A k s2 = st_Get A k s1" if "k \<in> set (rate_names U)" for k
    using rate_step_other [OF d, of k] that sep(3) by (fastforce simp: rate_names_def)
  then show "ticked A U ?n (upstream p) s (upstream p') s'"
    using rate_step_ticked [OF sep(1) u] eq by (simp add: ticked_def Let_def rate_names_def)
  have "st_Get A (rk_total D) s1 = st_Get A (rk_total D) s"
    using rate_step_other [OF u, of "rk_total D"] sep(3) by (auto simp: rate_names_def)
  then show "ticked A D ?n (downstream p) s (downstream p') s'"
    using rate_step_ticked [OF sep(2) d] eq by (simp add: ticked_def Let_def)
qed

lemma stat_tick_total:
  assumes "separate U D"
  shows "st_Get A (rk_total U) (snd (stat_tick A U D p s)) = st_Get A (rk_total U) s"
proof -
  obtain u s1 where u: "rate_step A U (n1s p + 1) (upstream p, s) = (u, s1)" by fastforce
  obtain d s2 where d: "rate_step A D (n1s p + 1) (downstream p, s1) = (d, s2)" by fastforce
  have "snd (stat_tick A U D p s) = s2" using u d by (simp add: stat_tick_def Let_def)
  then show ?thesis
    using rate_step_other [OF u, of "rk_total U"] rate_step_other [OF d, of "rk_total U"] assms by (auto simp: separate_def rate_names_def)
qed

text \<open>With one message a second the counter counts the seconds.\<close>

lemma statUpdatePerSecond_steady:
  assumes "separate U D"
  shows "st_Get A (rk_total U) (snd (statUpdatePerSecond A U D (replicate j (st_Inc A (rk_total U))) s)) = st_Get A (rk_total U) s + of_nat j"
proof (induction j)
  case 0
  then show ?case by (simp add: statUpdatePerSecond_def)
next
  case (Suc j)
  let ?f = "st_Inc A (rk_total U)"
  obtain p t where t: "statUpdatePerSecond A U D (replicate j ?f) s = (p, t)" by fastforce
  have "take j (replicate (Suc j) ?f) = replicate j ?f" "take (Suc j) (replicate (Suc j) ?f) = replicate (Suc j) ?f" "replicate (Suc j) ?f ! j = ?f"
    by (simp_all del: replicate_Suc)
  then have "statUpdatePerSecond A U D (replicate (Suc j) ?f) s = stat_tick A U D p (?f t)"
    using statUpdatePerSecond_snoc [of j "replicate (Suc j) ?f" A U D s] t by simp
  then show ?case using Suc t stat_tick_total [OF assms, of p "?f t"] by simp
qed

lemma statUpdatePerSecond_tracks:
  assumes "separate U D" and "k \<le> length fs" and "k < 2 ^ 64" and "statUpdatePerSecond A U D (take k fs) s = (p, s')"
  shows "n1s p = of_nat k \<and> tracks (at_tick A U D fs s (rk_total U)) k (upstream p) \<and> tracks (at_tick A U D fs s (rk_total D)) k (downstream p)"
  using assms(2-)
proof (induction k arbitrary: p s')
  case 0
  then show ?case by (auto simp: statUpdatePerSecond_def tracks_def at_tick_def rate_init_def Let_def)
next
  case (Suc k)
  obtain q t where q: "statUpdatePerSecond A U D (take k fs) s = (q, t)" by fastforce
  have tick: "stat_tick A U D q ((fs ! k) t) = (p, s')"
    using Suc.prems statUpdatePerSecond_snoc [of k fs A U D s] q by simp
  have IH: "n1s q = of_nat k" "tracks (at_tick A U D fs s (rk_total U)) k (upstream q)" "tracks (at_tick A U D fs s (rk_total D)) k (downstream q)"
    using Suc.IH [OF _ _ q] Suc.prems by simp_all
  have at: "at_tick A U D fs s key (Suc k) = st_Get A key ((fs ! k) t)" for key
    using q by (simp add: at_tick_def)
  have n: "n1s q + 1 = of_nat (Suc k)" using IH(1) by simp
  note T = stat_tick_ticked [OF assms(1) tick, unfolded n]
  show ?case
    using T(1) tracks_step [OF IH(2) T(2) at Suc.prems(2)] tracks_step [OF IH(3) T(3) at Suc.prems(2)] by blast
qed

end

section \<open>Property\<close>

text \<open>C35: The rates shown are averages: whatever the servers count between the ticks, after the tick that ends a minute (five minutes) the rate per minute (per
  five minutes) of each direction is the increase of its counter since the tick that ended the one before, divided by 60 (300), and after every
  tick the rate per second is the increase since the tick before; for the two sets of counters of the comets and the buses.\<close>

theorem rates_are_averages:
  assumes "app_stat A" and "(U, D) \<in> {(comet_upstream, comet_downstream), (bus_upstream, bus_downstream)}" and "K \<in> {U, D}"
    and "k < length fs" and "Suc k < 2 ^ 64" and "statUpdatePerSecond A U D (take (Suc k) fs) s = (p, s')"
  shows "st_Get A (rk_1s K) s' = at_tick A U D fs s (rk_total K) (Suc k) - at_tick A U D fs s (rk_total K) k
    \<and> (60 dvd Suc k \<longrightarrow> st_Get A (rk_1m K) s' = (at_tick A U D fs s (rk_total K) (Suc k) - at_tick A U D fs s (rk_total K) (Suc k - 60)) div 60)
    \<and> (300 dvd Suc k \<longrightarrow> st_Get A (rk_5m K) s' = (at_tick A U D fs s (rk_total K) (Suc k) - at_tick A U D fs s (rk_total K) (Suc k - 300)) div 300)"
proof -
  have sep: "separate U D" using assms(2) separate_keys by auto
  let ?l = "\<lambda>p. if K = U then upstream p else downstream p"
  obtain q t where q: "statUpdatePerSecond A U D (take k fs) s = (q, t)" by fastforce
  have tick: "stat_tick A U D q ((fs ! k) t) = (p, s')"
    using assms(4,6) statUpdatePerSecond_snoc [of k fs A U D s] q by simp
  have last: "n1s q = of_nat k" "tracks (at_tick A U D fs s (rk_total K)) k (?l q)"
    using app_stat.statUpdatePerSecond_tracks [OF assms(1) sep _ _ q] assms(3-5) by auto
  then have n: "n1s q + 1 = of_nat (Suc k)" by simp
  have "ticked A K (of_nat (Suc k)) (?l q) ((fs ! k) t) (?l p) s'"
    using app_stat.stat_tick_ticked(2,3) [OF assms(1) sep tick, unfolded n] assms(3) by auto
  moreover have "at_tick A U D fs s key (Suc k) = st_Get A key ((fs ! k) t)" for key
    using q by (simp add: at_tick_def)
  ultimately show ?thesis
    using last(2) u64_mod [OF assms(5), of 60] u64_mod [OF assms(5), of 300]
      div_before [of 60 k] div_before [of 300 k]
    by (auto simp: ticked_def tracks_def Let_def dvd_eq_mod_eq_0 simp del: of_nat_Suc)
qed

theorem rates_are_averages_witness:
  "st_Get plain_stat ''UpStreamOutPerSecond1m'' (snd (statUpdatePerSecond plain_stat comet_upstream comet_downstream
     (replicate 60 (st_Inc plain_stat ''UpStreamOut'')) (\<lambda>_. 0))) = 1"
proof -
  let ?f = "st_Inc plain_stat ''UpStreamOut''" and ?s = "\<lambda>_ :: string. 0 :: u64"
  obtain p s' where run: "statUpdatePerSecond plain_stat comet_upstream comet_downstream (take (Suc 59) (replicate 60 ?f)) ?s = (p, s')" by fastforce
  have keys: "rk_total comet_upstream = ''UpStreamOut''" "rk_1m comet_upstream = ''UpStreamOutPerSecond1m''" by (simp_all add: comet_upstream_def)
  have "st_Get plain_stat ''UpStreamOut'' (snd (statUpdatePerSecond plain_stat comet_upstream comet_downstream (replicate 59 ?f) ?s)) = 59"
    using plain_stat.statUpdatePerSecond_steady [OF separate_keys(1), of 59 ?s] by (simp add: keys plain_stat_def)
  then have "at_tick plain_stat comet_upstream comet_downstream (replicate 60 ?f) ?s ''UpStreamOut'' 60 = 60"
    "at_tick plain_stat comet_upstream comet_downstream (replicate 60 ?f) ?s ''UpStreamOut'' 0 = 0"
    by (simp_all add: at_tick_def plain_stat_def)
  then show ?thesis
    using rates_are_averages [OF plain_stat.app_stat_axioms _ _ _ _ run, of comet_upstream] run by (simp add: keys)
qed

end
