(* ===== verification/Discovery.thy ===== *)
theory Discovery
  imports Status "HOL-Library.AList"
begin

text \<open>
  Finding each other through ZooKeeper (\<^verbatim>\<open>comet/zk.go\<close>, \<^verbatim>\<open>msgbus/zk.go\<close>, the list of urls of \<^verbatim>\<open>comet/websocket.go\<close>): a comet registers its urls
  and reports its load, and connects to the buses that have registered; a bus registers its address and connects to the
  registered queues.

  The ZooKeeper client, the readers of the machine's load and the printing of floating-point numbers are parameters (\<open>zk_svc\<close>).  The comet's
  callback and its reporting loop are two goroutines with a channel of one place between them, so the comet is a step relation.
\<close>

section \<open>Registration of a comet\<close>

datatype zk_type = EventSession | EventOther
datatype zk_state = StateHasSession | StateDisconnected | StateExpired | StateOther

record zk_event =
  ev_type :: zk_type
  ev_state :: zk_state

record cometStat =
  stat_Ok :: bool
  stat_Path :: string
  stat_Url :: string

text \<open>What the comet does with ZooKeeper, in order: events taken from the channel, nodes created (with the resulting path) and
  written.\<close>

datatype zk_act = ZkEvent zk_event | ZkCreate string string "string option" | ZkSet string string bool

record 'f zk_svc =
  zk_Create :: "zk_act list \<Rightarrow> string \<Rightarrow> string \<Rightarrow> string option"
  zk_Set :: "zk_act list \<Rightarrow> string \<Rightarrow> string \<Rightarrow> bool"
  path_order :: "zk_act list \<Rightarrow> string list \<Rightarrow> string list"
  fmt_float :: "'f \<Rightarrow> string"
  float_0 :: 'f

record ('f, 's) zk_comet =
  zkConnOk :: bool
  callbacks :: "zk_event list"
  zkReportCh :: "zk_event list"
  websocketUrl :: "string list"
  cometPath :: "(string \<times> cometStat) list"
  cpuUsage :: 'f
  counters :: 's
  zk_trace :: "zk_act list"

definition lost_session :: "zk_event \<Rightarrow> bool" where
  "lost_session e \<longleftrightarrow> ev_type e = EventSession \<and> (ev_state e = StateDisconnected \<or> ev_state e = StateExpired)"

definition got_session :: "zk_event \<Rightarrow> bool" where
  "got_session e \<longleftrightarrow> ev_type e = EventSession \<and> ev_state e = StateHasSession"

text \<open>\<^verbatim>\<open>onConnStatus\<close> up to the send on the channel, and the send, which waits until the channel is empty.  Several calls may be waiting, and
  any of them may be the next to send.\<close>

definition onConnStatus :: "zk_event \<Rightarrow> ('f, 's) zk_comet \<Rightarrow> ('f, 's) zk_comet" where
  "onConnStatus e c =
     (let c = (if got_session e then c\<lparr>zkConnOk := True\<rparr> else if lost_session e then c\<lparr>zkConnOk := False\<rparr> else c)
      in c\<lparr>callbacks := callbacks c @ [e]\<rparr>)"

definition send_event :: "nat \<Rightarrow> ('f, 's) zk_comet \<Rightarrow> ('f, 's) zk_comet option" where
  "send_event i c =
     (if i < length (callbacks c) \<and> zkReportCh c = []
      then Some (c\<lparr>callbacks := take i (callbacks c) @ drop (Suc i) (callbacks c), zkReportCh := [callbacks c ! i]\<rparr>)
      else None)"

definition GetCometWsUrl :: "('f, 's) zk_comet \<Rightarrow> string list" where
  "GetCometWsUrl c = websocketUrl c"

definition kApiGetUAddr :: string where
  "kApiGetUAddr = ''/api/device/udpaddr''"

definition GetCometUdpUrl :: "string \<Rightarrow> u32 \<Rightarrow> string" where
  "GetCometUdpUrl gLocalAddr udpUrlPort = ''http://'' @ gLocalAddr @ '':'' @ FormatInt (scast udpUrlPort) @ kApiGetUAddr"

text \<open>\<^verbatim>\<open>websocketListen\<close> up to the point where it serves; \<open>resolved\<close> is the port of the resolved address, if it can be resolved.\<close>

definition websocketListen :: "string \<Rightarrow> nat option \<Rightarrow> ('f, 's) zk_comet \<Rightarrow> ('f, 's) zk_comet" where
  "websocketListen gLocalAddr resolved c = (case resolved of
     None \<Rightarrow> c
   | Some port \<Rightarrow> c\<lparr>websocketUrl := websocketUrl c @ [''ws://'' @ gLocalAddr @ '':'' @ format_nat port @ ''/ws'']\<rparr>)"

text \<open>What follows the serving: \<^verbatim>\<open>ListenAndServe\<close> always returns an error, which ends the program; the loop behind it, which removes the url, would remove its
  first occurrence.\<close>

fun url_loop :: "string \<Rightarrow> nat \<Rightarrow> string list \<Rightarrow> string list \<Rightarrow> string list" where
  "url_loop urlServer i [] urls = urls"
| "url_loop urlServer i (v # vs) urls = (if v \<noteq> urlServer then url_loop urlServer (Suc i) vs urls else take i urls @ drop (Suc i) urls)"

definition websocketListen_end :: "bool \<Rightarrow> string \<Rightarrow> (('f, 's) zk_comet, unit) go" where
  "websocketListen_end err urlServer =
     (if err then go_lift None else go_upd (\<lambda>c. c\<lparr>websocketUrl := url_loop urlServer 0 (websocketUrl c) (websocketUrl c)\<rparr>))"

lemma url_loop_remove1: "url_loop u (length xs) ys (xs @ ys) = xs @ remove1 u ys"
proof (induction ys arbitrary: xs)
  case (Cons y ys)
  then show ?case using Cons [of "xs @ [y]"] by simp
qed simp

lemma websocketListen_end_eq:
  "websocketListen_end err u c = (if err then (Panic, c) else (Ret (), c\<lparr>websocketUrl := remove1 u (websocketUrl c)\<rparr>))"
  using url_loop_remove1 [of u "[]" "websocketUrl c"] by (simp add: websocketListen_end_def go_monad)

text \<open>The urls a comet registers, by its type.\<close>

definition comet_urls :: "CometType \<Rightarrow> string \<Rightarrow> u32 \<Rightarrow> ('f, 's) zk_comet \<Rightarrow> string list" where
  "comet_urls gCometType gLocalAddr udpUrlPort c = (case gCometType of
     CometWs \<Rightarrow> GetCometWsUrl c
   | CometUdp \<Rightarrow> [GetCometUdpUrl gLocalAddr udpUrlPort])"

definition onWriteZkData :: "'f zk_svc \<Rightarrow> string \<Rightarrow> 'f \<Rightarrow> u64 \<Rightarrow> u64 \<Rightarrow> u64 \<Rightarrow> string" where
  "onWriteZkData Z url cpu memTotal memUsage online =
     url @ '','' @ fmt_float Z cpu @ '','' @ format_nat (unat memTotal) @ '','' @ format_nat (unat memUsage) @ '','' @ format_nat (unat online)"

definition act :: "zk_act \<Rightarrow> ('f, 's) zk_comet \<Rightarrow> ('f, 's) zk_comet" where
  "act a c = c\<lparr>zk_trace := zk_trace c @ [a]\<rparr>"

text \<open>The loop that creates a node for every url stops at the first failure.\<close>

fun create_nodes :: "'f zk_svc \<Rightarrow> string \<Rightarrow> string list \<Rightarrow> ('f, 's) zk_comet \<Rightarrow> ('f, 's) zk_comet" where
  "create_nodes Z root [] c = c"
| "create_nodes Z root (u # us) c =
     (let data = onWriteZkData Z u (float_0 Z) 0 0 0;
          r = zk_Create Z (zk_trace c) (root @ ''/'') data;
          c = act (ZkCreate u data r) c
      in case r of
           None \<Rightarrow> c
         | Some tpath \<Rightarrow>
             if tpath = [] then c
             else create_nodes Z root us
               (c\<lparr>cometPath := AList.update tpath \<lparr>stat_Ok = True, stat_Path = tpath, stat_Url = u\<rparr> (cometPath c)\<rparr>))"

text \<open>The three cases of the loop of \<^verbatim>\<open>ReportUsage\<close>; \<open>urls\<close> gives the urls for the comet's type.\<close>

definition report_event :: "'f zk_svc \<Rightarrow> string \<Rightarrow> (('f, 's) zk_comet \<Rightarrow> string list) \<Rightarrow> ('f, 's) zk_comet \<Rightarrow> ('f, 's) zk_comet option" where
  "report_event Z root urls c = (case zkReportCh c of
     [] \<Rightarrow> None
   | e # es \<Rightarrow>
       (let c = act (ZkEvent e) (c\<lparr>zkReportCh := es\<rparr>)
        in Some (if got_session e then (if zkConnOk c then create_nodes Z root (urls c) c else c)
                 else if lost_session e then c\<lparr>cometPath := []\<rparr>
                 else c)))"

definition report_cpu :: "'f zk_svc \<Rightarrow> 'f option \<Rightarrow> ('f, 's) zk_comet \<Rightarrow> ('f, 's) zk_comet" where
  "report_cpu Z cpu c = c\<lparr>cpuUsage := (case cpu of None \<Rightarrow> float_0 Z | Some u \<Rightarrow> u)\<rparr>"

definition report_node ::
  "'f zk_svc \<Rightarrow> u64 \<Rightarrow> u64 \<Rightarrow> u64 \<Rightarrow> string \<Rightarrow> ('f, 's) zk_comet \<Rightarrow> ('f, 's) zk_comet" where
  "report_node Z memTotal memUsage onlineCount path c = (case map_of (cometPath c) path of
     None \<Rightarrow> c
   | Some s \<Rightarrow>
       if \<not> stat_Ok s then c
       else if \<not> zkConnOk c then c
       else let data = onWriteZkData Z (stat_Url s) (cpuUsage c) memTotal memUsage onlineCount
            in act (ZkSet path data (zk_Set Z (zk_trace c) path data)) c)"

text \<open>A tick; \<open>meminfo\<close> is total and free memory, \<^term>\<open>None\<close> when it cannot be read.\<close>

definition report_tick :: "'f zk_svc \<Rightarrow> 's stat_ops \<Rightarrow> (u64 \<times> u64) option \<Rightarrow> ('f, 's) zk_comet \<Rightarrow> ('f, 's) zk_comet" where
  "report_tick Z A meminfo c =
     (let memTotal = (case meminfo of None \<Rightarrow> 0 | Some (t, f) \<Rightarrow> t);
          memUsage = (case meminfo of None \<Rightarrow> 0 | Some (t, f) \<Rightarrow> t - f);
          onlineCount = statGetConnOnline A (counters c)
      in fold (report_node Z memTotal memUsage onlineCount) (path_order Z (zk_trace c) (map fst (cometPath c))) c)"

text \<open>Everything that happens to the registration of a comet.\<close>

inductive zk_step ::
  "'f zk_svc \<Rightarrow> 's stat_ops \<Rightarrow> string \<Rightarrow> (('f, 's) zk_comet \<Rightarrow> string list) \<Rightarrow> ('f, 's) zk_comet \<Rightarrow> ('f, 's) zk_comet \<Rightarrow> bool"
  for Z A root urls where
  status: "zk_step Z A root urls c (onConnStatus e c)"
| send: "send_event i c = Some c' \<Longrightarrow> zk_step Z A root urls c c'"
| event: "report_event Z root urls c = Some c' \<Longrightarrow> zk_step Z A root urls c c'"
| cpu: "zk_step Z A root urls c (report_cpu Z u c)"
| tick: "zk_step Z A root urls c (report_tick Z A m c)"
| listen: "zk_step Z A root urls c (websocketListen a p c)"
| count: "zk_step Z A root urls c (c\<lparr>counters := s\<rparr>)"

section \<open>Discovery of buses\<close>

text \<open>One round of the loop of \<^verbatim>\<open>InitZK\<close>: the names of the nodes, and the address stored in each, \<^term>\<open>None\<close> on an error.\<close>

definition node_addrs :: "string \<Rightarrow> (string \<Rightarrow> string option) \<Rightarrow> string list \<Rightarrow> string list" where
  "node_addrs root data nodes = List.map_filter (\<lambda>n. data (root @ ''/'' @ n)) nodes"

definition discover ::
  "('e, 'h) srv_ops \<Rightarrow> comet_env \<Rightarrow> string \<Rightarrow> (string \<Rightarrow> string option) \<Rightarrow> string list option \<Rightarrow> (('e, 'h, 'a) busman_scheme, unit) go" where
  "discover B env msgbusName data nodes = (case nodes of
     None \<Rightarrow> go_ret ()
   | Some ns \<Rightarrow> go_each (Online B env) (node_addrs (''/'' @ msgbusName) data ns))"

text \<open>\<^verbatim>\<open>InitZK\<close> up to its loop, \<^term>\<open>None\<close> when the program ends: the node of the comets is created, reporting is started, the buses are watched.\<close>

datatype zk_init = ZkRoot string | ZkReport | ZkWatch string

definition comet_InitZK :: "string \<Rightarrow> string \<Rightarrow> bool \<Rightarrow> zk_init list option" where
  "comet_InitZK msgbusName cometName connected =
     (if msgbusName = [] then None
      else if cometName = [] then None
      else if \<not> connected then None
      else Some [ZkRoot (''/'' @ cometName), ZkReport, ZkWatch (''/'' @ msgbusName)])"


section \<open>Registration of a bus\<close>

datatype bus_zk_act = CreateTempW string string | RmqAdd string string

record bus_zk =
  zkOk :: bool
  zkRoot :: string
  zkListenAddr :: string
  watchesRmq :: bool
  bus_acts :: "bus_zk_act list"

text \<open>\<^verbatim>\<open>CreateTempW\<close> is the base library's; whether it succeeds only decides what is logged.\<close>

definition watchEvent :: "zk_event \<Rightarrow> bus_zk \<Rightarrow> bus_zk" where
  "watchEvent e z =
     (if \<not> zkOk z then z
      else if ev_state e = StateHasSession then z\<lparr>bus_acts := bus_acts z @ [CreateTempW (zkRoot z) (zkListenAddr z)]\<rparr>
      else z)"

text \<open>\<open>conn\<close> says whether the connection can be made, \<open>early\<close> are the events that arrive before the address is registered,
  \<open>ok\<close> says whether that succeeds.  The result is whether no error is returned.\<close>

definition bus_InitZK :: "string \<Rightarrow> string \<Rightarrow> bool \<Rightarrow> zk_event list \<Rightarrow> bool \<Rightarrow> bus_zk \<Rightarrow> bool \<times> bus_zk" where
  "bus_InitZK listenAddr rootName conn early ok z =
     (if \<not> conn then (False, z)
      else
        let z = fold watchEvent early z;
            z = z\<lparr>zkRoot := ''/'' @ rootName, zkListenAddr := listenAddr\<rparr>;
            z = z\<lparr>bus_acts := bus_acts z @ [CreateTempW (zkRoot z) listenAddr]\<rparr>;
            z = z\<lparr>zkOk := True\<rparr>
        in (ok, if ok then z\<lparr>watchesRmq := True\<rparr> else z))"

text \<open>A round of \<^verbatim>\<open>WatchRmq\<close>: an entry is a url and a queue name.\<close>

definition rmq_conf :: "string \<Rightarrow> (string \<times> string) option" where
  "rmq_conf addr = (case split_n 2 CHR '','' addr of [u, q] \<Rightarrow> Some (u, q) | _ \<Rightarrow> None)"

definition WatchRmq :: "string \<Rightarrow> (string \<Rightarrow> string option) \<Rightarrow> string list option \<Rightarrow> bus_zk \<Rightarrow> bus_zk" where
  "WatchRmq rmqRoot data nodes z = (case nodes of
     None \<Rightarrow> z
   | Some ns \<Rightarrow> z\<lparr>bus_acts := bus_acts z @
       map (\<lambda>(u, q). RmqAdd u q) (List.map_filter rmq_conf (node_addrs (''/'' @ rmqRoot) data ns))\<rparr>)"

section \<open>Properties: registration\<close>

text \<open>The nodes a comet has created since it last saw its session lost.\<close>

fun register :: "zk_act \<Rightarrow> (string \<times> cometStat) list \<Rightarrow> (string \<times> cometStat) list" where
  "register (ZkEvent e) m = (if lost_session e then [] else m)"
| "register (ZkCreate u d r) m = (case r of None \<Rightarrow> m | Some p \<Rightarrow>
     if p = [] then m else AList.update p \<lparr>stat_Ok = True, stat_Path = p, stat_Url = u\<rparr> m)"
| "register (ZkSet p d ok) m = m"

definition registered :: "zk_act list \<Rightarrow> (string \<times> cometStat) list" where
  "registered tr = fold register tr []"

lemma registered_snoc [simp]: "registered [] = []" "registered (tr @ [a]) = register a (registered tr)"
  by (simp_all add: registered_def)

text \<open>Every write goes to a node that is registered when it happens.\<close>

fun writes_ok :: "zk_act list \<Rightarrow> (string \<times> cometStat) list \<Rightarrow> bool" where
  "writes_ok [] m \<longleftrightarrow> True"
| "writes_ok (a # tr) m \<longleftrightarrow> (case a of ZkSet p d ok \<Rightarrow> p \<in> fst ` set m | _ \<Rightarrow> True) \<and> writes_ok tr (register a m)"

lemma writes_ok_snoc:
  "writes_ok (tr @ [a]) m \<longleftrightarrow> writes_ok tr m \<and> (case a of ZkSet p d ok \<Rightarrow> p \<in> fst ` set (fold register tr m) | _ \<Rightarrow> True)"
  by (induction tr arbitrary: m) (auto split: zk_act.splits)

lemma writes_ok_at:
  "writes_ok (tr @ ZkSet p d ok # rest) m \<Longrightarrow> p \<in> fst ` set (fold register tr m)"
  by (induction tr arbitrary: m) simp_all

definition zk_inv :: "('f, 's) zk_comet \<Rightarrow> bool" where
  "zk_inv c \<longleftrightarrow> cometPath c = registered (zk_trace c) \<and> writes_ok (zk_trace c) [] \<and> length (zkReportCh c) \<le> 1"

lemma zk_inv_more [simp]:
  "zk_inv (c\<lparr>zkConnOk := b\<rparr>) = zk_inv c" "zk_inv (c\<lparr>callbacks := es\<rparr>) = zk_inv c" "zk_inv (c\<lparr>websocketUrl := us\<rparr>) = zk_inv c"
  "zk_inv (c\<lparr>cpuUsage := u\<rparr>) = zk_inv c" "zk_inv (c\<lparr>counters := s\<rparr>) = zk_inv c"
  by (simp_all add: zk_inv_def)

lemma zk_inv_create: "zk_inv c \<Longrightarrow> zk_inv (create_nodes Z root us c)"
proof (induction us arbitrary: c)
  case (Cons u us)
  then show ?case
    by (auto simp: Let_def act_def zk_inv_def writes_ok_snoc split: option.splits)
qed simp

lemma zk_inv_node: "zk_inv c \<Longrightarrow> zk_inv (report_node Z t u n path c)"
  using map_of_SomeD [of "cometPath c" path]
  by (auto simp: report_node_def act_def Let_def zk_inv_def writes_ok_snoc registered_def [symmetric] split: option.splits)
     (force simp: image_iff)

lemma zk_inv_tick: "zk_inv c \<Longrightarrow> zk_inv (report_tick Z A m c)"
proof -
  have "zk_inv c \<Longrightarrow> zk_inv (fold (report_node Z t u n) ps c)" for t u n ps
    by (induction ps arbitrary: c) (simp_all add: zk_inv_node)
  then show "zk_inv c \<Longrightarrow> ?thesis" by (simp add: report_tick_def Let_def)
qed

lemma zk_inv_event: "zk_inv c \<Longrightarrow> report_event Z root urls c = Some c' \<Longrightarrow> zk_inv c'"
proof -
  assume inv: "zk_inv c" and run: "report_event Z root urls c = Some c'"
  obtain e es where ch: "zkReportCh c = e # es" using run by (cases "zkReportCh c") (simp_all add: report_event_def)
  let ?c = "act (ZkEvent e) (c\<lparr>zkReportCh := es\<rparr>)"
  have len: "length es \<le> 1" using inv ch by (simp add: zk_inv_def)
  have ok: "zk_inv ?c" if "\<not> lost_session e"
    using inv len that by (simp add: zk_inv_def act_def writes_ok_snoc)
  have lost: "zk_inv (?c\<lparr>cometPath := []\<rparr>)" if "lost_session e"
    using inv len that by (simp add: zk_inv_def act_def writes_ok_snoc)
  have "\<not> (got_session e \<and> lost_session e)" by (auto simp: got_session_def lost_session_def)
  then show ?thesis
    using run ch ok lost zk_inv_create [OF ok] by (auto simp: report_event_def Let_def split: if_splits)
qed

lemma zk_step_inv: "zk_step Z A root urls c c' \<Longrightarrow> zk_inv c \<Longrightarrow> zk_inv c'"
proof (induction rule: zk_step.induct)
  case (status c e)
  then show ?case by (simp add: onConnStatus_def Let_def)
next
  case (send i c c')
  then show ?case by (auto simp: send_event_def zk_inv_def split: if_splits)
qed (simp_all add: zk_inv_event report_cpu_def zk_inv_tick websocketListen_def split: option.splits)

text \<open>C20: A comet reports to the nodes it owns: whatever happens, the nodes whose load it will write are exactly those it has created since it last saw its
  session with ZooKeeper lost, each with the url it was created for; every write it ever made went to such a node; and the channel between the two goroutines holds at most one
  event.\<close>

theorem comet_registration:
  assumes "(zk_step Z A root urls)\<^sup>*\<^sup>* c0 c" and "cometPath c0 = []" and "zk_trace c0 = []" and "zkReportCh c0 = []"
  shows "cometPath c = registered (zk_trace c) \<and> length (zkReportCh c) \<le> 1
    \<and> (\<forall>tr p d ok rest. zk_trace c = tr @ ZkSet p d ok # rest \<longrightarrow> p \<in> fst ` set (registered tr))"
proof -
  have "zk_inv c0" using assms(2-4) by (simp add: zk_inv_def)
  with assms(1) have "zk_inv c"
    by (induction rule: rtranclp_induct) (auto intro: zk_step_inv)
  then show ?thesis
    using writes_ok_at by (fastforce simp: zk_inv_def registered_def)
qed

definition sample_zk :: "unit zk_svc" where
  "sample_zk = \<lparr>zk_Create = \<lambda>tr root _. Some (root @ format_nat (length tr)), zk_Set = \<lambda>_ _ _. True, path_order = \<lambda>_ ps. ps,
     fmt_float = \<lambda>_. ''0.000000'', float_0 = ()\<rparr>"

definition sample_comet0 :: "(unit, string \<Rightarrow> u64) zk_comet" where
  "sample_comet0 = \<lparr>zkConnOk = False, callbacks = [], zkReportCh = [], websocketUrl = [], cometPath = [], cpuUsage = (),
     counters = \<lambda>_. 0, zk_trace = []\<rparr>"

text \<open>A websocket comet listens, gets a session, registers and reports once.\<close>

definition sample_connected :: "(unit, string \<Rightarrow> u64) zk_comet" where
  "sample_connected = onConnStatus \<lparr>ev_type = EventSession, ev_state = StateHasSession\<rparr> (websocketListen ''10.0.0.7'' (Some 1234) sample_comet0)"

definition sample_reported :: "(unit, string \<Rightarrow> u64) zk_comet" where
  "sample_reported = report_tick sample_zk plain_stat (Some (100, 40))
     (the (report_event sample_zk ''/comet'' (comet_urls CometWs ''10.0.0.7'' 0) (the (send_event 0 sample_connected))))"

lemma sample_send: "\<exists>c. send_event 0 sample_connected = Some c \<and> (\<exists>c'. report_event sample_zk ''/comet'' (comet_urls CometWs ''10.0.0.7'' 0) c = Some c')"
  by (simp add: send_event_def report_event_def sample_connected_def onConnStatus_def websocketListen_def sample_comet0_def Let_def)

lemma sample_reachable: "(zk_step sample_zk plain_stat ''/comet'' (comet_urls CometWs ''10.0.0.7'' 0))\<^sup>*\<^sup>* sample_comet0 sample_reported"
proof -
  let ?step = "zk_step sample_zk plain_stat ''/comet'' (comet_urls CometWs ''10.0.0.7'' 0)"
  obtain c c' where run: "send_event 0 sample_connected = Some c" "report_event sample_zk ''/comet'' (comet_urls CometWs ''10.0.0.7'' 0) c = Some c'"
    using sample_send by blast
  have "?step sample_comet0 (websocketListen ''10.0.0.7'' (Some 1234) sample_comet0)" by (rule zk_step.listen)
  moreover have "?step (websocketListen ''10.0.0.7'' (Some 1234) sample_comet0) sample_connected" unfolding sample_connected_def by (rule zk_step.status)
  moreover have "?step sample_connected c" using run(1) by (rule zk_step.send)
  moreover have "?step c c'" using run(2) by (rule zk_step.event)
  moreover have "?step c' sample_reported" using zk_step.tick by (simp add: sample_reported_def run)
  ultimately show ?thesis by (meson rtranclp.rtrancl_refl rtranclp.rtrancl_into_rtrancl)
qed

lemmas sample_zk_defs = sample_reported_def sample_connected_def sample_comet0_def sample_zk_def send_event_def report_event_def onConnStatus_def
  websocketListen_def report_tick_def report_node_def act_def Let_def comet_urls_def GetCometWsUrl_def got_session_def

theorem comet_registration_witness:
  "map fst (cometPath sample_reported) = [''/comet/'' @ format_nat 1] \<and> length (zk_trace sample_reported) = 3
    \<and> cometPath sample_reported = registered (zk_trace sample_reported)"
proof -
  have "map fst (cometPath sample_reported) = [''/comet/'' @ format_nat 1]" "length (zk_trace sample_reported) = 3"
    by (simp_all add: sample_zk_defs)
  then show ?thesis
    using comet_registration [OF sample_reachable] by (simp add: sample_comet0_def)
qed

text \<open>A listener that comes up after the session is not registered: a comet can be connected to ZooKeeper and listen, with nothing left to do, and
  have no node.\<close>

theorem late_listener_unregistered:
  assumes "cometPath c0 = []" and "zkReportCh c0 = []" and "callbacks c0 = []" and "websocketUrl c0 = []"
  shows "\<exists>c. (zk_step Z A root (comet_urls CometWs a p))\<^sup>*\<^sup>* c0 c
    \<and> zkConnOk c \<and> callbacks c = [] \<and> zkReportCh c = [] \<and> length (websocketUrl c) = 1 \<and> cometPath c = []"
proof -
  let ?e = "\<lparr>ev_type = EventSession, ev_state = StateHasSession\<rparr>" and ?step = "zk_step Z A root (comet_urls CometWs a p)"
  let ?c1 = "onConnStatus ?e c0"
  have up: "?c1 = c0\<lparr>zkConnOk := True, callbacks := [?e]\<rparr>" using assms(3) by (simp add: onConnStatus_def got_session_def)
  let ?c2 = "?c1\<lparr>callbacks := [], zkReportCh := [?e]\<rparr>"
  let ?c3 = "act (ZkEvent ?e) (?c2\<lparr>zkReportCh := []\<rparr>)"
  have "?step c0 ?c1" by (rule zk_step.status)
  moreover have "?step ?c1 ?c2" by (rule zk_step.send [of 0]) (use assms(2) in \<open>simp add: send_event_def up\<close>)
  moreover have "?step ?c2 ?c3"
    by (rule zk_step.event) (use assms(4) in \<open>simp add: report_event_def up act_def got_session_def comet_urls_def GetCometWsUrl_def\<close>)
  moreover have "?step ?c3 (websocketListen a (Some 1234) ?c3)" by (rule zk_step.listen)
  ultimately have "?step\<^sup>*\<^sup>* c0 (websocketListen a (Some 1234) ?c3)" by (meson rtranclp.rtrancl_refl rtranclp.rtrancl_into_rtrancl)
  then show ?thesis
    using assms by (intro exI [of _ "websocketListen a (Some 1234) ?c3"]) (simp add: websocketListen_def act_def up)
qed

section \<open>Properties: discovery\<close>

text \<open>Every server of the list is connected to the address it was announced with.\<close>

definition peers_ok :: "comet_env \<Rightarrow> MsgBusServer list \<Rightarrow> bool" where
  "peers_ok env srvs \<longleftrightarrow> (\<forall>v \<in> set srvs. \<exists>c. srv_conn v = Some c \<and> peer env c = remoteAddr v)"

text \<open>The buses at these addresses can be reached, under the address they have registered.\<close>

definition reachable :: "comet_env \<Rightarrow> string list \<Rightarrow> bool" where
  "reachable env addrs \<longleftrightarrow> (\<forall>a \<in> set addrs. \<forall>tr. case bus_dial env tr a of Connected c \<Rightarrow> peer env c = a | _ \<Rightarrow> False)"

lemma reachable_dial:
  assumes "reachable env [a]"
  shows "\<exists>c. bus_dial env tr a = Connected c \<and> peer env c = a"
proof -
  have "case bus_dial env tr a of Connected c \<Rightarrow> peer env c = a | _ \<Rightarrow> False"
    using assms by (simp only: reachable_def list.set) simp
  then show ?thesis by (cases "bus_dial env tr a") simp_all
qed

lemma reachable_append: "reachable env (as @ bs) \<longleftrightarrow> reachable env as \<and> reachable env bs"
  by (auto simp only: reachable_def set_append)

definition connects :: "nat \<Rightarrow> nat \<Rightarrow> comet_event list" where
  "connects p q = concat (map (\<lambda>i. [StartReciver i, CStatInc CMsgbusConns]) [p..<q])"

lemma connects_simps: "connects p p = []" "p \<le> q \<Longrightarrow> connects p (Suc q) = connects p q @ [StartReciver q, CStatInc CMsgbusConns]"
  by (simp_all add: connects_def)

lemma find_addr_peers: "peers_ok env srvs \<Longrightarrow> find_addr env a srvs = Some (a \<in> remoteAddr ` set srvs)"
  by (induction srvs) (auto simp: peers_ok_def)

definition bus_addrs :: "('e, 'h) srv_ops \<Rightarrow> ('e, 'h, 'a) busman_scheme \<Rightarrow> string list" where
  "bus_addrs B s = map remoteAddr (hl_vals B (bm_list s))"

context srv_lists
begin

lemma Online_insert:
  assumes "peers_ok env (hl_vals B (bm_list s))" and "reachable env [a]"
  shows "\<exists>s'. Online B env a s = (Ret (), s') \<and> peers_ok env (hl_vals B (bm_list s')) \<and> bus_addrs B s' = List.insert a (bus_addrs B s)
    \<and> (a \<in> set (bus_addrs B s) \<longrightarrow> s' = s)
    \<and> (a \<notin> set (bus_addrs B s) \<longrightarrow> bm_fresh s' = Suc (bm_fresh s) \<and> trace s' = trace s @ [StartReciver (bm_fresh s), CStatInc CMsgbusConns])"
proof (cases "a \<in> set (bus_addrs B s)")
  case True
  then have "Online B env a s = (Ret (), s)"
    using find_addr_peers [OF assms(1), of a] by (simp add: Online_def go_monad bus_addrs_def)
  then show ?thesis using True assms(1) by simp
next
  case False
  then have "find_addr env a (hl_vals B (bm_list s)) = Some False"
    using find_addr_peers [OF assms(1), of a] by (simp add: bus_addrs_def)
  moreover obtain c where c: "bus_dial env (trace s) a = Connected c" "peer env c = a"
    using reachable_dial [OF assms(2)] by blast
  then have "Dail env a (trace s) = (Some c, True)" by (simp add: Dail_def)
  ultimately obtain e h where push: "hl_PushFront B \<lparr>srv_ptr = bm_fresh s, remoteAddr = a, srv_conn = Some c\<rparr> (bm_list s) = (e, h)"
    and eq: "Online B env a s = (Ret (), s\<lparr>bm_list := h, bm_curr := Some e, bm_fresh := Suc (bm_fresh s),
        trace := trace s @ [StartReciver (bm_fresh s), CStatInc CMsgbusConns]\<rparr>)"
    using Online_eq [of env a s "Some c" True] by auto
  have "hl_vals B h = \<lparr>srv_ptr = bm_fresh s, remoteAddr = a, srv_conn = Some c\<rparr> # hl_vals B (bm_list s)"
    using vals_PushFront push by (metis snd_conv)
  then show ?thesis
    using False assms(1) c(2) unfolding eq by (simp add: bus_addrs_def peers_ok_def)
qed

lemma Online_all:
  assumes "peers_ok env (hl_vals B (bm_list s))" and "reachable env as"
  shows "\<exists>s'. go_each (Online B env) as s = (Ret (), s') \<and> peers_ok env (hl_vals B (bm_list s')) \<and> bus_addrs B s' = fold List.insert as (bus_addrs B s)
    \<and> bm_fresh s \<le> bm_fresh s' \<and> trace s' = trace s @ connects (bm_fresh s) (bm_fresh s')
    \<and> (set as \<subseteq> set (bus_addrs B s) \<longrightarrow> s' = s)"
  using assms(2)
proof (induction as rule: rev_induct)
  case Nil
  then show ?case using assms(1) by (simp add: go_monad connects_simps)
next
  case (snoc a as)
  have r: "reachable env as" "reachable env [a]" using snoc.prems by (simp_all add: reachable_append)
  obtain s1 where 1: "go_each (Online B env) as s = (Ret (), s1)" "peers_ok env (hl_vals B (bm_list s1))" "bus_addrs B s1 = fold List.insert as (bus_addrs B s)"
    "bm_fresh s \<le> bm_fresh s1" "trace s1 = trace s @ connects (bm_fresh s) (bm_fresh s1)" "set as \<subseteq> set (bus_addrs B s) \<longrightarrow> s1 = s"
    using snoc.IH [OF r(1)] by blast
  obtain s2 where 2: "Online B env a s1 = (Ret (), s2)" "peers_ok env (hl_vals B (bm_list s2))" "bus_addrs B s2 = List.insert a (bus_addrs B s1)"
    "a \<in> set (bus_addrs B s1) \<longrightarrow> s2 = s1"
    "a \<notin> set (bus_addrs B s1) \<longrightarrow> bm_fresh s2 = Suc (bm_fresh s1) \<and> trace s2 = trace s1 @ [StartReciver (bm_fresh s1), CStatInc CMsgbusConns]"
    using Online_insert [OF 1(2) r(2)] by blast
  have "go_each (Online B env) (as @ [a]) s = (Ret (), s2)" using 1(1) 2(1) by (simp add: go_each_append go_monad)
  moreover have "bm_fresh s \<le> bm_fresh s2 \<and> trace s2 = trace s @ connects (bm_fresh s) (bm_fresh s2)"
    using 1(4,5) 2(4,5) by (cases "a \<in> set (bus_addrs B s1)") (simp_all add: connects_simps)
  moreover have "set (as @ [a]) \<subseteq> set (bus_addrs B s) \<longrightarrow> s2 = s"
    using 1(6) 2(4) by auto
  ultimately show ?case using 2(2,3) 1(3) by simp
qed

lemma fold_insert_props: "set (fold List.insert as bs) = set as \<union> set bs" "distinct bs \<Longrightarrow> distinct (fold List.insert as bs)"
  by (induction as arbitrary: bs) (auto simp: distinct_insert)

lemma discover_rounds:
  assumes "peers_ok env (hl_vals B (bm_list s))" and "distinct (bus_addrs B s)" and "reachable env (node_addrs (''/'' @ msgbusName) data ns)"
  shows "\<exists>s'. discover B env msgbusName data (Some ns) s = (Ret (), s')
    \<and> set (bus_addrs B s') = set (bus_addrs B s) \<union> set (node_addrs (''/'' @ msgbusName) data ns) \<and> distinct (bus_addrs B s')
    \<and> peers_ok env (hl_vals B (bm_list s')) \<and> trace s' = trace s @ connects (bm_fresh s) (bm_fresh s')
    \<and> discover B env msgbusName data (Some ns) s' = (Ret (), s')"
proof -
  let ?as = "node_addrs (''/'' @ msgbusName) data ns"
  obtain s' where 1: "go_each (Online B env) ?as s = (Ret (), s')" "peers_ok env (hl_vals B (bm_list s'))"
    "bus_addrs B s' = fold List.insert ?as (bus_addrs B s)" "trace s' = trace s @ connects (bm_fresh s) (bm_fresh s')"
    using Online_all [OF assms(1,3)] by blast
  then have "set ?as \<subseteq> set (bus_addrs B s')" by (simp add: fold_insert_props)
  then have "go_each (Online B env) ?as s' = (Ret (), s')" using Online_all [OF 1(2) assms(3)] by auto
  then show ?thesis using 1 assms(2) by (auto simp: discover_def fold_insert_props)
qed

end





text \<open>Discovery connects a comet to every registered bus once: when the buses can be reached under the addresses they registered, a round
  ends without a panic, afterwards the comet is connected to the buses it knew and to exactly those whose address could be read, each address occurring once, every new
  connection has its own receiver and is counted, and another round with the same addresses changes nothing.\<close>

theorem discover_spec:
  assumes "hlist B" and "peers_ok env (hl_vals B (bm_list s))" and "distinct (bus_addrs B s)"
    and "reachable env (node_addrs (''/'' @ msgbusName) data ns)"
  shows "\<exists>s'. discover B env msgbusName data (Some ns) s = (Ret (), s')
    \<and> set (bus_addrs B s') = set (bus_addrs B s) \<union> set (node_addrs (''/'' @ msgbusName) data ns) \<and> distinct (bus_addrs B s')
    \<and> peers_ok env (hl_vals B (bm_list s')) \<and> trace s' = trace s @ connects (bm_fresh s) (bm_fresh s')
    \<and> discover B env msgbusName data (Some ns) s' = (Ret (), s')"
  by (rule srv_lists.discover_rounds [OF srv_lists.intro [OF assms(1)] assms(2-4)])

definition two_buses :: comet_env where
  "two_buses = sample_cenv\<lparr>bus_dial := \<lambda>_ a. Connected (if a = ''10.0.0.9:9923'' then 1 else 2),
     peer := \<lambda>c. if c = 1 then ''10.0.0.9:9923'' else ''10.0.0.8:9923''\<rparr>"

definition bus_nodes :: "string \<Rightarrow> string option" where
  "bus_nodes p = (if p = ''/bus/1'' then Some ''10.0.0.9:9923'' else if p = ''/bus/2'' then None else Some ''10.0.0.8:9923'')"

theorem discover_spec_witness:
  "\<exists>s'. discover (plain_hlist True) two_buses ''bus'' bus_nodes (Some [''1'', ''2'', ''3'']) (NewMsgBusManager (plain_hlist True)) = (Ret (), s')
    \<and> set (bus_addrs (plain_hlist True) s') = {''10.0.0.9:9923'', ''10.0.0.8:9923''} \<and> distinct (bus_addrs (plain_hlist True) s')
    \<and> discover (plain_hlist True) two_buses ''bus'' bus_nodes (Some [''1'', ''2'', ''3'']) s' = (Ret (), s')"
proof -
  let ?s = "NewMsgBusManager (plain_hlist True) :: (nat \<times> MsgBusServer, (nat \<times> MsgBusServer) list) busman"
  have nodes: "node_addrs ''/bus'' bus_nodes [''1'', ''2'', ''3''] = [''10.0.0.9:9923'', ''10.0.0.8:9923'']"
    by (simp add: node_addrs_def bus_nodes_def List.map_filter_simps)
  have "hl_vals (plain_hlist True) (bm_list ?s) = []" by (simp add: NewMsgBusManager_def plain_hlist_def hl_vals_def)
  moreover have "reachable two_buses [''10.0.0.9:9923'', ''10.0.0.8:9923'']" by (simp add: reachable_def two_buses_def)
  ultimately show ?thesis
    using discover_spec [OF plain.hlist_axioms, of two_buses True ?s "''bus''" bus_nodes "[''1'', ''2'', ''3'']"]
    by (auto simp: nodes peers_ok_def bus_addrs_def)
qed


end
