(* ===== verification/BusMain.thy ===== *)
theory BusMain
  imports BusStart BusListener Discovery
begin

text \<open>
  The program of a message bus from its start to its end (\<^verbatim>\<open>msgbus/main.go\<close>, \<^verbatim>\<open>signal.go\<close>, the connections of \<^verbatim>\<open>msgbus/redis.go\<close>, the pages of \<^verbatim>\<open>msgbus/status.go\<close>): connecting
  to redis, subscribing and loading, listening, registering, and waiting for a signal.  The command line is parsed by Go's \<^verbatim>\<open>flag\<close> package.
\<close>

section \<open>Redis connections\<close>

text \<open>What redis answers to a new connection, to \<^verbatim>\<open>AUTH\<close> and to \<^verbatim>\<open>PING\<close>; the pools are numbered.\<close>

record redis_net =
  rn_dial :: "nat \<Rightarrow> bool"
  rn_auth :: "nat \<Rightarrow> string \<Rightarrow> bool"
  rn_ping :: "nat \<Rightarrow> bool"

definition bus_redix_Max :: nat where "bus_redix_Max = 3"

text \<open>\<^verbatim>\<open>Get\<close> of a pool made by \<^verbatim>\<open>newPool\<close>, which connects as there is no idle connection: is there a connection?\<close>

definition newPool_Get :: "redis_net \<Rightarrow> nat \<Rightarrow> string \<Rightarrow> bool" where
  "newPool_Get N i password = (rn_dial N i \<and> (password \<noteq> [] \<longrightarrow> rn_auth N i password))"

text \<open>The loop over the pools, which ends the program at the first error; the result is the number of pools made and whether it came to the end.\<close>

fun initRedix_from :: "redis_net \<Rightarrow> nat \<Rightarrow> nat \<Rightarrow> nat \<times> bool" where
  "initRedix_from N 0 i = (i, True)"
| "initRedix_from N (Suc k) i = (if newPool_Get N i [] \<and> rn_ping N i then initRedix_from N k (Suc i) else (Suc i, False))"

definition initRedix :: "redis_net \<Rightarrow> bool" where
  "initRedix N = snd (initRedix_from N bus_redix_Max 0)"

section \<open>Status pages\<close>

text \<open>The counters a server registers, in order.\<close>

definition bus_InitStat :: "string list" where
  "bus_InitStat = [rk_total bus_upstream, rk_1s bus_upstream, rk_1m bus_upstream, rk_5m bus_upstream,
     rk_total bus_downstream, bus_key DownStreamOutBad, rk_1s bus_downstream, rk_1m bus_downstream, rk_5m bus_downstream,
     bus_key CometCount, ''RmqCount'', ''MsgsToMq'']"

definition comet_InitStat :: "string list" where
  "comet_InitStat = [comet_key CConnTotal, comet_key CConnOnline,
     comet_key CUpStreamIn, rk_total comet_upstream, rk_1s comet_upstream, rk_1m comet_upstream, rk_5m comet_upstream,
     comet_key CDownStreamIn, rk_total comet_downstream, rk_1s comet_downstream, rk_1m comet_downstream, rk_5m comet_downstream,
     comet_key CMsgbusConns]"

text \<open>The page that shows the user table; \<open>marshal\<close> is Go's JSON encoder.\<close>

datatype 'd http_page = PageError nat | PageJson 'd

definition handleUsermap ::
  "('e, 'h) hosts_ops \<Rightarrow> (nat \<Rightarrow> i64 list) \<Rightarrow> ((string \<rightharpoonup> string list) \<Rightarrow> 'd option) \<Rightarrow> 'h bus \<Rightarrow> 'd http_page" where
  "handleUsermap H keys marshal s = (case marshal (GetAll H keys s) of
     None \<Rightarrow> PageError 500
   | Some data \<Rightarrow> PageJson data)"

section \<open>Start and end\<close>

record bus_args =
  ba_addr :: string
  ba_zkroot :: string
  ba_zkrootr :: string

text \<open>What happens at the start: redis, the replies of the subscription and of the loading commands, whether the address can be listened on, the connection
  to ZooKeeper, its early events and whether the node can be created.\<close>

record bus_start_env =
  be_redis :: redis_net
  be_replies :: "string sub_reply list"
  be_keys :: "string list option"
  be_hkeys :: "string \<Rightarrow> string list option"
  be_listen :: bool
  be_zk :: bool
  be_early :: "zk_event list"
  be_create :: bool

record 'h bus_proc =
  bp_server :: "'h server"
  bp_zk :: bus_zk
  bp_zkOpen :: bool

definition in_bus :: "('h bus, 'a) go \<Rightarrow> ('h bus_proc, 'a) go" where
  "in_bus m p = (case m (server_bus (bp_server p)) of (r, b) \<Rightarrow> (r, p\<lparr>bp_server := (bp_server p)\<lparr>server_bus := b\<rparr>\<rparr>))"

text \<open>A result of \<^verbatim>\<open>Start\<close> other than the end of the program is ignored.\<close>

definition listen_start :: "bool \<Rightarrow> ('h bus_proc, unit) go" where
  "listen_start opened p = (case Start opened (bp_server p) of
     (StartFatal, s) \<Rightarrow> (Panic, p\<lparr>bp_server := s\<rparr>)
   | (_, s) \<Rightarrow> (Ret (), p\<lparr>bp_server := s\<rparr>))"

definition zk_start :: "bus_args \<Rightarrow> bus_start_env \<Rightarrow> ('h bus_proc, unit) go" where
  "zk_start a E p = (case bus_InitZK (ba_addr a) (ba_zkroot a) (be_zk E) (be_early E) (be_create E) (bp_zk p) of
     (ok, z) \<Rightarrow> (if ok then Ret () else Panic, p\<lparr>bp_zk := z, bp_zkOpen := be_zk E\<rparr>))"

definition bus_main :: "('e, 'h) hosts_ops \<Rightarrow> bus_args \<Rightarrow> bus_start_env \<Rightarrow> ('h bus_proc, unit) go" where
  "bus_main H a E =
     go_bind (go_lift (if initRedix (be_redis E) then Some () else None)) (\<lambda>_.
     go_seq (in_bus (bus_start H (be_replies E) (be_keys E) (be_hkeys E)))
    (go_seq (listen_start (be_listen E)) (zk_start a E)))"

text \<open>Signals.  Only two are asked for; a comet goes on waiting after any other, a bus would return.\<close>

datatype os_signal = SIGINT | SIGTERM | SIGOTHER

fun comet_handleSignal :: "'p \<Rightarrow> 'p \<Rightarrow> os_signal list \<Rightarrow> 'p option" where
  "comet_handleSignal running closed [] = None"
| "comet_handleSignal running closed (sig # sigs) = (if sig = SIGINT \<or> sig = SIGTERM then Some closed else comet_handleSignal running closed sigs)"

fun bus_handleSignal :: "'p \<Rightarrow> 'p \<Rightarrow> os_signal list \<Rightarrow> 'p option" where
  "bus_handleSignal running closed [] = None"
| "bus_handleSignal running closed (sig # sigs) = Some (if sig = SIGINT \<or> sig = SIGTERM then closed else running)"

definition CloseZK :: "'h bus_proc \<Rightarrow> 'h bus_proc" where
  "CloseZK p = (if bp_zkOpen p then p\<lparr>bp_zkOpen := False\<rparr> else p)"

definition bus_close :: "'h bus_proc \<Rightarrow> 'h bus_proc" where
  "bus_close p = (let p = CloseZK p in p\<lparr>bp_server := Stop (bp_server p)\<rparr>)"

section \<open>Properties\<close>

lemma initRedix_all: "initRedix N \<longleftrightarrow> (\<forall>i < 3. rn_dial N i \<and> rn_ping N i)"
proof -
  have "snd (initRedix_from N k i) \<longleftrightarrow> (\<forall>j. i \<le> j \<and> j < i + k \<longrightarrow> rn_dial N j \<and> rn_ping N j)" for k i
  proof (induction k arbitrary: i)
    case (Suc k)
    have "(\<forall>j. i \<le> j \<and> j < i + Suc k \<longrightarrow> P j) \<longleftrightarrow> P i \<and> (\<forall>j. Suc i \<le> j \<and> j < Suc i + k \<longrightarrow> P j)" for P
      by (auto simp: Suc_le_eq) (metis le_neq_implies_less)
    then show ?case using Suc by (auto simp: newPool_Get_def)
  qed auto
  then show ?thesis by (simp add: initRedix_def bus_redix_Max_def)
qed

text \<open>Every counter the servers change or show is registered, once.\<close>

theorem counters_registered:
  "distinct bus_InitStat \<and> distinct comet_InitStat \<and> (\<forall>x. bus_key x \<in> set bus_InitStat) \<and> (\<forall>x. comet_key x \<in> set comet_InitStat)
    \<and> set (rate_names bus_upstream @ rate_names bus_downstream) \<subseteq> set bus_InitStat
    \<and> set (rate_names comet_upstream @ rate_names comet_downstream) \<subseteq> set comet_InitStat"
proof -
  have "bus_key x \<in> set bus_InitStat" for x by (cases x) (simp_all add: bus_InitStat_def bus_upstream_def bus_downstream_def)
  moreover have "comet_key x \<in> set comet_InitStat" for x by (cases x) (simp_all add: comet_InitStat_def comet_upstream_def comet_downstream_def)
  ultimately show ?thesis
    by (simp add: bus_InitStat_def comet_InitStat_def rate_names_def bus_upstream_def bus_downstream_def comet_upstream_def comet_downstream_def)
qed

lemma early_ignored: "\<not> zkOk z \<Longrightarrow> fold watchEvent es z = z"
  by (induction es) (simp_all add: watchEvent_def)

lemma zk_start_eq:
  assumes "\<not> zkOk (bp_zk p)"
  shows "zk_start a E p =
    (if \<not> be_zk E then (Panic, p\<lparr>bp_zkOpen := False\<rparr>)
     else (if be_create E then Ret () else Panic,
       p\<lparr>bp_zk := (bp_zk p)\<lparr>zkRoot := ''/'' @ ba_zkroot a, zkListenAddr := ba_addr a, bus_acts := bus_acts (bp_zk p) @ [CreateTempW (''/'' @ ba_zkroot a) (ba_addr a)],
         zkOk := True, watchesRmq := be_create E \<or> watchesRmq (bp_zk p)\<rparr>, bp_zkOpen := True\<rparr>))"
  using assms by (auto simp: zk_start_def bus_InitZK_def early_ignored Let_def)

text \<open>The process at its start, and a bus that is ready: it has loaded the users and accepts comets.\<close>

definition bus_init :: "'h bus \<Rightarrow> bus_zk \<Rightarrow> 'h bus_proc" where
  "bus_init b z = \<lparr>bp_server = NewServer b, bp_zk = z, bp_zkOpen = False\<rparr>"

definition bus_ready :: "('e, 'h) hosts_ops \<Rightarrow> bus_start_env \<Rightarrow> 'h bus \<Rightarrow> 'h bus_proc \<Rightarrow> bool" where
  "bus_ready H E b p \<longleftrightarrow> ln (bp_server p) = Open \<and> accepting (bp_server p) \<and> wg (bp_server p) = 1
     \<and> bus_start H (be_replies E) (be_keys E) (be_hkeys E) b = (Ret (), server_bus (bp_server p))"

lemma bus_main_cases:
  assumes "\<not> zkOk z" and "bus_main H a E (bus_init b z) = (r, p)"
  obtains "r \<noteq> Ret ()" and "bus_acts (bp_zk p) = bus_acts z"
  | "initRedix (be_redis E)" and "bus_ready H E b p" and "bus_acts (bp_zk p) = bus_acts z @ [CreateTempW (''/'' @ ba_zkroot a) (ba_addr a)]"
    and "r = Ret () \<longleftrightarrow> be_create E" and "zkOk (bp_zk p)"
proof (cases "initRedix (be_redis E)")
  case False
  then show thesis using assms that(1) by (auto simp: bus_main_def go_monad bus_init_def)
next
  case True
  obtain r1 b1 where st: "bus_start H (be_replies E) (be_keys E) (be_hkeys E) b = (r1, b1)" by fastforce
  show thesis
  proof (cases "\<exists>x. r1 = Ret x")
    case False
    then show thesis using assms that(1) st True
      by (cases r1) (auto simp: bus_main_def go_monad bus_init_def in_bus_def NewServer_def)
  next
    case ret: True
    let ?p = "\<lparr>bp_server = (NewServer b1)\<lparr>ln := Open, wg := 1, accepting := True\<rparr>, bp_zk = z, bp_zkOpen = False\<rparr>"
    show thesis
    proof (cases "be_listen E")
      case False
      then show thesis using assms that(1) st True ret
        by (auto simp: bus_main_def go_monad bus_init_def in_bus_def NewServer_def listen_start_def Start_def buildListener_def)
    next
      case opened: True
      have "bus_main H a E (bus_init b z) = zk_start a E ?p"
        using st True ret opened
        by (auto simp: bus_main_def go_monad bus_init_def in_bus_def NewServer_def listen_start_def Start_def buildListener_def)
      then have "zk_start a E ?p = (r, p)" using assms(2) by simp
      then show thesis
        using that st ret assms(1) True by (auto simp: zk_start_eq bus_ready_def NewServer_def split: if_splits)
    qed
  qed
qed

text \<open>C23: A bus announces itself only when it can serve: it registers its address at most once during its start, and when it does, it has subscribed, has loaded the users
  that are on line, and is accepting comets; when any step before fails, the program ends without having announced it.\<close>

theorem bus_announced_ready:
  assumes "\<not> zkOk z" and "bus_main H a E (bus_init b z) = (r, p)"
  shows "(bus_acts (bp_zk p) = bus_acts z \<and> r \<noteq> Ret ())
    \<or> (bus_acts (bp_zk p) = bus_acts z @ [CreateTempW (''/'' @ ba_zkroot a) (ba_addr a)] \<and> ln (bp_server p) = Open \<and> accepting (bp_server p)
      \<and> bus_start H (be_replies E) (be_keys E) (be_hkeys E) b = (Ret (), server_bus (bp_server p)))"
  by (rule bus_main_cases [OF assms]) (simp_all add: bus_ready_def)

definition sample_bus_env :: bus_start_env where
  "sample_bus_env = \<lparr>be_redis = \<lparr>rn_dial = \<lambda>_. True, rn_auth = \<lambda>_ _. False, rn_ping = \<lambda>_. True\<rparr>, be_replies = [Subscription 1, Message ''17|10.0.0.2|1''],
     be_keys = Some [], be_hkeys = \<lambda>_. None, be_listen = True, be_zk = True, be_early = [], be_create = True\<rparr>"

definition sample_zk :: bus_zk where
  "sample_zk = \<lparr>zkOk = False, zkRoot = [], zkListenAddr = [], watchesRmq = False, bus_acts = []\<rparr>"

definition sample_bus_args :: bus_args where
  "sample_bus_args = \<lparr>ba_addr = ''10.0.0.9:9923'', ba_zkroot = ''MsgBusServers'', ba_zkrootr = ''Rabbitmq''\<rparr>"

theorem bus_announced_ready_witness:
  "\<exists>p. bus_main (plain_hlist True) sample_bus_args sample_bus_env (bus_init empty_bus sample_zk) = (Ret (), p)
    \<and> bus_acts (bp_zk p) = [CreateTempW ''/MsgBusServers'' ''10.0.0.9:9923''] \<and> accepting (bp_server p)"
proof -
  obtain r p where run: "bus_main (plain_hlist True) sample_bus_args sample_bus_env (bus_init empty_bus sample_zk) = (r, p)" by fastforce
  have "bus_start (plain_hlist True) (be_replies sample_bus_env) (be_keys sample_bus_env) (be_hkeys sample_bus_env) empty_bus =
      handleOnlineEvent (plain_hlist True) [''17|10.0.0.2|1''] empty_bus"
    by (simp add: bus_start_def SubUserState_def LoadUsers_def go_monad sample_bus_env_def empty_bus_def comets.defs)
  moreover have "split_on CHR ''|'' ''17|10.0.0.2|1'' = [''17'', ''10.0.0.2'', ''1'']" by simp
  ultimately have "\<exists>b. bus_start (plain_hlist True) (be_replies sample_bus_env) (be_keys sample_bus_env) (be_hkeys sample_bus_env) empty_bus = (Ret (), b)"
    by (simp add: handleOnlineEvent_def onlineEvent_def go_monad)
  moreover have "initRedix (be_redis sample_bus_env)" by (simp add: initRedix_all sample_bus_env_def)
  ultimately have "r = Ret ()"
    using run by (auto simp: bus_main_def go_monad bus_init_def in_bus_def NewServer_def listen_start_def Start_def buildListener_def
        zk_start_def bus_InitZK_def sample_zk_def Let_def) (simp_all add: sample_bus_env_def zk_start_def bus_InitZK_def Let_def)
  then show ?thesis
    using bus_announced_ready [OF _ run] run by (simp add: sample_zk_def sample_bus_args_def)
qed

text \<open>After a signal a bus serves no new comet, however many there are; what is asked of the system never reaches the other branch of the handlers, so both handlers do the
  same.\<close>

theorem signal_closes:
  assumes "sigs \<noteq> []" and "set sigs \<subseteq> {SIGINT, SIGTERM}"
  shows "bus_handleSignal p (bus_close p) sigs = Some (bus_close p)"
    and "comet_handleSignal p (bus_close p) sigs = bus_handleSignal p (bus_close p) sigs"
    and "ln (bp_server p) \<noteq> NoListener \<Longrightarrow> ln (bp_server (bus_close p)) = Closed"
  using assms by (cases sigs; auto simp: bus_close_def CloseZK_def Stop_def closeListener_def Let_def)+

end
