(* ===== verification/StartRace.thy ===== *)
theory StartRace
  imports BusStart
begin

text \<open>
  The start of a message bus with its goroutines interleaved (\<^verbatim>\<open>msgbus/main.go\<close>, \<^verbatim>\<open>msgbus/redis.go\<close>, \<^verbatim>\<open>msgbus/usermap.go\<close>): \<^verbatim>\<open>handleOnlineEvent\<close> is running while
  \<^verbatim>\<open>LoadUsers\<close> loads the users, and the comets go on.  \<^verbatim>\<open>Load\<close> takes no lock, so that a notification can be handled between its accesses of the table: looking up the
  list of a user, storing a new one, and adding the host to the list.  A notification is handled in one step, and so is each of these accesses.
\<close>

section \<open>Loading, step by step\<close>

datatype loader =
    LKeys
  | LHosts "string list"
  | LUsers string "string list" "string list"
  | LNew string i64 "string list" "string list"
  | LPush string i64 "string list" "string list"
  | LDone

text \<open>The steps of \<^verbatim>\<open>GetAllUsers\<close> and \<^verbatim>\<open>Load\<close> that do not wait for redis.  Nobody else replaces or removes the list of a user, so the list the loader
  holds is the one in the table.\<close>

fun load_step :: "('e, 'h) hosts_ops \<Rightarrow> loader \<Rightarrow> 'h bus \<Rightarrow> (loader \<times> 'h bus) option" where
  "load_step H (LHosts []) s = Some (LDone, s)"
| "load_step H (LUsers host [] hs) s = Some (LHosts hs, s)"
| "load_step H (LUsers host (u # us) hs) s =
     (let uid = fst (ParseInt u)
      in Some (if kv_get s uid = None then LNew host uid us hs else LPush host uid us hs, s))"
| "load_step H (LNew host uid us hs) s = Some (LPush host uid us hs, kv_set uid (hl_New H) s)"
| "load_step H (LPush host uid us hs) s = Some (LUsers host us hs, kv_set uid (snd (hl_PushFront H host (kv_or_new H s uid))) s)"
| "load_step H _ s = None"

text \<open>The whole system: redis, the notifications published since the subscription and not handled yet, the loader and the table.\<close>

record ('r, 'h) starting =
  st_redis :: 'r
  pending :: "string list"
  loader_at :: loader
  st_bus :: "'h bus"

datatype start_label = Comet comet_op | Handle | Keys "string list option" | HKeys "string list option" | LoadStep

text \<open>A step of a comet, of \<^verbatim>\<open>handleOnlineEvent\<close>, or of the loader.  \<^term>\<open>None\<close>: the step is not possible, or the program ends.\<close>

fun start_step :: "'r redis_ops \<Rightarrow> ('e, 'h) hosts_ops \<Rightarrow> start_label \<Rightarrow> ('r, 'h) starting \<Rightarrow> ('r, 'h) starting option" where
  "start_step R H (Comet op) st =
     (let r = comet_step R op (st_redis st)
      in Some (st\<lparr>st_redis := r, pending := pending st @ drop (length (notices_of R (st_redis st))) (notices_of R r)\<rparr>))"
| "start_step R H Handle st = (case pending st of
     [] \<Rightarrow> None
   | d # ds \<Rightarrow> (case onlineEvent H d (st_bus st) of
        (Ret _, b) \<Rightarrow> Some (st\<lparr>pending := ds, st_bus := b\<rparr>)
      | _ \<Rightarrow> None))"
| "start_step R H (Keys a) st = (case (loader_at st, a) of
     (LKeys, Some hs) \<Rightarrow> Some (st\<lparr>loader_at := LHosts hs\<rparr>)
   | _ \<Rightarrow> None)"
| "start_step R H (HKeys a) st = (case loader_at st of
     LHosts (host # hs) \<Rightarrow> Some (st\<lparr>loader_at := (case a of None \<Rightarrow> LHosts hs | Some us \<Rightarrow> LUsers (hostName host) us hs)\<rparr>)
   | _ \<Rightarrow> None)"
| "start_step R H LoadStep st = (case load_step H (loader_at st) (st_bus st) of
     None \<Rightarrow> None
   | Some (l, b) \<Rightarrow> Some (st\<lparr>loader_at := l, st_bus := b\<rparr>))"

fun start_run :: "'r redis_ops \<Rightarrow> ('e, 'h) hosts_ops \<Rightarrow> start_label list \<Rightarrow> ('r, 'h) starting \<Rightarrow> ('r, 'h) starting option" where
  "start_run R H [] st = Some st"
| "start_run R H (l # ls) st = (case start_step R H l st of None \<Rightarrow> None | Some st' \<Rightarrow> start_run R H ls st')"

text \<open>When the subscription is confirmed.\<close>

definition subscribed :: "'r \<Rightarrow> 'h bus \<Rightarrow> ('r, 'h) starting" where
  "subscribed r s = \<lparr>st_redis = r, pending = [], loader_at = LKeys, st_bus = s\<lparr>kv := InitUserMap\<rparr>\<rparr>"

section \<open>Undisturbed, the steps are the function\<close>

lemma start_run_append: "start_run R H (ls @ ls') st = (case start_run R H ls st of None \<Rightarrow> None | Some st' \<Rightarrow> start_run R H ls' st')"
  by (induction ls arbitrary: st) (simp_all split: option.split)

lemma starting_swap: "st\<lparr>st_bus := b, loader_at := l\<rparr> = st\<lparr>loader_at := l, st_bus := b\<rparr>"
  by (cases st) simp

lemma kv_set_set: "kv_set uid b (kv_set uid a s) = kv_set uid b s"
  by (cases "bn uid < length (kv s)") (simp_all add: kv_set_def block_set_def list_update_beyond)

text \<open>One round of \<^verbatim>\<open>Load\<close>, whether or not the user has a list.\<close>

lemma load_user_alone:
  assumes "user_wf s"
  shows "\<exists>n. start_run R H (replicate n LoadStep) (st\<lparr>loader_at := LUsers host (u # us) hs, st_bus := s\<rparr>) =
    Some (st\<lparr>loader_at := LUsers host us hs, st_bus := Load H [u] host s\<rparr>)"
proof (cases "kv_get s (fst (ParseInt u))")
  case None
  then show ?thesis
    using assms by (intro exI [of _ 3]) (simp add: numeral_3_eq_3 Let_def kv_or_new_def kv_set_set)
next
  case (Some l)
  then show ?thesis by (intro exI [of _ 2]) (simp add: numeral_2_eq_2 Let_def)
qed

lemma wf_Load: "user_wf s \<Longrightarrow> user_wf (Load H us host s)"
  by (induction us arbitrary: s) (simp_all add: Let_def)

lemma load_alone:
  assumes "user_wf s"
  shows "\<exists>n. start_run R H (replicate n LoadStep) (st\<lparr>loader_at := LUsers host us hs, st_bus := s\<rparr>) =
    Some (st\<lparr>loader_at := LUsers host [] hs, st_bus := Load H us host s\<rparr>)"
  using assms
proof (induction us arbitrary: s)
  case Nil
  show ?case by (intro exI [of _ 0]) simp
next
  case (Cons u us)
  obtain n where n: "start_run R H (replicate n LoadStep) (st\<lparr>loader_at := LUsers host (u # us) hs, st_bus := s\<rparr>) =
      Some (st\<lparr>loader_at := LUsers host us hs, st_bus := Load H [u] host s\<rparr>)"
    using load_user_alone [OF Cons.prems] by blast
  obtain m where "start_run R H (replicate m LoadStep) (st\<lparr>loader_at := LUsers host us hs, st_bus := Load H [u] host s\<rparr>) =
      Some (st\<lparr>loader_at := LUsers host [] hs, st_bus := Load H us host (Load H [u] host s)\<rparr>)"
    using Cons.IH [OF wf_Load [OF Cons.prems, of H "[u]" host]] by blast
  then show ?case
    using n by (intro exI [of _ "n + m"]) (simp add: replicate_add start_run_append Let_def)
qed

text \<open>Steps of the loader alone, with the answers it gets.\<close>

definition loads :: "(string \<Rightarrow> string list option) \<Rightarrow> string list \<Rightarrow> start_label list \<Rightarrow> bool" where
  "loads hkeys hs ls \<longleftrightarrow> filter (\<lambda>l. l \<noteq> LoadStep) ls = map (\<lambda>h. HKeys (hkeys h)) hs"

lemma get_all_alone:
  assumes "user_wf s"
  shows "\<exists>ls. loads hkeys hs ls \<and> start_run R H ls (st\<lparr>loader_at := LHosts hs, st_bus := s\<rparr>) =
    Some (st\<lparr>loader_at := LDone, st_bus := GetAllUsers H hkeys hs s\<rparr>)"
  using assms
proof (induction hs arbitrary: s)
  case Nil
  show ?case by (intro exI [of _ "replicate 1 LoadStep"]) (simp add: loads_def)
next
  case (Cons h hs)
  show ?case
  proof (cases "hkeys h")
    case None
    obtain ls where "loads hkeys hs ls" "start_run R H ls (st\<lparr>loader_at := LHosts hs, st_bus := s\<rparr>) =
        Some (st\<lparr>loader_at := LDone, st_bus := GetAllUsers H hkeys hs s\<rparr>)" using Cons by blast
    then show ?thesis using None by (intro exI [of _ "HKeys None # ls"]) (simp add: loads_def starting_swap)
  next
    case (Some us)
    let ?s = "Load H us (hostName h) s"
    obtain n where n: "start_run R H (replicate n LoadStep) (st\<lparr>loader_at := LUsers (hostName h) us hs, st_bus := s\<rparr>) =
        Some (st\<lparr>loader_at := LUsers (hostName h) [] hs, st_bus := ?s\<rparr>)"
      using load_alone [OF Cons.prems] by blast
    obtain ls where ls: "loads hkeys hs ls" "start_run R H ls (st\<lparr>loader_at := LHosts hs, st_bus := ?s\<rparr>) =
        Some (st\<lparr>loader_at := LDone, st_bus := GetAllUsers H hkeys hs ?s\<rparr>)"
      using Cons.IH [OF wf_Load [OF Cons.prems]] by blast
    have "start_run R H (HKeys (hkeys h) # replicate n LoadStep @ LoadStep # ls) (st\<lparr>loader_at := LHosts (h # hs), st_bus := s\<rparr>) =
        Some (st\<lparr>loader_at := LDone, st_bus := GetAllUsers H hkeys hs ?s\<rparr>)"
      using n ls(2) by (simp add: Some start_run_append starting_swap)
    then show ?thesis
      using ls(1) Some by (intro exI [of _ "HKeys (hkeys h) # replicate n LoadStep @ LoadStep # ls"]) (simp add: loads_def)
  qed
qed

section \<open>What a run keeps\<close>

text \<open>What a notification says of one user at one host, and what a sequence of them leaves.\<close>

fun hears :: "i64 \<Rightarrow> string \<Rightarrow> notice \<Rightarrow> bool \<Rightarrow> bool" where
  "hears u h (Up u' h') b \<longleftrightarrow> b \<or> (u' = u \<and> h' = h)"
| "hears u h (Down u' h') b \<longleftrightarrow> b \<and> \<not> (u' = u \<and> h' = h)"
| "hears u h (HostDown h') b \<longleftrightarrow> b \<and> h' \<noteq> h"

abbreviation after :: "i64 \<Rightarrow> string \<Rightarrow> notice list \<Rightarrow> bool \<Rightarrow> bool" where
  "after u h evs \<equiv> fold (hears u h) evs"

lemma hears_mono: "hears u h ev False \<Longrightarrow> hears u h ev True"
  by (cases ev) simp_all

lemma hears_iff: "hears u h ev b \<longleftrightarrow> hears u h ev False \<or> (b \<and> hears u h ev True)"
  by (cases ev) auto

text \<open>Will the loader still add the user at the host?\<close>

fun awaited :: "loader \<Rightarrow> i64 \<Rightarrow> string \<Rightarrow> bool" where
  "awaited LKeys u h \<longleftrightarrow> True"
| "awaited (LHosts hs) u h \<longleftrightarrow> HostUsers h \<in> set hs"
| "awaited (LUsers host us hs) u h \<longleftrightarrow> (host = h \<and> FormatInt u \<in> set us) \<or> HostUsers h \<in> set hs"
| "awaited (LNew host uid us hs) u h \<longleftrightarrow> (host = h \<and> (uid = u \<or> FormatInt u \<in> set us)) \<or> HostUsers h \<in> set hs"
| "awaited (LPush host uid us hs) u h \<longleftrightarrow> (host = h \<and> (uid = u \<or> FormatInt u \<in> set us)) \<or> HostUsers h \<in> set hs"
| "awaited LDone u h \<longleftrightarrow> False"

context host_lists
begin

text \<open>Removing leaves what does not match, however the traversal goes on after a removal.\<close>

lemma remove_loop_keeps:
  assumes "set es \<subseteq> set (hl_elems H h)" and "distinct es" and "x \<in> set (hl_elems H h)" and "\<not> P (hl_Value H x)"
  shows "x \<in> set (hl_elems H (fst (remove_loop H P es h n)))"
  using assms
proof (induction es arbitrary: h n rule: length_induct)
  case (1 es)
  show ?case
  proof (cases es)
    case (Cons e es')
    show ?thesis
    proof (cases "P (hl_Value H e)")
      case True
      have rm: "set (hl_elems H (hl_Remove H e h)) = set (hl_elems H h) - {e}"
        using 1(2) Cons by simp
      have "x \<noteq> e" using True 1(5) by auto
      then have "x \<in> set (hl_elems H (fst (remove_loop H P (if hl_resume H then es' else []) (hl_Remove H e h) (Suc n))))"
        using 1 Cons rm by (intro 1(1) [rule_format]) auto
      then show ?thesis using True Cons by simp
    next
      case False
      then show ?thesis using 1 Cons by auto
    qed
  qed (use 1 in simp)
qed

lemma remove_host_keeps:
  "h' \<noteq> h \<Longrightarrow> h \<in> set (hl_vals H l) \<Longrightarrow> h \<in> set (hl_vals H (fst (remove_loop H (\<lambda>x. x = h') (hl_elems H l) l 0)))"
  using remove_loop_keeps [of "hl_elems H l" l _ "\<lambda>x. x = h'" 0] by (auto simp: hl_vals_def)

text \<open>Handling a notification on a table that may list a host twice.\<close>

lemma apply_notice_wf: "user_wf s \<Longrightarrow> user_wf (apply_notice H ev s)"
  by (cases ev) (simp_all add: wf_Online wf_Offline wf_OfflineHost)

lemma kv_get_OfflineHost:
  "user_wf s \<Longrightarrow> kv_get (OfflineHost H host s) u = map_option (\<lambda>l. fst (remove_loop H (\<lambda>h. h = host) (hl_elems H l) l 0)) (kv_get s u)"
  using ub.get_map [of "kv s"] by (simp add: user_wf_def kv_get_def OfflineHost_def)

lemma apply_notice_hears:
  assumes "user_wf s" and "hears u h ev (h \<in> online_at H s u)"
  shows "h \<in> online_at H (apply_notice H ev s) u"
proof (cases ev)
  case (Up u' h')
  then show ?thesis using assms by (auto simp: online_at_def host_list_def hosts_Online)
next
  case (Down u' h')
  then show ?thesis
    using assms remove_host_keeps [of h' h]
    by (auto simp: online_at_def host_list_def hosts_def Offline_def split: option.splits)
next
  case (HostDown h')
  then show ?thesis
    using assms remove_host_keeps [of h' h]
    by (auto simp: online_at_def host_list_def hosts_def kv_get_OfflineHost split: option.splits)
qed

lemma apply_notice_unknown:
  assumes "user_wf s" and "kv_get s uid = None" and "\<And>h. ev \<noteq> Up uid h"
  shows "kv_get (apply_notice H ev s) uid = None"
  using assms by (cases ev) (auto simp: Online_def Let_def Offline_def kv_get_OfflineHost split: option.splits)

lemma online_at_New:
  assumes "user_wf s" and "kv_get s uid = None"
  shows "online_at H (kv_set uid (hl_New H) s) u = online_at H s u"
proof -
  have "hosts H s uid = None" using assms(2) by (simp add: hosts_def)
  then show ?thesis using assms(1) by (simp add: online_at_def host_list_def)
qed

lemma online_at_Push:
  "user_wf s \<Longrightarrow> online_at H (kv_set uid (snd (hl_PushFront H host (kv_or_new H s uid))) s) u =
     (if u = uid then insert host (online_at H s u) else online_at H s u)"
  using hosts_Load1 [of s uid host] by (auto simp: online_at_def host_list_def)

end

text \<open>Redis answers correctly and the comets behave; the second condition: no notification that a user has come on line is handled while the loader is between
  looking up that user in vain and storing a new list.\<close>

fun label_ok :: "'r redis_ops \<Rightarrow> start_label \<Rightarrow> ('r, 'h) starting \<Rightarrow> bool" where
  "label_ok R (Comet op) st \<longleftrightarrow> op_ok R (st_redis st) op"
| "label_ok R (Keys a) st \<longleftrightarrow> (\<exists>ks. a = Some ks \<and> (\<forall>k. k \<in> set ks \<longleftrightarrow> (\<exists>u h. k = HostUsers h \<and> 0 < conns R (st_redis st) u h)))"
| "label_ok R (HKeys a) st \<longleftrightarrow> (\<exists>us. a = Some us \<and> (\<forall>host hs. loader_at st = LHosts (host # hs) \<longrightarrow>
     (\<forall>x. x \<in> set us \<longleftrightarrow> (\<exists>u. x = FormatInt u \<and> 0 < conns R (st_redis st) u (hostName host)))))"
| "label_ok R Handle st \<longleftrightarrow> True"
| "label_ok R LoadStep st \<longleftrightarrow> True"

definition calm :: "start_label \<Rightarrow> ('r, 'h) starting \<Rightarrow> bool" where
  "calm l st \<longleftrightarrow> \<not> (l = Handle \<and> (\<exists>host uid us hs h. loader_at st = LNew host uid us hs \<and> pending st \<noteq> [] \<and> hd (pending st) = notice_text (Up uid h)))"

fun along :: "(start_label \<Rightarrow> ('r, 'h) starting \<Rightarrow> bool) \<Rightarrow> 'r redis_ops \<Rightarrow> ('e, 'h) hosts_ops \<Rightarrow> start_label list \<Rightarrow> ('r, 'h) starting \<Rightarrow> bool" where
  "along P R H [] st \<longleftrightarrow> True"
| "along P R H (l # ls) st \<longleftrightarrow> P l st \<and> (case start_step R H l st of None \<Rightarrow> True | Some st' \<Rightarrow> along P R H ls st')"

text \<open>An open connection is in the table or will come there: what is still to be handled announces it, or at least does not revoke it and the table has it or the loader
  will add it.\<close>

definition kept :: "'r redis_ops \<Rightarrow> ('e, 'h) hosts_ops \<Rightarrow> notice list \<Rightarrow> ('r, 'h) starting \<Rightarrow> i64 \<Rightarrow> string \<Rightarrow> bool" where
  "kept R H evs st u h \<longleftrightarrow> 0 \<le> conns R (st_redis st) u h \<and> (0 < conns R (st_redis st) u h \<longrightarrow>
     after u h evs False \<or> (after u h evs True \<and> (h \<in> online_at H (st_bus st) u \<or> awaited (loader_at st) u h)))"

definition start_inv :: "'r redis_ops \<Rightarrow> ('e, 'h) hosts_ops \<Rightarrow> notice list \<Rightarrow> ('r, 'h) starting \<Rightarrow> bool" where
  "start_inv R H evs st \<longleftrightarrow> user_wf (st_bus st) \<and> pending st = map notice_text evs \<and> (\<forall>ev \<in> set evs. notice_ok ev)
     \<and> (\<forall>host uid us hs. loader_at st = LNew host uid us hs \<longrightarrow> kv_get (st_bus st) uid = None) \<and> (\<forall>u h. kept R H evs st u h)"

context comet_redis
begin

lemma after_mono: "after u h evs False \<Longrightarrow> after u h evs True"
  by (induction evs rule: rev_induct) (auto, metis hears_iff)

lemma kept_Comet:
  assumes "kept R H evs st u h" and "op_ok R (st_redis st) op"
  shows "kept R H (evs @ op_notice R (st_redis st) op) (st\<lparr>st_redis := comet_step R op (st_redis st), pending := p\<rparr>) u h"
  using assms after_mono [of u h evs]
  by (cases op) (auto simp: kept_def comet_step_count simp del: comet_step.simps split: if_splits)

lemma inv_Comet:
  assumes "start_inv R H evs st" and "op_ok R (st_redis st) op" and "start_step R H (Comet op) st = Some st'"
  shows "start_inv R H (evs @ op_notice R (st_redis st) op) st'"
  using assms kept_Comet [of H evs st _ _ op] notice_ok_op [OF assms(2)]
  by (auto simp: start_inv_def Let_def comet_step_notices simp del: comet_step.simps)

lemma inv_Handle:
  assumes "hlist H" and inv: "start_inv R H (ev # evs) st" and "calm Handle st"
  shows "\<exists>st'. start_step R H Handle st = Some st' \<and> start_inv R H evs st'"
proof -
  note L = host_lists.intro [OF assms(1)]
  let ?b = "apply_notice H ev (st_bus st)"
  have wf: "user_wf (st_bus st)" using inv by (simp add: start_inv_def)
  have step: "start_step R H Handle st = Some (st\<lparr>pending := map notice_text evs, st_bus := ?b\<rparr>)"
    using inv by (simp add: start_inv_def onlineEvent_notice)
  have kept: "kept R H evs (st\<lparr>pending := map notice_text evs, st_bus := ?b\<rparr>) u h" for u h
  proof -
    have "kept R H (ev # evs) st u h" using inv by (simp add: start_inv_def)
    moreover have "hears u h ev (h \<in> online_at H (st_bus st) u) \<Longrightarrow> h \<in> online_at H ?b u"
      by (rule host_lists.apply_notice_hears [OF L wf])
    ultimately show ?thesis
      using after_mono [of u h evs] hears_iff [of u h ev "h \<in> online_at H (st_bus st) u"]
      by (cases "hears u h ev False"; cases "hears u h ev True") (auto simp: kept_def)
  qed
  have unknown: "kv_get ?b uid = None" if new: "loader_at st = LNew host uid us hs" for host uid us hs
  proof (rule host_lists.apply_notice_unknown [OF L wf])
    show "kv_get (st_bus st) uid = None" using inv new by (simp add: start_inv_def)
    show "ev \<noteq> Up uid h" for h using inv new assms(3) by (auto simp: start_inv_def calm_def)
  qed
  have "start_inv R H evs (st\<lparr>pending := map notice_text evs, st_bus := ?b\<rparr>)"
    using inv host_lists.apply_notice_wf [OF L wf] unknown unfolding start_inv_def by (auto intro!: kept)
  then show ?thesis using step by blast
qed

text \<open>A step of the loader: what is awaited stays so or has come.\<close>

lemma inv_loader:
  assumes "start_inv R H evs st" and "user_wf b"
    and "\<And>u h. 0 < conns R (st_redis st) u h \<Longrightarrow> h \<in> online_at H (st_bus st) u \<or> awaited (loader_at st) u h \<Longrightarrow> h \<in> online_at H b u \<or> awaited l u h"
    and "\<And>host uid us hs. l = LNew host uid us hs \<Longrightarrow> kv_get b uid = None"
  shows "start_inv R H evs (st\<lparr>loader_at := l, st_bus := b\<rparr>)"
proof -
  have "kept R H evs (st\<lparr>loader_at := l, st_bus := b\<rparr>) u h" for u h
  proof -
    have "kept R H evs st u h" using assms(1) by (simp add: start_inv_def)
    then show ?thesis using assms(3) [of h u] unfolding kept_def by auto
  qed
  then show ?thesis using assms(1,2,4) by (simp add: start_inv_def)
qed

lemma inv_LoadStep:
  assumes "hlist H" and inv: "start_inv R H evs st" and step: "start_step R H LoadStep st = Some st'"
  shows "start_inv R H evs st'"
proof -
  note L = host_lists.intro [OF assms(1)]
  obtain l b where lb: "load_step H (loader_at st) (st_bus st) = Some (l, b)" "st' = st\<lparr>loader_at := l, st_bus := b\<rparr>"
    using step by (auto split: option.splits)
  have wf: "user_wf (st_bus st)" and new: "\<And>host uid us hs. loader_at st = LNew host uid us hs \<Longrightarrow> kv_get (st_bus st) uid = None"
    using inv by (auto simp: start_inv_def)
  show ?thesis
    unfolding lb(2)
  proof (rule inv_loader [OF inv])
    show "user_wf b" using lb(1) wf by (cases "(H, loader_at st, st_bus st)" rule: load_step.cases) (auto simp: Let_def)
    show "kv_get b uid = None" if "l = LNew host uid us hs" for host uid us hs
      using lb(1) that by (cases "(H, loader_at st, st_bus st)" rule: load_step.cases) (auto simp: Let_def split: if_splits)
    show "h \<in> online_at H b u \<or> awaited l u h" if "h \<in> online_at H (st_bus st) u \<or> awaited (loader_at st) u h" for u h
      using lb(1) that wf new
      by (cases "(H, loader_at st, st_bus st)" rule: load_step.cases)
         (auto simp: Let_def host_lists.online_at_New [OF L] host_lists.online_at_Push [OF L] ParseInt_FormatInt split: if_splits)
  qed
qed

lemma inv_Keys:
  assumes inv: "start_inv R H evs st" and "label_ok R l st" and "l = Keys a \<or> l = HKeys a" and step: "start_step R H l st = Some st'"
  shows "start_inv R H evs st'"
proof -
  obtain ans where ans: "a = Some ans" using assms(2,3) by auto
  have wf: "user_wf (st_bus st)" using inv by (simp add: start_inv_def)
  have eq: "st' = st\<lparr>loader_at := loader_at st', st_bus := st_bus st\<rparr>"
    using step assms(3) by (auto split: loader.splits option.splits list.splits)
  show ?thesis
    by (subst eq, rule inv_loader [OF inv wf])
       (use step assms(2,3) ans in \<open>auto split: loader.splits option.splits list.splits\<close>)
qed

lemma run_inv:
  assumes "hlist H" and "start_inv R H evs st" and "along (label_ok R) R H ls st" and "along calm R H ls st" and "start_run R H ls st = Some st'"
  shows "\<exists>evs'. start_inv R H evs' st'"
  using assms(2-)
proof (induction ls arbitrary: evs st)
  case Nil
  then show ?case by auto
next
  case (Cons l ls)
  obtain st1 where st1: "start_step R H l st = Some st1" "start_run R H ls st1 = Some st'"
    using Cons.prems(4) by (auto split: option.splits)
  have "\<exists>evs1. start_inv R H evs1 st1"
  proof (cases l)
    case (Comet op)
    then show ?thesis using inv_Comet [OF Cons.prems(1)] Cons.prems(2) st1(1) by auto
  next
    case Handle
    then obtain ev evs1 where "evs = ev # evs1" using st1(1) Cons.prems(1) by (cases evs) (auto simp: start_inv_def)
    then show ?thesis using inv_Handle [OF assms(1)] Cons.prems(1,3) st1(1) Handle by force
  next
    case LoadStep
    then show ?thesis using inv_LoadStep [OF assms(1) Cons.prems(1)] st1(1) by auto
  next
    case (Keys a)
    then show ?thesis using inv_Keys [OF Cons.prems(1), of l a] Cons.prems(2) st1(1) by auto
  next
    case (HKeys a)
    then show ?thesis using inv_Keys [OF Cons.prems(1), of l a] Cons.prems(2) st1(1) by auto
  qed
  then show ?case using Cons.IH [OF _ _ _ st1(2)] Cons.prems(2,3) st1(1) by auto
qed

lemma subscribed_inv: "(\<And>u h. 0 \<le> conns R r u h) \<Longrightarrow> start_inv R H [] (subscribed r s)"
  using user_wf_init [of "s\<lparr>kv := InitUserMap\<rparr>" H] by (simp add: start_inv_def subscribed_def kept_def)

end

section \<open>Properties\<close>



text \<open>A run in which the user comes to another host while the loader is about to store a new list.\<close>

definition losing_run :: "i64 \<Rightarrow> string \<Rightarrow> string \<Rightarrow> start_label list" where
  "losing_run u h h' = [Keys (Some [HostUsers h]), HKeys (Some [FormatInt u]), LoadStep, Comet (Connect u h'), Handle, LoadStep, LoadStep, LoadStep, LoadStep]"

lemma unknown_init: "kv_get (s\<lparr>kv := InitUserMap\<rparr>) u = None" "user_wf (s\<lparr>kv := InitUserMap\<rparr>)"
  using ub.wf_init ub.get_init by (simp_all add: user_wf_def InitUserMap_def BlockSize_def kv_get_def)

lemma comet_label:
  assumes "comet_redis R"
  shows "start_step R H (Comet op) st = Some (st\<lparr>st_redis := comet_step R op (st_redis st), pending := pending st @ map notice_text (op_notice R (st_redis st) op)\<rparr>)"
  by (simp add: Let_def comet_redis.comet_step_notices [OF assms] del: comet_step.simps)


lemma none_connected: "conns plain_redis empty_store u h = 0"
  by (simp add: plain_redis_def empty_store_def)

lemma one_connected:
  "conns plain_redis (comet_step plain_redis (Connect 17 ''a'') empty_store) u h = (if u = 17 \<and> h = ''a'' then 1 else 0)"
  by (simp add: plain_comets.comet_step_count none_connected del: comet_step.simps)



text \<open>C39: And in the one window a user is lost: when a user that is connected at one host connects at another just after the loader has looked the user up in vain, the
  loader replaces the list the notification has created; in the end the bus does not list the user at the second host, although the connection is
  open and everything has been handled.\<close>

theorem start_loses_a_user:
  assumes "hlist H" and R: "comet_redis R" and only: "\<And>u' h'. conns R r u' h' = (if u' = u \<and> h' = h then 1 else 0)" and "u \<noteq> 0"
    and "CHR ''|'' \<notin> set h'" and "h' \<noteq> h"
  shows "\<exists>st. along (label_ok R) R H (losing_run u h h') (subscribed r s) \<and> start_run R H (losing_run u h h') (subscribed r s) = Some st
    \<and> loader_at st = LDone \<and> pending st = [] \<and> conns R (st_redis st) u h' = 1 \<and> h' \<notin> online_at H (st_bus st) u"
proof -
  note L = host_lists.intro [OF assms(1)]
  let ?s = "s\<lparr>kv := InitUserMap\<rparr>" and ?r = "comet_step R (Connect u h') r"
  let ?s1 = "Online H u h' ?s"
  let ?s2 = "kv_set u (hl_New H) ?s1"
  let ?s3 = "kv_set u (snd (hl_PushFront H h (kv_or_new H ?s2 u))) ?s2"
  have up: "onlineEvent H (notice_text (Up u h')) ?s = (Ret (), ?s1)"
    using assms(5) onlineEvent_notice [of "Up u h'" H ?s] by simp
  have wf: "user_wf ?s1" by (rule host_lists.wf_Online [OF L unknown_init(2)])
  note steps = losing_run_def subscribed_def comet_label [OF R] only up ParseInt_FormatInt unknown_init wf
  have "start_run R H (losing_run u h h') (subscribed r s) = Some \<lparr>st_redis = ?r, pending = [], loader_at = LDone, st_bus = ?s3\<rparr>"
    using assms(6) by (simp add: steps del: start_step.simps(1) notice_text.simps comet_step.simps)
  moreover have "along (label_ok R) R H (losing_run u h h') (subscribed r s)"
    using assms(4-6) by (simp add: steps del: start_step.simps(1) notice_text.simps comet_step.simps)
  moreover have "conns R ?r u h' = 1" using assms(6) by (simp add: comet_redis.comet_step_count [OF R] only del: comet_step.simps)
  moreover have "hosts H ?s2 u = Some []" using wf hlist.vals_New [OF assms(1)] by simp
  then have "online_at H ?s3 u = {h}"
    using wf host_lists.online_at_Push [OF L, of ?s2 u h u] by (simp add: online_at_def host_list_def)
  ultimately show ?thesis using assms(6) by auto
qed

theorem start_loses_a_user_witness:
  "\<exists>st. start_run plain_redis (plain_hlist True) (losing_run 17 ''a'' ''b'') (subscribed (comet_step plain_redis (Connect 17 ''a'') empty_store) empty_bus) = Some st
    \<and> loader_at st = LDone \<and> pending st = [] \<and> conns plain_redis (st_redis st) 17 ''b'' = 1 \<and> ''b'' \<notin> online_at (plain_hlist True) (st_bus st) 17"
  using start_loses_a_user [OF plain.hlist_axioms plain_comets.comet_redis_axioms one_connected, of "''b''" True empty_bus] by auto

text \<open>A loader that is not disturbed does exactly what the sequential function does.\<close>

theorem loading_alone:
  assumes "loader_at st = LKeys" and "user_wf (st_bus st)"
  shows "\<exists>ls. loads hkeys hs ls \<and> start_run R H (Keys (Some hs) # ls) st = Some (st\<lparr>loader_at := LDone, st_bus := snd (LoadUsers H (Some hs) hkeys (st_bus st))\<rparr>)"
proof -
  have "st\<lparr>loader_at := LHosts hs\<rparr> = st\<lparr>loader_at := LHosts hs, st_bus := st_bus st\<rparr>" by simp
  then show ?thesis
    using get_all_alone [OF assms(2), of hkeys hs R H st] assms(1) by (auto simp: LoadUsers_def)
qed

theorem loading_alone_witness:
  "\<exists>ls. loads (\<lambda>_. Some [FormatInt 17]) [HostUsers ''a''] ls
    \<and> start_run plain_redis (plain_hlist True) (Keys (Some [HostUsers ''a'']) # ls) (subscribed empty_store empty_bus) =
      Some (subscribed empty_store empty_bus\<lparr>loader_at := LDone,
        st_bus := snd (LoadUsers (plain_hlist True) (Some [HostUsers ''a'']) (\<lambda>_. Some [FormatInt 17]) (empty_bus\<lparr>kv := InitUserMap\<rparr>))\<rparr>)"
  using loading_alone [of "subscribed empty_store empty_bus" "\<lambda>_. Some [FormatInt 17]" "[HostUsers ''a'']" plain_redis "plain_hlist True"] unknown_init(2) [of empty_bus]
  by (simp add: subscribed_def)

end
