(* ===== verification/Session.thy ===== *)
theory Session
  imports BusMan Blocks
begin

text \<open>
  The sessions of a websocket comet (\<^verbatim>\<open>comet/session.go\<close>, \<^verbatim>\<open>comet/util.go\<close>, the websocket part of
  \<^verbatim>\<open>comet/conn.go\<close>): every id in use has a list of sessions, in 128 blocks.

  A list element holds a pointer to a session, and the sessions are changed through these pointers,
  so the model has a heap of sessions and lists of addresses.  An id is negative for a board, a
  multiple of 16 for a user, and a user's id plus 1 to 15 for the user's phones.
\<close>

section \<open>Ids\<close>

definition BlockSize :: i64 where "BlockSize = 128"

definition kUseridUnit :: i64 where "kUseridUnit = 16"

definition getBlockID :: "i64 \<Rightarrow> i64" where
  "getBlockID uid = (if go_pos uid then go_rem uid BlockSize else go_rem (- uid) BlockSize)"

abbreviation blk :: "i64 \<Rightarrow> nat" where
  "blk uid \<equiv> nat (sint (getBlockID uid))"

text \<open>The ids \<open>i+1, ..., i+15\<close> of a user's phones.\<close>

definition phones :: "i64 \<Rightarrow> i64 list" where
  "phones i = map (\<lambda>j. i + of_nat j) [1..<16]"

definition TransId :: "i64 \<Rightarrow> i64 list" where
  "TransId i = (if go_neg i then [i] else if go_rem i kUseridUnit \<noteq> 0 then [] else phones i)"

section \<open>Sessions\<close>

record Session =
  Uid :: i64
  BindedIds :: "i64 list"
  Conn :: "ws_conn option"

definition isBinded :: "Session \<Rightarrow> i64 \<Rightarrow> bool" where
  "isBinded s i =
     (let i = (if go_neg (Uid s) then i - go_rem i kUseridUnit else i)
      in i \<in> set (BindedIds s))"

definition calcDestIds :: "Session \<Rightarrow> i64 \<Rightarrow> i64 list" where
  "calcDestIds s toId =
     (if toId = 0 then
        (if go_pos (Uid s) then BindedIds s
         else concat (map (\<lambda>b. map (\<lambda>j. b + of_nat j) [1..<16]) (BindedIds s)))
      else if \<not> isBinded s toId then []
      else if go_neg (Uid s) \<and> go_rem toId kUseridUnit = 0 then map (\<lambda>j. toId + of_nat j) [1..<16]
      else [toId])"

record ('e, 'h, 'g) comet = "('e, 'h) busman" +
  onlined :: "(i64 \<rightharpoonup> 'g) list"
  heap :: "nat \<rightharpoonup> Session"
  sess_fresh :: nat

type_synonym ('f, 'g) sess_ops = "('f, nat, 'g) hlist_ops"

definition InitSessionList :: "(i64 \<rightharpoonup> 'g) list" where
  "InitSessionList = replicate (nat (sint BlockSize)) Map.empty"

definition on_get :: "('e, 'h, 'g) comet \<Rightarrow> i64 \<rightharpoonup> 'g" where
  "on_get s = block_get blk (onlined s)"

definition on_set :: "i64 \<Rightarrow> 'g option \<Rightarrow> ('e, 'h, 'g) comet \<Rightarrow> ('e, 'h, 'g) comet" where
  "on_set uid l s = s\<lparr>onlined := block_set blk uid l (onlined s)\<rparr>"

definition deref :: "nat \<Rightarrow> (('e, 'h, 'g) comet, Session) go" where
  "deref a = go_bind (go_get (\<lambda>s. heap s a)) go_lift"

definition set_session :: "nat \<Rightarrow> (Session \<Rightarrow> Session) \<Rightarrow> (('e, 'h, 'g) comet, unit) go" where
  "set_session a f = go_upd (\<lambda>s. s\<lparr>heap := (heap s)(a := map_option f (heap s a))\<rparr>)"

definition NewWsSession :: "i64 \<Rightarrow> i64 list \<Rightarrow> ws_conn option \<Rightarrow> (('e, 'h, 'g) comet, nat) go" where
  "NewWsSession uid bindedIds conn = go_bind (go_get sess_fresh) (\<lambda>a.
     go_seq (go_upd (\<lambda>s. s\<lparr>heap := (heap s)(a \<mapsto> \<lparr>Uid = uid, BindedIds = bindedIds, Conn = conn\<rparr>), sess_fresh := Suc a\<rparr>))
       (go_ret a))"

text \<open>The websocket connection: a send says whether it succeeded; on a missing connection the method
  call is a nil dereference.\<close>

definition wsConn_Send :: "comet_env \<Rightarrow> ws_conn option \<Rightarrow> byte list \<Rightarrow> (('e, 'h, 'g) comet, bool) go" where
  "wsConn_Send env c msg = go_bind (go_lift c) (\<lambda>w.
     go_bind (go_get trace) (\<lambda>tr.
     if ws_ok env tr w msg then go_seq (note_ev (WsSend w msg)) (go_ret True)
     else go_seq (note_ev (WsFail w)) (go_ret False)))"

definition wsConn_Close :: "ws_conn option \<Rightarrow> (('e, 'h, 'g) comet, unit) go" where
  "wsConn_Close c = go_bind (go_lift c) (\<lambda>w. note_ev (WsClose w))"

section \<open>The session list\<close>

definition AddSession :: "('f, 'g) sess_ops \<Rightarrow> nat \<Rightarrow> (('e, 'h, 'g) comet, 'f) go" where
  "AddSession K a = go_bind (deref a) (\<lambda>s.
     go_bind (go_get (\<lambda>st. on_get st (Uid s))) (\<lambda>l.
     let (e, h) = hl_PushFront K a (case l of Some h \<Rightarrow> h | None \<Rightarrow> hl_New K)
     in go_seq (go_upd (on_set (Uid s) (Some h))) (go_ret e)))"

definition RemoveSession :: "('f, 'g) sess_ops \<Rightarrow> 'f \<Rightarrow> (('e, 'h, 'g) comet, unit) go" where
  "RemoveSession K e = go_bind (deref (hl_Value K e)) (\<lambda>s.
     go_seq (if Conn s \<noteq> None then wsConn_Close (Conn s) else go_ret ())
     (go_bind (go_get (\<lambda>st. on_get st (Uid s))) (\<lambda>l. case l of
        None \<Rightarrow> go_ret ()
      | Some h \<Rightarrow>
          let h = hl_Remove K e h
          in go_upd (on_set (Uid s) (if hl_Len K h = 0 then None else Some h)))))"

definition GetBindedIds :: "nat \<Rightarrow> (('e, 'h, 'g) comet, i64 list) go" where
  "GetBindedIds a = go_bind (deref a) (\<lambda>s. go_ret (BindedIds s))"

definition CalcDestIds :: "nat \<Rightarrow> i64 \<Rightarrow> (('e, 'h, 'g) comet, i64 list) go" where
  "CalcDestIds a toId = go_bind (deref a) (\<lambda>s.
     go_bind (go_get (\<lambda>st. on_get st (Uid s))) (\<lambda>l.
     go_ret (if l \<noteq> None then calcDestIds s toId else [])))"

text \<open>The sessions of an id, in the order a loop over its list visits them.\<close>

definition sess_list :: "('f, 'g) sess_ops \<Rightarrow> ('e, 'h, 'g) comet \<Rightarrow> i64 \<Rightarrow> nat list" where
  "sess_list K s i = (case on_get s i of None \<Rightarrow> [] | Some h \<Rightarrow> hl_vals K h)"

definition bind_id :: "bool \<Rightarrow> i64 \<Rightarrow> Session \<Rightarrow> Session" where
  "bind_id bindType i s =
     s\<lparr>BindedIds := (if bindType then BindedIds s @ [i] else swap_remove_val i (BindedIds s))\<rparr>"

definition bind_all :: "('f, 'g) sess_ops \<Rightarrow> bool \<Rightarrow> i64 \<Rightarrow> i64 \<Rightarrow> (('e, 'h, 'g) comet, unit) go" where
  "bind_all K bindType i owner = go_bind (go_get (\<lambda>s. sess_list K s owner))
     (go_each (\<lambda>a. set_session a (bind_id bindType i)))"

definition UpdateIds ::
  "('e, 'h) srv_ops \<Rightarrow> ('f, 'g) sess_ops \<Rightarrow> comet_env \<Rightarrow> i64 \<Rightarrow> i64 \<Rightarrow> bool \<Rightarrow> (('e, 'h, 'g) comet, unit) go" where
  "UpdateIds B K env deviceId userId bindType =
     (let mids = TransId userId
      in go_seq (go_each (bind_all K bindType deviceId) mids)
         (go_bind (go_get (\<lambda>s. on_get s deviceId)) (\<lambda>l.
          go_seq (bind_all K bindType userId deviceId)
          (if l = None then go_ret ()
           else if bindType then NotifyBindedIdChanged B env deviceId mids []
           else NotifyBindedIdChanged B env deviceId [] mids))))"

text \<open>\<^verbatim>\<open>PushCommonMsg\<close>: one message object is sent to all sessions of all ids of the destination.  A
  failed connection is closed only when the log is verbose enough.\<close>

definition common_msg :: "u32 \<Rightarrow> u16 \<Rightarrow> byte list \<Rightarrow> AppMsg" where
  "common_msg now msgid body =
     (let m = NewMsg now body None
      in m\<lparr>FrameHdr := (FrameHdr m)\<lparr>Opcode := 2\<rparr>, DataHdr := (DataHdr m)\<lparr>MsgId := msgid\<rparr>\<rparr>)"

definition set_dst :: "i64 \<Rightarrow> AppMsg \<Rightarrow> AppMsg" where
  "set_dst i m = m\<lparr>FrameHdr := (FrameHdr m)\<lparr>DstId := i\<rparr>\<rparr>"

definition push_common_one :: "comet_env \<Rightarrow> i64 \<Rightarrow> nat \<Rightarrow> AppMsg \<Rightarrow> (('e, 'h, 'g) comet, AppMsg) go" where
  "push_common_one env i a msg =
     go_bind (deref a) (\<lambda>s.
     go_bind (go_get (\<lambda>st. clock env (trace st))) (\<lambda>now.
     go_bind (go_lift (MarshalBytes (ucast now) (set_dst i msg))) (\<lambda>(msg, msgBytes).
     go_bind (wsConn_Send env (Conn s) msgBytes) (\<lambda>ok.
     go_seq (if \<not> ok \<and> verbose env 2 then wsConn_Close (Conn s) else go_ret ()) (go_ret msg)))))"

definition push_common_id :: "('f, 'g) sess_ops \<Rightarrow> comet_env \<Rightarrow> i64 \<Rightarrow> AppMsg \<Rightarrow> (('e, 'h, 'g) comet, AppMsg) go" where
  "push_common_id K env i msg = go_bind (go_get (\<lambda>s. sess_list K s i)) (\<lambda>as.
     go_fold (push_common_one env i) as msg)"

definition PushCommonMsg :: "('f, 'g) sess_ops \<Rightarrow> comet_env \<Rightarrow> u16 \<Rightarrow> i64 \<Rightarrow> byte list \<Rightarrow> (('e, 'h, 'g) comet, unit) go" where
  "PushCommonMsg K env msgid dstId msgBody =
     go_bind (go_get (\<lambda>s. clock env (trace s))) (\<lambda>now.
     go_seq (go_fold (push_common_id K env) (TransId dstId) (common_msg (ucast now) msgid msgBody)) (go_ret ()))"

definition kick_one :: "comet_env \<Rightarrow> byte list \<Rightarrow> nat \<Rightarrow> (('e, 'h, 'g) comet, unit) go" where
  "kick_one env msgBody a = go_bind (deref a) (\<lambda>s.
     go_bind (wsConn_Send env (Conn s) msgBody) (\<lambda>_. wsConn_Close (Conn s)))"

definition kick_id :: "('f, 'g) sess_ops \<Rightarrow> comet_env \<Rightarrow> i64 \<Rightarrow> AppMsg \<Rightarrow> (('e, 'h, 'g) comet, AppMsg) go" where
  "kick_id K env i kickMsg =
     go_bind (go_lift (status_body MSTKickOff i)) (\<lambda>body.
     go_bind (go_get (\<lambda>s. clock env (trace s))) (\<lambda>now.
     go_bind (go_lift (MarshalBytes (ucast now) ((set_dst i kickMsg)\<lparr>Data := body\<rparr>))) (\<lambda>(kickMsg, msgBody).
     go_bind (go_get (\<lambda>s. sess_list K s i)) (\<lambda>as.
     go_seq (go_each (kick_one env msgBody) as) (go_ret kickMsg)))))"

definition KickOffline :: "('f, 'g) sess_ops \<Rightarrow> comet_env \<Rightarrow> i64 \<Rightarrow> (('e, 'h, 'g) comet, unit) go" where
  "KickOffline K env uid =
     go_bind (go_get (\<lambda>s. clock env (trace s))) (\<lambda>now.
     go_seq (go_fold (kick_id K env) (TransId uid) (common_msg (ucast now) MIDStatus [])) (go_ret ()))"

text \<open>\<^verbatim>\<open>PushMsg\<close>: a message from a bus.  The log line after a successful send slices the first three
  bytes of the message.\<close>

definition push_one :: "comet_env \<Rightarrow> slice \<Rightarrow> nat \<Rightarrow> (('e, 'h, 'g) comet, unit) go" where
  "push_one env data a = go_bind (deref a) (\<lambda>s.
     go_bind (wsConn_Send env (Conn s) (sl_bytes data)) (\<lambda>ok.
     if \<not> ok then go_ret ()
     else go_seq (note_ev (CStatInc CDownStreamOut)) (go_bind (go_lift (sl_range data 0 3)) (\<lambda>_. go_ret ()))))"

definition SessionList_PushMsg :: "('f, 'g) sess_ops \<Rightarrow> comet_env \<Rightarrow> i64 \<Rightarrow> slice \<Rightarrow> (('e, 'h, 'g) comet, unit) go" where
  "SessionList_PushMsg K env uid data = go_bind (go_get (\<lambda>s. sess_list K s uid)) (go_each (push_one env data))"

section \<open>Id arithmetic\<close>

text \<open>The ids of users: positive multiples of 16.\<close>

definition user_id :: "i64 \<Rightarrow> bool" where
  "user_id u \<longleftrightarrow> go_pos u \<and> go_rem u kUseridUnit = 0"

lemma go_rem_16_nonneg:
  assumes "0 \<le> sint a"
  shows "go_rem a 16 = word_of_int (sint a mod 16)"
proof -
  have "sint a smod 16 = sint a mod 16"
    using assms by (simp add: signed_modulo_int_def sgn_if)
  then show ?thesis by (simp add: go_rem_def)
qed

lemma user_id_mod: "user_id u \<Longrightarrow> 0 < sint u \<and> sint u mod 16 = 0"
proof -
  assume u: "user_id u"
  then have pos: "0 < sint u" by (simp add: user_id_def go_pos_def)
  have "word_of_int (sint u mod 16) = (0 :: i64)"
    using u pos by (simp add: user_id_def kUseridUnit_def go_rem_16_nonneg)
  moreover have "sint (word_of_int (sint u mod 16) :: i64) = sint u mod 16"
    by (simp add: sint_sbintrunc' signed_take_bit_int_eq_self)
  ultimately show ?thesis using pos by simp
qed

lemma phone_sint:
  assumes "user_id u" and "j < 16"
  shows "sint (u + of_nat j) = sint u + int j"
proof -
  have "sint u \<le> 2 ^ 63 - 16"
    using user_id_mod [OF assms(1)] sint_range_i64(2) [of u] by simp presburger
  then have "- (2 ^ 63) \<le> sint u + int j \<and> sint u + int j < 2 ^ 63"
    using user_id_mod [OF assms(1)] assms(2) by linarith
  moreover have "u + of_nat j = word_of_int (sint u + int j)"
    by simp
  ultimately show ?thesis
    by (simp only: sint_sbintrunc') (simp add: signed_take_bit_int_eq_self)
qed

lemma phone_owner:
  assumes "user_id u" and "j < 16"
  shows "u + of_nat j - go_rem (u + of_nat j) 16 = u"
proof -
  have "sint u mod 16 = 0" "0 < sint u"
    using user_id_mod [OF assms(1)] by simp_all
  then have "(sint u + int j) mod 16 = int j" "0 \<le> sint (u + of_nat j)"
    using assms by (simp_all add: phone_sint) presburger
  then show ?thesis
    using assms by (simp add: go_rem_16_nonneg phone_sint)
qed

lemma phones_iff: "d \<in> set (phones i) \<longleftrightarrow> (\<exists>j. 1 \<le> j \<and> j < 16 \<and> d = i + of_nat j)"
  by (auto simp: phones_def)

section \<open>Properties: destinations\<close>

text \<open>C28: A session only ever addresses ids it is bound to: every destination computed for a phone is a
  device bound to it, and every destination computed for a board is a phone of a user bound to it, or
  that user's own id, whatever destination the client asked for.\<close>

theorem calcDestIds_bound:
  assumes "go_pos (Uid s) \<or> go_neg (Uid s) \<and> (\<forall>u \<in> set (BindedIds s). user_id u)"
    and d: "d \<in> set (calcDestIds s toId)"
  shows "isBinded s d"
proof (cases "go_pos (Uid s)")
  case True
  then show ?thesis
    using d by (auto simp: calcDestIds_def isBinded_def split: if_splits)
next
  case False
  with assms(1) have neg: "go_neg (Uid s)" and users: "\<forall>u \<in> set (BindedIds s). user_id u" by auto
  have phone: "isBinded s (u + of_nat j)" if "u \<in> set (BindedIds s)" "j < 16" for u j
    using that neg users phone_owner [of u j] by (simp add: isBinded_def kUseridUnit_def)
  show ?thesis
  proof (cases "toId = 0")
    case True
    then show ?thesis using d False phone by (auto simp: calcDestIds_def)
  next
    case toId: False
    then have b: "isBinded s toId" using d by (auto simp: calcDestIds_def split: if_splits)
    show ?thesis
    proof (cases "go_rem toId kUseridUnit = 0")
      case True
      then have "toId \<in> set (BindedIds s)" using b neg by (simp add: isBinded_def)
      then show ?thesis using d toId b True neg phone by (auto simp: calcDestIds_def)
    next
      case False
      then show ?thesis using d toId b by (simp add: calcDestIds_def)
    qed
  qed
qed

theorem calcDestIds_bound_witness:
  "17 \<in> set (calcDestIds \<lparr>Uid = - 9, BindedIds = [16, 48], Conn = None\<rparr> 16)
   \<and> isBinded \<lparr>Uid = - 9, BindedIds = [16, 48], Conn = None\<rparr> 17"
proof -
  let ?s = "\<lparr>Uid = - 9, BindedIds = [16, 48], Conn = None\<rparr> :: Session"
  have "map (\<lambda>j. 16 + of_nat j :: i64) [1..<16] = 17 # map (\<lambda>j. 16 + of_nat j) [2..<16]"
    by (simp add: upt_rec)
  then have "17 \<in> set (calcDestIds ?s 16)"
    by (simp add: calcDestIds_def isBinded_def go_neg_def kUseridUnit_def go_rem_def del: upt_Suc)
  moreover from this have "isBinded ?s 17"
    by (rule calcDestIds_bound [rotated]) (simp add: go_neg_def go_pos_def user_id_def kUseridUnit_def go_rem_def)
  ultimately show ?thesis by simp
qed

text \<open>Broadcasting reaches everybody: a message to id 0 goes from a phone to all devices bound to it,
  and from a board to all fifteen phones of every user bound to it, and to nobody else.\<close>

theorem calcDestIds_broadcast:
  "(go_pos (Uid s) \<longrightarrow> calcDestIds s 0 = BindedIds s)
   \<and> (go_neg (Uid s) \<longrightarrow> set (calcDestIds s 0) = {u + of_nat j |u j. u \<in> set (BindedIds s) \<and> 1 \<le> j \<and> j < 16})"
  by (auto simp: calcDestIds_def) blast

theorem calcDestIds_broadcast_witness:
  "calcDestIds \<lparr>Uid = 17, BindedIds = [- 9, - 10], Conn = None\<rparr> 0 = [- 9, - 10]
   \<and> set (calcDestIds \<lparr>Uid = - 9, BindedIds = [16], Conn = None\<rparr> 0) = {u + of_nat j |u j. u \<in> {16} \<and> 1 \<le> j \<and> j < 16}"
  using calcDestIds_broadcast [of "\<lparr>Uid = 17, BindedIds = [- 9, - 10], Conn = None\<rparr>"]
    calcDestIds_broadcast [of "\<lparr>Uid = - 9, BindedIds = [16], Conn = None\<rparr>"]
  by (simp add: go_pos_def go_neg_def)

section \<open>The table as one map\<close>

lemma blk_range: "0 \<le> sint (getBlockID uid) \<and> sint (getBlockID uid) < 128"
  using block_128 [of uid] by (simp add: getBlockID_def BlockSize_def)

interpretation sb: blocks blk 128
  using blk_range by unfold_locales (simp add: nat_less_iff)

definition sess_wf :: "('e, 'h, 'g) comet \<Rightarrow> bool" where
  "sess_wf s \<longleftrightarrow> blocks_wf blk 128 (onlined s)"

lemma on_get_set [simp]: "sess_wf s \<Longrightarrow> on_get (on_set uid l s) = (on_get s)(uid := l)"
  by (simp add: sess_wf_def on_get_def on_set_def)

lemma sess_wf_set [simp]: "sess_wf s \<Longrightarrow> sess_wf (on_set uid l s)"
  by (simp add: sess_wf_def on_set_def)

lemma on_simps [simp]:
  "on_get (s\<lparr>trace := t\<rparr>) = on_get s" "on_get (s\<lparr>heap := hp\<rparr>) = on_get s"
  "sess_wf (s\<lparr>trace := t\<rparr>) = sess_wf s" "sess_wf (s\<lparr>heap := hp\<rparr>) = sess_wf s"
  "heap (on_set uid l s) = heap s" "trace (on_set uid l s) = trace s"
  "on_set uid l (s\<lparr>trace := t\<rparr>) = (on_set uid l s)\<lparr>trace := t\<rparr>"
  by (simp_all add: on_get_def sess_wf_def on_set_def)

text \<open>Every listed id has at least one session, and the sessions listed under an id are objects of that
  id.\<close>

definition table_inv :: "('f, 'g) sess_ops \<Rightarrow> ('e, 'h, 'g) comet \<Rightarrow> bool" where
  "table_inv K s \<longleftrightarrow> sess_wf s
     \<and> (\<forall>uid h. on_get s uid = Some h \<longrightarrow> hl_vals K h \<noteq> [] \<and> (\<forall>a \<in> set (hl_vals K h). \<exists>ses. heap s a = Some ses \<and> Uid ses = uid))"

lemma deref_eq: "deref a s = (case heap s a of None \<Rightarrow> (Panic, s) | Some ses \<Rightarrow> (Ret ses, s))"
  by (simp add: deref_def go_monad split: option.split)

lemma sess_list_upd [simp]: "sess_list K (s\<lparr>trace := t\<rparr>) = sess_list K s" "sess_list K (s\<lparr>heap := hp\<rparr>) = sess_list K s"
  by (simp_all add: sess_list_def fun_eq_iff)

lemma table_invD:
  "table_inv K s \<Longrightarrow> on_get s uid = Some h \<Longrightarrow> a \<in> set (hl_vals K h) \<Longrightarrow> \<exists>ses. heap s a = Some ses \<and> Uid ses = uid"
  unfolding table_inv_def by blast

lemma sess_list_heap:
  "table_inv K s \<Longrightarrow> a \<in> set (sess_list K s uid) \<Longrightarrow> \<exists>ses. heap s a = Some ses \<and> Uid ses = uid"
  using table_invD [of K s uid _ a] by (cases "on_get s uid") (simp_all add: sess_list_def)

lemma table_inv_None: "table_inv K s \<Longrightarrow> on_get s u = None \<longleftrightarrow> sess_list K s u = []"
  by (auto simp: table_inv_def sess_list_def split: option.splits)

locale sess_lists = hlist K for K :: "('f, nat, 'g) hlist_ops"
begin

lemma AddSession_eq:
  assumes "heap s a = Some ses" and "hl_PushFront K a (case on_get s (Uid ses) of Some h \<Rightarrow> h | None \<Rightarrow> hl_New K) = (e, h)"
  shows "AddSession K a s = (Ret e, on_set (Uid ses) (Some h) s)"
  using assms by (simp add: AddSession_def deref_eq go_monad)

lemma AddSession_ex:
  assumes "table_inv K s" and "heap s a = Some ses"
  obtains e h s' where "AddSession K a s = (Ret e, s')" and "s' = on_set (Uid ses) (Some h) s"
    and "hl_elems K h = e # (case on_get s (Uid ses) of Some h \<Rightarrow> hl_elems K h | None \<Rightarrow> [])"
    and "hl_Value K e = a" and "table_inv K s'"
    and "sess_list K s' = (sess_list K s)(Uid ses := a # sess_list K s (Uid ses))"
proof -
  let ?h0 = "case on_get s (Uid ses) of Some h \<Rightarrow> h | None \<Rightarrow> hl_New K"
  obtain e h where push: "hl_PushFront K a ?h0 = (e, h)" by fastforce
  have el: "hl_elems K h = e # hl_elems K ?h0" and v: "hl_Value K e = a"
    using elems_PushFront [OF push] by simp_all
  have el': "hl_elems K h = e # (case on_get s (Uid ses) of Some h \<Rightarrow> hl_elems K h | None \<Rightarrow> [])"
    using el by (simp split: option.splits)
  have vals: "hl_vals K h = a # sess_list K s (Uid ses)"
    using el' v by (simp add: hl_vals_def sess_list_def split: option.splits)
  have wf: "sess_wf s" using assms(1) by (simp add: table_inv_def)
  show ?thesis
  proof (rule that)
    show "AddSession K a s = (Ret e, on_set (Uid ses) (Some h) s)"
      by (rule AddSession_eq [OF assms(2) push])
    show "table_inv K (on_set (Uid ses) (Some h) s)"
      using assms wf vals sess_list_heap [OF assms(1), of _ "Uid ses"] by (auto simp: table_inv_def)
    show "sess_list K (on_set (Uid ses) (Some h) s) = (sess_list K s)(Uid ses := a # sess_list K s (Uid ses))"
      using wf vals by (auto simp: sess_list_def fun_eq_iff)
  qed (use el' v in simp_all)
qed

lemma RemoveSession_ex:
  assumes "table_inv K s" and "on_get s uid = Some h" and "e \<in> set (hl_elems K h)"
  obtains ses s' where "heap s (hl_Value K e) = Some ses" and "Uid ses = uid"
    and "RemoveSession K e s = (Ret (), s')" and "table_inv K s'" and "heap s' = heap s"
    and "trace s' = trace s @ (case Conn ses of Some w \<Rightarrow> [WsClose w] | None \<Rightarrow> [])"
    and "\<forall>v. v \<noteq> uid \<longrightarrow> on_get s' v = on_get s v"
    and "sess_list K s' uid = map (hl_Value K) (remove1 e (hl_elems K h))"
proof -
  have "hl_Value K e \<in> set (hl_vals K h)" using assms(3) by (simp add: hl_vals_def)
  then obtain ses where ses: "heap s (hl_Value K e) = Some ses" "Uid ses = uid"
    using table_invD [OF assms(1,2)] by blast
  have wf: "sess_wf s" using assms(1) by (simp add: table_inv_def)
  let ?h = "hl_Remove K e h"
  define s' where "s' = (on_set uid (if hl_Len K ?h = 0 then None else Some ?h) s)
    \<lparr>trace := trace s @ (case Conn ses of Some w \<Rightarrow> [WsClose w] | None \<Rightarrow> [])\<rparr>"
  have vals: "hl_vals K ?h = map (hl_Value K) (remove1 e (hl_elems K h))"
    using assms(3) by (simp add: hl_vals_def)
  have len: "hl_Len K ?h = 0 \<longleftrightarrow> hl_vals K ?h = []" by (simp add: hl_vals_def)
  have sub: "set (hl_vals K ?h) \<subseteq> set (hl_vals K h)"
    unfolding vals by (auto simp: hl_vals_def dest: notin_set_remove1)
  show ?thesis
  proof (rule that [of ses s'])
    show "RemoveSession K e s = (Ret (), s')"
      using ses assms(2) by (cases "Conn ses")
        (simp_all add: RemoveSession_def deref_eq go_monad wsConn_Close_def s'_def Let_def on_set_def)
    show "table_inv K s'"
      using assms(1,2) wf sub len by (auto simp: table_inv_def s'_def)
    show "sess_list K s' uid = map (hl_Value K) (remove1 e (hl_elems K h))"
      using wf len vals by (simp add: sess_list_def s'_def)
  qed (use ses wf in \<open>simp_all add: s'_def\<close>)
qed

end

interpretation plain_sess: sess_lists "plain_hlist r"
  by unfold_locales

section \<open>Properties: the session list\<close>

text \<open>Adding a session and removing it again restores the table: between the two the id of the session
  lists it first, afterwards every id has the sessions it had before, no entry is left over for an id
  without sessions, and the session's connection is closed.\<close>

theorem AddSession_RemoveSession:
  assumes "hlist K" and "table_inv K s" and "heap s a = Some ses"
  shows "\<exists>e s1 s2. AddSession K a s = (Ret e, s1) \<and> sess_list K s1 = (sess_list K s)(Uid ses := a # sess_list K s (Uid ses))
    \<and> RemoveSession K e s1 = (Ret (), s2) \<and> sess_list K s2 = sess_list K s \<and> dom (on_get s2) = dom (on_get s)
    \<and> trace s2 = trace s @ (case Conn ses of Some w \<Rightarrow> [WsClose w] | None \<Rightarrow> [])"
proof -
  have K: "sess_lists K" by (rule sess_lists.intro [OF assms(1)])
  have wf: "sess_wf s" using assms(2) by (simp add: table_inv_def)
  obtain e h s1 where add: "AddSession K a s = (Ret e, s1)" and s1: "s1 = on_set (Uid ses) (Some h) s"
    and el: "hl_elems K h = e # (case on_get s (Uid ses) of Some h \<Rightarrow> hl_elems K h | None \<Rightarrow> [])"
    and v: "hl_Value K e = a" and inv1: "table_inv K s1"
    and l1: "sess_list K s1 = (sess_list K s)(Uid ses := a # sess_list K s (Uid ses))"
    by (rule sess_lists.AddSession_ex [OF K assms(2,3)])
  have get1: "on_get s1 (Uid ses) = Some h" using wf s1 by simp
  have e: "e \<in> set (hl_elems K h)" using el by simp
  obtain ses' s2 where ses': "heap s1 (hl_Value K e) = Some ses'" and "Uid ses' = Uid ses"
      and rm: "RemoveSession K e s1 = (Ret (), s2)" and inv2: "table_inv K s2" and "heap s2 = heap s1"
      and tr: "trace s2 = trace s1 @ (case Conn ses' of Some w \<Rightarrow> [WsClose w] | None \<Rightarrow> [])"
      and others: "\<forall>v. v \<noteq> Uid ses \<longrightarrow> on_get s2 v = on_get s1 v"
      and l2: "sess_list K s2 (Uid ses) = map (hl_Value K) (remove1 e (hl_elems K h))"
    by (rule sess_lists.RemoveSession_ex [OF K inv1 get1 e])
  have "ses' = ses" using ses' assms(3) s1 v by simp
  have lists: "sess_list K s2 u = sess_list K s u" for u
  proof (cases "u = Uid ses")
    case True
    then show ?thesis
      using l2 el by (simp add: sess_list_def hl_vals_def split: option.splits)
  next
    case False
    then show ?thesis
      using others False wf s1 by (simp add: sess_list_def)
  qed
  then have "on_get s2 u = None \<longleftrightarrow> on_get s u = None" for u
    using table_inv_None [OF inv2] table_inv_None [OF assms(2)] by simp
  then have "dom (on_get s2) = dom (on_get s)"
    by (simp add: dom_def)
  then show ?thesis
    using add l1 rm lists tr s1 \<open>ses' = ses\<close> by (auto simp: fun_eq_iff)
qed

definition empty_comet :: "((nat \<times> MsgBusServer), (nat \<times> MsgBusServer) list, (nat \<times> nat) list) comet" where
  "empty_comet = busman.extend (NewMsgBusManager (plain_hlist True)) \<lparr>onlined = InitSessionList, heap = Map.empty, sess_fresh = 0\<rparr>"

definition sample_session :: Session where
  "sample_session = \<lparr>Uid = 17, BindedIds = [- 9], Conn = Some 3\<rparr>"

lemma table_inv_start:
  "table_inv (plain_hlist True) (snd (NewWsSession 17 [- 9] (Some 3) empty_comet))"
  "heap (snd (NewWsSession 17 [- 9] (Some 3) empty_comet)) 0 = Some sample_session"
  using sb.wf_init sb.get_init
  by (simp_all add: table_inv_def sess_wf_def on_get_def NewWsSession_def go_monad empty_comet_def busman.defs
      NewMsgBusManager_def InitSessionList_def BlockSize_def sample_session_def)

theorem AddSession_RemoveSession_witness:
  "\<exists>e s1 s2. AddSession (plain_hlist True) 0 (snd (NewWsSession 17 [- 9] (Some 3) empty_comet)) = (Ret e, s1)
    \<and> sess_list (plain_hlist True) s1 = (sess_list (plain_hlist True) (snd (NewWsSession 17 [- 9] (Some 3) empty_comet)))
        (17 := 0 # sess_list (plain_hlist True) (snd (NewWsSession 17 [- 9] (Some 3) empty_comet)) 17)
    \<and> RemoveSession (plain_hlist True) e s1 = (Ret (), s2)
    \<and> sess_list (plain_hlist True) s2 = sess_list (plain_hlist True) (snd (NewWsSession 17 [- 9] (Some 3) empty_comet))"
  using AddSession_RemoveSession [OF plain.hlist_axioms table_inv_start]
  by (auto simp: sample_session_def)

section \<open>Properties: messages to sessions\<close>

definition conn_of :: "('e, 'h, 'g) comet \<Rightarrow> nat \<Rightarrow> ws_conn" where
  "conn_of s a = the (Conn (the (heap s a)))"

text \<open>All the sessions have a connection and all sends succeed.\<close>

definition sess_up :: "comet_env \<Rightarrow> ('e, 'h, 'g) comet \<Rightarrow> nat list \<Rightarrow> bool" where
  "sess_up env s as \<longleftrightarrow> (\<forall>a \<in> set as. \<exists>ses. heap s a = Some ses \<and> Conn ses \<noteq> None) \<and> (\<forall>tr w bs. ws_ok env tr w bs)"

lemma sess_up_deref:
  assumes "sess_up env s as" and "a \<in> set as"
  obtains ses where "heap s a = Some ses" and "Conn ses = Some (conn_of s a)" and "\<forall>tr w bs. ws_ok env tr w bs"
  using assms by (auto simp: sess_up_def conn_of_def)

lemma push_one_ok:
  assumes "sess_up env s as" and "a \<in> set as" and "3 \<le> length (arr data)"
  shows "push_one env data a (s\<lparr>trace := t\<rparr>) =
    (Ret (), s\<lparr>trace := t @ [WsSend (conn_of s a) (sl_bytes data), CStatInc CDownStreamOut]\<rparr>)"
  by (rule sess_up_deref [OF assms(1,2)])
     (use assms(3) in \<open>simp add: push_one_def deref_eq go_monad wsConn_Send_def sl_range_def\<close>)

lemma SessionList_PushMsg_events:
  assumes "sess_up env s (sess_list K s uid)" and "3 \<le> length (arr data)"
  shows "SessionList_PushMsg K env uid data (s\<lparr>trace := t\<rparr>) = (Ret (), s\<lparr>trace := t @
    concat (map (\<lambda>a. [WsSend (conn_of s a) (sl_bytes data), CStatInc CDownStreamOut]) (sess_list K s uid))\<rparr>)"
  using go_each_events [of "sess_list K s uid" "push_one env data" "s\<lparr>trace := t\<rparr>"] push_one_ok [OF assms(1) _ assms(2)]
  by (simp add: SessionList_PushMsg_def go_monad)

text \<open>A message from a bus for an id is sent, unchanged and exactly once, to the connection of every
  session of that id and to no other connection; an id without sessions gets nothing.\<close>

theorem SessionList_PushMsg_spec:
  assumes "sess_up env s (sess_list K s uid)" and "3 \<le> length (arr data)"
  shows "SessionList_PushMsg K env uid data s = (Ret (), s\<lparr>trace := trace s @
    concat (map (\<lambda>a. [WsSend (conn_of s a) (sl_bytes data), CStatInc CDownStreamOut]) (sess_list K s uid))\<rparr>)"
  using SessionList_PushMsg_events [OF assms, of "trace s"] by simp

definition sample_comet :: "((nat \<times> MsgBusServer), (nat \<times> MsgBusServer) list, (nat \<times> nat) list) comet" where
  "sample_comet = snd (AddSession (plain_hlist True) 0 (snd (NewWsSession 17 [- 9] (Some 3) empty_comet)))"

lemma sample_comet_facts:
  "heap sample_comet 0 = Some sample_session" "sess_list (plain_hlist True) sample_comet 17 = [0]"
  "u \<noteq> 17 \<Longrightarrow> sess_list (plain_hlist True) sample_comet u = []" "table_inv (plain_hlist True) sample_comet"
proof -
  obtain e h s' where *: "AddSession (plain_hlist True) 0 (snd (NewWsSession 17 [- 9] (Some 3) empty_comet)) = (Ret e, s')"
    "s' = on_set (Uid sample_session) (Some h) (snd (NewWsSession 17 [- 9] (Some 3) empty_comet))"
    "table_inv (plain_hlist True) s'"
    "sess_list (plain_hlist True) s' = (sess_list (plain_hlist True) (snd (NewWsSession 17 [- 9] (Some 3) empty_comet)))
      (Uid sample_session := 0 # sess_list (plain_hlist True) (snd (NewWsSession 17 [- 9] (Some 3) empty_comet)) (Uid sample_session))"
    by (rule plain_sess.AddSession_ex [OF table_inv_start])
  have "sess_list (plain_hlist True) (snd (NewWsSession 17 [- 9] (Some 3) empty_comet)) u = []" for u
    using sb.get_init by (simp add: sess_list_def on_get_def NewWsSession_def go_monad empty_comet_def busman.defs
      NewMsgBusManager_def InitSessionList_def BlockSize_def)
  then show "heap sample_comet 0 = Some sample_session" "sess_list (plain_hlist True) sample_comet 17 = [0]"
    "u \<noteq> 17 \<Longrightarrow> sess_list (plain_hlist True) sample_comet u = []" "table_inv (plain_hlist True) sample_comet"
    using * table_inv_start(2) by (simp_all add: sample_comet_def sample_session_def)
qed

lemma sample_up: "sess_up sample_cenv sample_comet [0]" "conn_of sample_comet 0 = 3"
  by (simp_all add: sess_up_def sample_comet_facts sample_cenv_def conn_of_def sample_session_def)

theorem SessionList_PushMsg_spec_witness:
  "SessionList_PushMsg (plain_hlist True) sample_cenv 17 (mk_slice [2, 0, 0, 7] []) sample_comet =
    (Ret (), sample_comet\<lparr>trace := trace sample_comet @ [WsSend 3 [2, 0, 0, 7], CStatInc CDownStreamOut]\<rparr>)"
  using SessionList_PushMsg_spec [of sample_cenv sample_comet "plain_hlist True" 17 "mk_slice [2, 0, 0, 7] []"]
  by (simp add: sample_comet_facts sample_up mk_slice_def sl_bytes_def)

text \<open>What a client reads from a message without forward header: the destination, the message id and
  the body.\<close>

definition msg_view :: "byte list \<Rightarrow> i64 option \<times> u16 option \<times> byte list" where
  "msg_view bs = (Uint64 (drop 8 bs), Uint16 (drop 28 bs), drop 36 bs)"

text \<open>A message object with the given id and body, whatever its times and destination.\<close>

definition plain_msg :: "u16 \<Rightarrow> byte list \<Rightarrow> AppMsg \<Rightarrow> bool" where
  "plain_msg msgid body m \<longleftrightarrow> ForwardHeader m = None \<and> Guid (FrameHdr m) = [] \<and> MsgId (DataHdr m) = msgid \<and> Data m = body"

lemma plain_msg_simps [simp]:
  "plain_msg msgid body (common_msg now msgid body)"
  "plain_msg msgid body m \<Longrightarrow> plain_msg msgid body (set_dst i m)"
  "plain_msg msgid body m \<Longrightarrow> plain_msg msgid body (m\<lparr>FrameHdr := (FrameHdr m)\<lparr>Time := now\<rparr>\<rparr>)"
  "plain_msg msgid body m \<Longrightarrow> plain_msg msgid body' (m\<lparr>Data := body'\<rparr>)"
  by (simp_all add: plain_msg_def common_msg_def set_dst_def NewMsg_def NewFrameHeader_def Let_def)

lemma msg_view_wire:
  assumes "plain_msg msgid body m" and "DstId (FrameHdr m) = i"
  shows "msg_view (wire now m) = (Some i, Some msgid, body)"
proof -
  have "Uint64 (drop 8 (wire now m)) = Some i"
    using assms by (simp add: plain_msg_def wire_def Let_def FrameHeader_layout)
  then show ?thesis
    using wire_plain [of m now] assms by (simp add: msg_view_def plain_msg_def)
qed

lemma concat_map_concat: "concat (map concat xss) = concat (concat xss)"
  by (induction xss) simp_all

lemma push_common_one_ok:
  assumes "sess_up env s as" and "a \<in> set as" and "plain_msg msgid body m"
  shows "\<exists>m' es. push_common_one env i a m (s\<lparr>trace := t\<rparr>) = (Ret m', s\<lparr>trace := t @ es\<rparr>)
    \<and> plain_msg msgid body m' \<and> (\<exists>bs. es = [WsSend (conn_of s a) bs] \<and> msg_view bs = (Some i, Some msgid, body))"
proof -
  obtain ses where ses: "heap s a = Some ses" "Conn ses = Some (conn_of s a)" "\<forall>tr w bs. ws_ok env tr w bs"
    by (rule sess_up_deref [OF assms(1,2)])
  have "plain_msg msgid body (set_dst i m)" using assms(3) by simp
  moreover have "DstId (FrameHdr (set_dst i m)) = i" by (simp add: set_dst_def)
  ultimately show ?thesis
    using ses msg_view_wire [of msgid body "set_dst i m" i]
    by (auto simp: push_common_one_def deref_eq go_monad MarshalBytes_wire wsConn_Send_def
        intro!: exI [of _ "[WsSend (conn_of s a) (wire (ucast (clock env t)) (set_dst i m))]"])
qed

text \<open>A common message for a board, or for a user, is sent once to every session of the board, or of each
  of the user's fifteen phones; each session's connection receives a message that carries the
  session's own id as destination, the message id and the unchanged body.\<close>

theorem PushCommonMsg_spec:
  assumes "\<forall>i \<in> set (TransId dstId). sess_up env s (sess_list K s i)"
  shows "\<exists>ess. PushCommonMsg K env msgid dstId body s = (Ret (), s\<lparr>trace := trace s @ concat (concat ess)\<rparr>)
    \<and> list_all2 (\<lambda>i. list_all2 (\<lambda>a es. \<exists>bs. es = [WsSend (conn_of s a) bs] \<and> msg_view bs = (Some i, Some msgid, body))
        (sess_list K s i)) (TransId dstId) ess"
proof -
  let ?R = "\<lambda>i a es. \<exists>bs. es = [WsSend (conn_of s a) bs] \<and> msg_view bs = (Some i, Some msgid, body)"
  have one: "\<exists>m' es. push_common_id K env i m (s\<lparr>trace := t\<rparr>) = (Ret m', s\<lparr>trace := t @ es\<rparr>) \<and> plain_msg msgid body m'
      \<and> (\<exists>ess. es = concat ess \<and> list_all2 (?R i) (sess_list K s i) ess)"
    if "i \<in> set (TransId dstId)" "plain_msg msgid body m" for i m t
  proof -
    have up: "sess_up env s (sess_list K s i)" using assms that(1) by blast
    from go_fold_events [of "sess_list K s i" "plain_msg msgid body" "push_common_one env i" s "?R i" m t]
      push_common_one_ok [OF up] that(2)
    show ?thesis by (fastforce simp: push_common_id_def go_monad)
  qed
  let ?now = "ucast (clock env (trace s)) :: u32"
  from go_fold_events [of "TransId dstId" "plain_msg msgid body" "push_common_id K env" s
      "\<lambda>i es. \<exists>ess. es = concat ess \<and> list_all2 (?R i) (sess_list K s i) ess" "common_msg ?now msgid body" "trace s"]
  obtain m' ess where run: "go_fold (push_common_id K env) (TransId dstId) (common_msg ?now msgid body) s
      = (Ret m', s\<lparr>trace := trace s @ concat ess\<rparr>)"
    and all: "list_all2 (\<lambda>i es. \<exists>ess. es = concat ess \<and> list_all2 (?R i) (sess_list K s i) ess) (TransId dstId) ess"
    using one by auto
  from all obtain esss where "list_all2 (\<lambda>i. list_all2 (?R i) (sess_list K s i)) (TransId dstId) esss" "ess = map concat esss"
  proof (induction arbitrary: thesis rule: list_all2_induct)
    case Nil
    then show ?case by simp
  next
    case (Cons i ids es ess)
    obtain esss where "list_all2 (\<lambda>i. list_all2 (?R i) (sess_list K s i)) ids esss" "ess = map concat esss"
      using Cons.IH by blast
    moreover obtain e where "es = concat e" "list_all2 (?R i) (sess_list K s i) e"
      using Cons.hyps by blast
    ultimately show ?case using Cons.prems [of "e # esss"] by simp
  qed
  then show ?thesis
    using run by (intro exI [of _ esss]) (simp add: PushCommonMsg_def go_monad concat_map_concat)
qed

theorem PushCommonMsg_spec_witness:
  "\<exists>ess. PushCommonMsg (plain_hlist True) sample_cenv 0x36 16 [9, 1] sample_comet
      = (Ret (), sample_comet\<lparr>trace := trace sample_comet @ concat (concat ess)\<rparr>)
    \<and> list_all2 (\<lambda>i. list_all2 (\<lambda>a es. \<exists>bs. es = [WsSend (conn_of sample_comet a) bs] \<and> msg_view bs = (Some i, Some 0x36, [9, 1]))
        (sess_list (plain_hlist True) sample_comet i)) (TransId 16) ess"
proof (rule PushCommonMsg_spec)
  have "sess_up sample_cenv sample_comet (sess_list (plain_hlist True) sample_comet i)" for i
    using sample_up(1) by (cases "i = 17") (simp_all add: sample_comet_facts sess_up_def)
  then show "\<forall>i \<in> set (TransId 16). sess_up sample_cenv sample_comet (sess_list (plain_hlist True) sample_comet i)"
    by blast
qed

lemma kick_one_ok:
  assumes "sess_up env s as" and "a \<in> set as"
  shows "kick_one env bs a (s\<lparr>trace := t\<rparr>) = (Ret (), s\<lparr>trace := t @ [WsSend (conn_of s a) bs, WsClose (conn_of s a)]\<rparr>)"
  by (rule sess_up_deref [OF assms]) (simp add: kick_one_def deref_eq go_monad wsConn_Send_def wsConn_Close_def)

lemma status_body_eq: "status_body t i = Some (t # le_bytes 8 i @ [0])"
  by (simp add: status_body_def MsgStatus_Marshal_def Let_def overwrite_def numeral_eq_Suc)

text \<open>Kicking a user out after a password change sends a kick-off status with the phone's id to every
  session of each of the user's phones and closes its connection, and touches nobody else.\<close>

theorem KickOffline_spec:
  assumes "\<forall>i \<in> set (TransId uid). sess_up env s (sess_list K s i)"
  shows "\<exists>ess. KickOffline K env uid s = (Ret (), s\<lparr>trace := trace s @ concat ess\<rparr>)
    \<and> list_all2 (\<lambda>i es. \<exists>bs. es = concat (map (\<lambda>a. [WsSend (conn_of s a) bs, WsClose (conn_of s a)]) (sess_list K s i))
        \<and> msg_view bs = (Some i, Some MIDStatus, MSTKickOff # le_bytes 8 i @ [0])) (TransId uid) ess"
proof -
  let ?Q = "\<lambda>m. \<exists>body. plain_msg MIDStatus body m"
  let ?R = "\<lambda>i es. \<exists>bs. es = concat (map (\<lambda>a. [WsSend (conn_of s a) bs, WsClose (conn_of s a)]) (sess_list K s i))
        \<and> msg_view bs = (Some i, Some MIDStatus, MSTKickOff # le_bytes 8 i @ [0])"
  have one: "\<exists>m' es. kick_id K env i m (s\<lparr>trace := t\<rparr>) = (Ret m', s\<lparr>trace := t @ es\<rparr>) \<and> ?Q m' \<and> ?R i es"
    if i: "i \<in> set (TransId uid)" and Q: "?Q m" for i m t
  proof -
    let ?body = "MSTKickOff # le_bytes 8 i @ [0]"
    let ?m = "(set_dst i m)\<lparr>Data := ?body\<rparr>" and ?now = "ucast (clock env t) :: u32"
    have plain: "plain_msg MIDStatus ?body ?m" using Q plain_msg_simps(2,4) by blast
    have view: "msg_view (wire ?now ?m) = (Some i, Some MIDStatus, ?body)"
      by (rule msg_view_wire [OF plain]) (simp add: set_dst_def)
    have up: "sess_up env s (sess_list K s i)" using assms i by blast
    have "go_each (kick_one env (wire ?now ?m)) (sess_list K s i) (s\<lparr>trace := t\<rparr>) = (Ret (), s\<lparr>trace := t @
        concat (map (\<lambda>a. [WsSend (conn_of s a) (wire ?now ?m), WsClose (conn_of s a)]) (sess_list K s i))\<rparr>)"
      using go_each_events [of "sess_list K s i" "kick_one env (wire ?now ?m)" "s\<lparr>trace := t\<rparr>"] kick_one_ok [OF up] by simp
    then have "kick_id K env i m (s\<lparr>trace := t\<rparr>) = (Ret (?m\<lparr>FrameHdr := (FrameHdr ?m)\<lparr>Time := ?now\<rparr>\<rparr>), s\<lparr>trace := t @
        concat (map (\<lambda>a. [WsSend (conn_of s a) (wire ?now ?m), WsClose (conn_of s a)]) (sess_list K s i))\<rparr>)"
      by (simp add: kick_id_def go_monad status_body_eq MarshalBytes_wire)
    then show ?thesis using view plain_msg_simps(3) [OF plain, of ?now] by blast
  qed
  let ?now = "ucast (clock env (trace s)) :: u32"
  have start: "?Q (common_msg ?now MIDStatus [])" using plain_msg_simps(1) by blast
  from go_fold_events [of "TransId uid" ?Q "kick_id K env" s ?R, OF one start, of "trace s"] show ?thesis
    by (auto simp: KickOffline_def go_monad)
qed

theorem KickOffline_spec_witness:
  "\<exists>ess. KickOffline (plain_hlist True) sample_cenv 16 sample_comet = (Ret (), sample_comet\<lparr>trace := trace sample_comet @ concat ess\<rparr>)
    \<and> list_all2 (\<lambda>i es. \<exists>bs. es = concat (map (\<lambda>a. [WsSend (conn_of sample_comet a) bs, WsClose (conn_of sample_comet a)])
          (sess_list (plain_hlist True) sample_comet i))
        \<and> msg_view bs = (Some i, Some MIDStatus, MSTKickOff # le_bytes 8 i @ [0])) (TransId 16) ess"
proof (rule KickOffline_spec)
  have "sess_up sample_cenv sample_comet (sess_list (plain_hlist True) sample_comet i)" for i
    using sample_up(1) by (cases "i = 17") (simp_all add: sample_comet_facts sess_up_def)
  then show "\<forall>i \<in> set (TransId 16). sess_up sample_cenv sample_comet (sess_list (plain_hlist True) sample_comet i)"
    by blast
qed

end
