(* ===== verification/UdpSession.thy ===== *)
theory UdpSession
  imports CometRedis Session
begin

text \<open>
  The sessions of the UDP comet (\<^verbatim>\<open>comet/udp_session.go\<close>): a session is stored in redis as JSON under
  its id, a 16-byte UUID, and found from the device's id; a lock per session id guards it.

  Parameters besides redis, in \<open>udp_svc\<close>: the UUID package, the lock package \<^verbatim>\<open>redsync\<close>, the JSON
  codec on sessions, and the HTTP API of the web server.  A UDP address is its printed form.  The
  state keeps the store, the ids locked at the moment, and the timers: \<open>udpmap\<close> finds a timer from an
  address, \<open>timers\<close> is the session each timer will announce as offline, \<open>armed\<close> are the timers that are
  running; when one of them fires is up to the environment.
\<close>

section \<open>Sessions\<close>

record UdpSession =
  Sid :: string
  DeviceId :: i64
  Addr :: string
  LastHeartbeat :: u64
  Sidx :: u16
  Ridx :: u16
  BindedUsers :: "i64 list"

definition NewUdpSession :: "u64 \<Rightarrow> string \<Rightarrow> UdpSession" where
  "NewUdpSession now addr =
     \<lparr>Sid = [], DeviceId = 0, Addr = addr, LastHeartbeat = now, Sidx = 0, Ridx = 0, BindedUsers = []\<rparr>"

text \<open>\<^verbatim>\<open>VerifySession\<close>: the updated session, or the error.\<close>

definition VerifySession :: "UdpSession \<Rightarrow> u16 \<Rightarrow> UdpSession option" where
  "VerifySession s packNum =
     (if packNum > Ridx s \<or> packNum < Ridx s \<and> packNum < 10 \<and> Ridx s > 65530
      then Some (s\<lparr>Ridx := packNum\<rparr>) else None)"

definition udp_isBinded :: "UdpSession \<Rightarrow> i64 \<Rightarrow> bool" where
  "udp_isBinded s i = (i - go_rem i kUseridUnit \<in> set (BindedUsers s))"

text \<open>Unlike the websocket sessions, a destination that is a single phone yields nothing.\<close>

definition UdpSession_CalcDestIds :: "UdpSession \<Rightarrow> i64 \<Rightarrow> i64 list" where
  "UdpSession_CalcDestIds s toId =
     (if toId = 0 then concat (map (\<lambda>b. map (\<lambda>j. b + of_nat j) [1..<16]) (BindedUsers s))
      else if \<not> udp_isBinded s toId then []
      else if go_rem toId kUseridUnit = 0 then map (\<lambda>j. toId + of_nat j) [1..<16]
      else [])"

definition UdpSession_Update :: "u64 \<Rightarrow> string \<Rightarrow> UdpSession \<Rightarrow> UdpSession" where
  "UdpSession_Update now addr s =
     (if Addr s \<noteq> addr then s\<lparr>Addr := addr\<rparr> else s)\<lparr>LastHeartbeat := now\<rparr>"

section \<open>Services and state\<close>

text \<open>A decoded JSON value; the number \<open>JNum m e\<close> is the \<^verbatim>\<open>float64\<close> \<open>m * 2 ^ e\<close>.  A reply has a status code and a
  body, which may not decode.\<close>

datatype json = JNum int int | JStr string | JOther

datatype http_reply = HttpError | HttpReply nat "(string \<rightharpoonup> json) option"

record 'r udp_svc = "'r redis_ops" +
  lock_ok :: "comet_event list \<Rightarrow> string \<Rightarrow> bool"
  uu_Parse :: "byte list \<Rightarrow> byte list option"
  uu_ParseHex :: "string \<Rightarrow> byte list option"
  uu_String :: "byte list \<Rightarrow> string"
  uu_NewV4 :: "comet_event list \<Rightarrow> byte list"
  js_Marshal :: "UdpSession \<Rightarrow> string"
  js_Unmarshal :: "string \<Rightarrow> UdpSession option"
  http_Post :: "comet_event list \<Rightarrow> string \<Rightarrow> string \<Rightarrow> http_reply"
  input_order :: "comet_event list \<Rightarrow> (string \<times> string) list \<Rightarrow> (string \<times> string) list"
  i32_overflow :: "int \<Rightarrow> u32"
  gUdpTimeout :: nat

record ('e, 'h, 'r) udp = "('e, 'h) busman" +
  store :: 'r
  held :: "string list"
  udpmap :: "string \<rightharpoonup> nat"
  timers :: "nat \<rightharpoonup> UdpSession"
  armed :: "nat list"
  timer_fresh :: nat

text \<open>A read or a write of the store.\<close>

definition on_store :: "('r \<Rightarrow> 'a \<times> 'r) \<Rightarrow> (('e, 'h, 'r) udp, 'a) go" where
  "on_store f s = (let (x, r) = f (store s) in (Ret x, s\<lparr>store := r\<rparr>))"

definition from_store :: "('r \<Rightarrow> 'a) \<Rightarrow> (('e, 'h, 'r) udp, 'a) go" where
  "from_store f = go_get (\<lambda>s. f (store s))"

text \<open>\<^verbatim>\<open>NewDeviceSessionLocker(sid).Lock()\<close> and \<^verbatim>\<open>Unlock()\<close>: a lock that is held is not given again, and
  getting it can also fail for reasons of the lock service.\<close>

definition Lock :: "'r udp_svc \<Rightarrow> string \<Rightarrow> (('e, 'h, 'r) udp, bool) go" where
  "Lock V sid = go_bind (go_get (\<lambda>s. sid \<notin> set (held s) \<and> lock_ok V (trace s) sid)) (\<lambda>ok.
     if ok then go_seq (go_upd (\<lambda>s. s\<lparr>held := sid # held s\<rparr>)) (go_ret True) else go_ret False)"

definition Unlock :: "string \<Rightarrow> (('e, 'h, 'r) udp, unit) go" where
  "Unlock sid = go_upd (\<lambda>s. s\<lparr>held := remove1 sid (held s)\<rparr>)"

section \<open>The session list\<close>

datatype udp_error =
    ErrStore | ErrLock | ErrSid | ErrSessPackSeq | ErrLength | ErrOpcode | ErrHeaderCheck | ErrBodyCheck | ErrBodyLen
  | ErrHttp | ErrNotImplemented

text \<open>\<^verbatim>\<open>GetSession\<close>: the stored JSON is decoded into a new object, whose id is then set.\<close>

definition GetSession :: "'r udp_svc \<Rightarrow> byte list \<Rightarrow> (('e, 'h, 'r) udp, UdpSession option) go" where
  "GetSession V sid = go_bind (from_store (GetDeviceSession (redis_ops.truncate V) (uu_String V sid))) (\<lambda>data.
     go_ret (case data of
       None \<Rightarrow> None
     | Some d \<Rightarrow> map_option (\<lambda>s. s\<lparr>Sid := uu_String V sid\<rparr>) (js_Unmarshal V d)))"

text \<open>\<^verbatim>\<open>time.AfterFunc\<close> with the closure of \<open>onLogin\<close>, \<^verbatim>\<open>Reset\<close>, and a timer that fires: it announces its session as offline
  and forgets the timer of the session's address, whichever that is by then.\<close>

definition AfterFunc :: "UdpSession \<Rightarrow> (('e, 'h, 'r) udp, unit) go" where
  "AfterFunc sess = go_upd (\<lambda>s. let k = timer_fresh s in
     s\<lparr>udpmap := (udpmap s)(Addr sess \<mapsto> k), timers := (timers s)(k \<mapsto> sess), armed := k # armed s, timer_fresh := Suc k\<rparr>)"

definition Timer_Reset :: "nat \<Rightarrow> (('e, 'h, 'r) udp, unit) go" where
  "Timer_Reset k = go_upd (\<lambda>s. s\<lparr>armed := (if k \<in> set (armed s) then armed s else k # armed s)\<rparr>)"

definition timer_fires :: "'r udp_svc \<Rightarrow> nat \<Rightarrow> (('e, 'h, 'r) udp, unit) go" where
  "timer_fires V k = go_bind (go_get (\<lambda>s. if k \<in> set (armed s) then timers s k else None)) (\<lambda>r. case r of
     None \<Rightarrow> go_ret ()
   | Some sess \<Rightarrow>
       go_seq (go_upd (\<lambda>s. s\<lparr>armed := removeAll k (armed s)\<rparr>))
      (go_seq (on_store (\<lambda>r. ((), PushDevOfflineMsgToUsers (redis_ops.truncate V) (DeviceId sess) (BindedUsers sess) r)))
         (go_upd (\<lambda>s. s\<lparr>udpmap := (udpmap s)(Addr sess := None)\<rparr>))))"

text \<open>\<^verbatim>\<open>SaveSession\<close>: the timer of the session's address is started again; the id itself is not part
  of the JSON.  The result says whether there was no error.\<close>

definition SaveSession :: "'r udp_svc \<Rightarrow> byte list \<Rightarrow> UdpSession \<Rightarrow> (('e, 'h, 'r) udp, bool) go" where
  "SaveSession V sid s =
     go_bind (go_get udpmap) (\<lambda>m.
     go_seq (case m (Addr s) of Some k \<Rightarrow> Timer_Reset k | None \<Rightarrow> go_ret ())
       (on_store (SetDeviceSession (redis_ops.truncate V) (uu_String V sid) (gUdpTimeout V) (js_Marshal V s) (DeviceId s))))"

text \<open>The common start of the operations on a device's session: find its id, lock it, read the session;
  the lock is released when the operation ends.  \<open>fail\<close> makes the operation's result from an error.\<close>

definition with_device ::
  "'r udp_svc \<Rightarrow> i64 \<Rightarrow> (udp_error \<Rightarrow> 'a) \<Rightarrow> (byte list \<Rightarrow> UdpSession \<Rightarrow> (('e, 'h, 'r) udp, 'a) go) \<Rightarrow> (('e, 'h, 'r) udp, 'a) go" where
  "with_device V did fail body =
     go_bind (from_store (GetDeviceSid (redis_ops.truncate V) did)) (\<lambda>r. case r of
       None \<Rightarrow> go_ret (fail ErrStore)
     | Some sid \<Rightarrow>
         go_bind (Lock V sid) (\<lambda>ok.
         if \<not> ok then go_ret (fail ErrLock)
         else
           go_bind (case uu_ParseHex V sid of
               None \<Rightarrow> go_ret (fail ErrSid)
             | Some i \<Rightarrow> go_bind (GetSession V i) (\<lambda>sess. case sess of
                 None \<Rightarrow> go_ret (fail ErrStore)
               | Some s \<Rightarrow> body i s)) (\<lambda>res.
           go_seq (Unlock sid) (go_ret res))))"

definition udp_Send :: "string \<Rightarrow> byte list \<Rightarrow> (('e, 'h, 'r) udp, unit) go" where
  "udp_Send addr msg = note_ev (UdpSend addr msg)"

definition GetDeviceAddr :: "'r udp_svc \<Rightarrow> i64 \<Rightarrow> (('e, 'h, 'r) udp, udp_error + string) go" where
  "GetDeviceAddr V did = with_device V did Inl (\<lambda>i sess. go_ret (Inr (Addr sess)))"

definition udp_PushCommonMsg ::
  "'r udp_svc \<Rightarrow> comet_env \<Rightarrow> u16 \<Rightarrow> i64 \<Rightarrow> byte list \<Rightarrow> (('e, 'h, 'r) udp, udp_error option) go" where
  "udp_PushCommonMsg V env msgId did msgBody =
     go_bind (go_get (\<lambda>s. clock env (trace s))) (\<lambda>now.
     let msg = set_dst did (common_msg (ucast now) msgId msgBody)
     in with_device V did Some (\<lambda>i sess.
          let sess = sess\<lparr>Sidx := Sidx sess + 1\<rparr>
          in go_bind (go_get (\<lambda>s. clock env (trace s))) (\<lambda>now.
             go_bind (go_lift (MarshalBytes (ucast now) (msg\<lparr>FrameHdr := (FrameHdr msg)\<lparr>Sequence := Sidx sess\<rparr>\<rparr>))) (\<lambda>(msg, msgBytes).
             go_seq (udp_Send (Addr sess) msgBytes)
               (go_bind (SaveSession V i sess) (\<lambda>_. go_ret None))))))"

text \<open>\<^verbatim>\<open>PushMsg\<close> writes the sequence number and the session id into the message it was given, which is
  a slice of the receive buffer; the slice expressions are checked against the capacity.  The result
  includes the changed message.\<close>

definition stamp :: "slice \<Rightarrow> u16 \<Rightarrow> byte list \<Rightarrow> slice option" where
  "stamp msg seq sid = do {
     _ \<leftarrow> sl_range msg 2 4;
     let msg = msg\<lparr>arr := overwrite (arr msg) 2 (le_bytes 2 seq)\<rparr>;
     _ \<leftarrow> sl_range msg 24 40;
     Some (msg\<lparr>arr := overwrite (arr msg) 24 (take 16 sid)\<rparr>)
   }"

definition udp_PushMsg ::
  "'r udp_svc \<Rightarrow> i64 \<Rightarrow> slice \<Rightarrow> (('e, 'h, 'r) udp, udp_error option \<times> slice) go" where
  "udp_PushMsg V did msg = with_device V did (\<lambda>e. (Some e, msg)) (\<lambda>i sess.
     let sess = sess\<lparr>Sidx := Sidx sess + 1\<rparr>
     in go_bind (go_lift (stamp msg (Sidx sess) i)) (\<lambda>msg.
        go_seq (udp_Send (Addr sess) (sl_bytes msg))
          (go_bind (SaveSession V i sess) (\<lambda>_. go_ret (None, msg)))))"

text \<open>The notification of the users runs in a goroutine of its own, after the lock is released.\<close>

definition udp_UpdateIds ::
  "('e, 'h) srv_ops \<Rightarrow> 'r udp_svc \<Rightarrow> comet_env \<Rightarrow> i64 \<Rightarrow> i64 \<Rightarrow> bool \<Rightarrow> (('e, 'h, 'r) udp, unit) go" where
  "udp_UpdateIds B V env deviceId userId bindType =
     go_bind (with_device V deviceId Some (\<lambda>i sess.
       let sess = sess\<lparr>BindedUsers := (if bindType then BindedUsers sess @ [userId]
                                        else swap_remove_val userId (BindedUsers sess))\<rparr>
       in go_bind (SaveSession V i sess) (\<lambda>_. go_ret None))) (\<lambda>err.
     if err \<noteq> None then go_ret ()
     else if bindType then NotifyBindedIdChanged B env deviceId (TransId userId) []
     else NotifyBindedIdChanged B env deviceId [] (TransId userId))"

lemma Push2Bus_keeps:
  "store (snd (Push2Bus B env src ids msg st)) = store st" "held (snd (Push2Bus B env src ids msg st)) = held st"
  by (auto simp: Push2Bus_def MsgBusServer_Send_def go_monad Let_def split: option.splits)

section \<open>Sequence numbers\<close>

text \<open>The packet numbers a session accepts from a sequence of received ones.\<close>

fun accepted :: "UdpSession \<Rightarrow> u16 list \<Rightarrow> u16 list" where
  "accepted s [] = []"
| "accepted s (n # ns) = (case VerifySession s n of None \<Rightarrow> accepted s ns | Some s' \<Rightarrow> n # accepted s' ns)"

definition follows :: "u16 \<Rightarrow> u16 \<Rightarrow> bool" where
  "follows a b \<longleftrightarrow> a < b \<or> 65530 < a \<and> b < 10"

lemma VerifySession_iff:
  "VerifySession s n = Some s' \<longleftrightarrow> follows (Ridx s) n \<and> s' = s\<lparr>Ridx := n\<rparr>"
proof -
  have "(n :: u16) < 10 \<Longrightarrow> 65530 < Ridx s \<Longrightarrow> n < Ridx s"
    by (simp add: word_less_nat_alt)
  then show ?thesis by (auto simp: VerifySession_def follows_def)
qed

lemma accepted_follows:
  "successively follows (Ridx s # accepted s ns)"
proof (induction ns arbitrary: s)
  case (Cons n ns)
  show ?case
  proof (cases "VerifySession s n")
    case None
    then show ?thesis using Cons [of s] by simp
  next
    case (Some s')
    then show ?thesis using Cons [of s'] VerifySession_iff [of s n s'] by simp
  qed
qed simp

lemma successively_follows_sorted:
  assumes "successively follows (a # ns)" and "\<forall>n \<in> set (a # ns). n \<le> 65530"
  shows "sorted_wrt (<) (a # ns)"
  using assms
proof (induction ns arbitrary: a)
  case (Cons n ns)
  have "a \<le> 65530" "follows a n" using Cons.prems by simp_all
  then have an: "a < n" by (simp add: follows_def leD)
  have "sorted_wrt (<) (n # ns)" by (rule Cons.IH) (use Cons.prems in auto)
  then show ?case using an by (auto intro: less_trans)
qed simp

text \<open>Packet numbers are never replayed: whatever packets arrive at a session, those it accepts are
  each newer than the one before, up to the wrap-around (from above 65530 to below 10); as long as none is above
  65530 their numbers strictly increase, so that no packet is accepted twice.\<close>

theorem VerifySession_no_replay:
  "successively (\<lambda>a b. a < b \<or> 65530 < a \<and> b < 10) (Ridx s # accepted s ns)
   \<and> ((\<forall>n \<in> set (Ridx s # accepted s ns). n \<le> 65530) \<longrightarrow> sorted_wrt (<) (Ridx s # accepted s ns))"
  using accepted_follows [of s ns] successively_follows_sorted [of "Ridx s" "accepted s ns"]
  by (simp add: follows_def [abs_def])

theorem VerifySession_no_replay_witness:
  "accepted (NewUdpSession 0 []) [1, 2, 2, 1, 5] = [1, 2, 5] \<and> sorted_wrt (<) (0 # [1, 2, 5 :: u16])"
proof -
  have "accepted (NewUdpSession 0 []) [1, 2, 2, 1, 5] = [1, 2, 5]"
    by (simp add: VerifySession_def NewUdpSession_def)
  then show ?thesis
    using VerifySession_no_replay [of "NewUdpSession 0 []" "[1, 2, 2, 1, 5]"] by (simp add: NewUdpSession_def)
qed

text \<open>The wrap-around window is too small for lossy links: once a session has accepted number 65535 it accepts none but
  0 to 9, so that when those ten packets are lost it rejects everything the device sends, for
  ever.\<close>

theorem VerifySession_stuck:
  assumes "Ridx s = 65535" and "\<forall>n \<in> set ns. 10 \<le> n"
  shows "accepted s ns = []"
  using assms(2)
proof (induction ns)
  case (Cons n ns)
  have "\<not> 65535 < n" using unsigned_less [of n, where 'a = nat] by (simp add: word_less_nat_alt)
  then have "\<not> follows (Ridx s) n" using Cons.prems assms(1) by (simp add: follows_def not_less)
  then have "VerifySession s n = None" using VerifySession_iff [of s n] by (cases "VerifySession s n") auto
  then show ?case using Cons by simp
qed simp

theorem VerifySession_stuck_witness:
  "accepted ((NewUdpSession 0 [])\<lparr>Ridx := 65535\<rparr>) [10, 11, 300] = []"
  by (rule VerifySession_stuck) simp_all

section \<open>Destinations\<close>

text \<open>A board's UDP session computes the same destinations as a board's websocket session with the same users, except that
  a destination that is one phone is dropped: the function lacks the branch that returns it.\<close>

theorem UdpSession_CalcDestIds_ws:
  assumes "go_neg (Uid w)" and "BindedIds w = BindedUsers s"
  shows "UdpSession_CalcDestIds s toId = (if go_rem toId kUseridUnit \<noteq> 0 then [] else calcDestIds w toId)"
proof -
  have "go_rem 0 kUseridUnit = 0" by (simp add: go_rem_def kUseridUnit_def)
  then show ?thesis
    using assms by (auto simp: UdpSession_CalcDestIds_def calcDestIds_def udp_isBinded_def isBinded_def Let_def)
qed

theorem UdpSession_CalcDestIds_ws_witness:
  "let s = (NewUdpSession 0 [])\<lparr>BindedUsers := [16]\<rparr>; w = \<lparr>Uid = - 9, BindedIds = [16], Conn = None\<rparr>
   in UdpSession_CalcDestIds s 17 = [] \<and> calcDestIds w 17 = [17] \<and> UdpSession_CalcDestIds s 16 = calcDestIds w 16"
proof -
  let ?s = "(NewUdpSession 0 [])\<lparr>BindedUsers := [16]\<rparr>" and ?w = "\<lparr>Uid = - 9, BindedIds = [16], Conn = None\<rparr>"
  have eq: "UdpSession_CalcDestIds ?s t = (if go_rem t kUseridUnit \<noteq> 0 then [] else calcDestIds ?w t)" for t
    by (rule UdpSession_CalcDestIds_ws) (simp_all add: go_neg_def)
  have r: "go_rem 17 kUseridUnit = 1" "go_rem 16 kUseridUnit = 0"
    by (simp_all add: go_rem_def kUseridUnit_def signed_modulo_int_def)
  then have "calcDestIds ?w 17 = [17]"
    by (simp add: calcDestIds_def isBinded_def go_neg_def)
  then show ?thesis using eq [of 17] eq [of 16] r by (simp add: Let_def)
qed

section \<open>The services' documented behaviour\<close>

text \<open>A UUID of 16 bytes is printed without colons and read back; a session read from its JSON is the session without its id.\<close>

locale udp_store = redis_strings "redis_ops.truncate V" for V :: "'r udp_svc" +
  assumes uuid_roundtrip: "length i = 16 \<Longrightarrow> uu_ParseHex V (uu_String V i) = Some i"
    and uuid_no_colon: "CHR '':'' \<notin> set (uu_String V i)"
    and json_roundtrip: "js_Unmarshal V (js_Marshal V s) = Some (s\<lparr>Sid := []\<rparr>)"

text \<open>The session a store holds under an id, and the one it holds for a device.\<close>

definition lookup :: "'r udp_svc \<Rightarrow> 'r \<Rightarrow> byte list \<Rightarrow> UdpSession option" where
  "lookup V r i = (case GetDeviceSession (redis_ops.truncate V) (uu_String V i) r of
     None \<Rightarrow> None | Some d \<Rightarrow> map_option (\<lambda>s. s\<lparr>Sid := uu_String V i\<rparr>) (js_Unmarshal V d))"

definition stored :: "'r udp_svc \<Rightarrow> 'r \<Rightarrow> i64 \<Rightarrow> byte list \<Rightarrow> UdpSession \<Rightarrow> bool" where
  "stored V r did i s \<longleftrightarrow>
     GetDeviceSid (redis_ops.truncate V) did r = Some (uu_String V i) \<and> lookup V r i = Some s
   \<and> DeviceId s = did \<and> did \<noteq> 0 \<and> length i = 16"

lemma session_keys [simp]:
  "RedisSessionDevice x = RedisSessionDevice y \<longleftrightarrow> x = y"
  "RedisSessionDeviceAddr a = RedisSessionDeviceAddr b \<longleftrightarrow> a = b"
  by (simp_all add: RedisSessionDevice_def RedisSessionDeviceAddr_def)

lemma session_key_addr: "CHR '':'' \<notin> set x \<Longrightarrow> RedisSessionDevice x \<noteq> RedisSessionDeviceAddr a"
  by (auto simp: RedisSessionDevice_def RedisSessionDeviceAddr_def)

lemma GetSession_eq: "GetSession V i st = (Ret (lookup V (store st) i), st)"
  by (simp add: GetSession_def from_store_def go_monad lookup_def)

context udp_store
begin

lemma uuid_inj: "length i = 16 \<Longrightarrow> length j = 16 \<Longrightarrow> uu_String V i = uu_String V j \<longleftrightarrow> i = j"
  by (metis uuid_roundtrip option.inject)

text \<open>Saving a session makes it the one found under its id and for its device, and changes nothing
  else that is stored for other ids and devices.\<close>

lemma SaveSession_store:
  assumes "\<And>r. rd_up (redis_ops.truncate V) r" and "length i = 16"
    and "Sid s = uu_String V i" and "DeviceId s \<noteq> 0"
  shows "\<exists>st'. SaveSession V i s st = (Ret True, st')
     \<and> stored V (store st') (DeviceId s) i s
     \<and> (\<forall>did' i' s'. did' \<noteq> DeviceId s \<longrightarrow> i' \<noteq> i \<longrightarrow> stored V (store st) did' i' s' \<longrightarrow> stored V (store st') did' i' s')
     \<and> trace st' = trace st \<and> held st' = held st \<and> udpmap st' = udpmap st"
proof -
  note keys = session_key_addr [OF uuid_no_colon] session_key_addr [OF uuid_no_colon, THEN not_sym]
  have id: "s\<lparr>Sid := uu_String V i\<rparr> = s" using assms(3) by simp
  show ?thesis
    using assms id
    by (auto simp: SaveSession_def go_monad on_store_def Timer_Reset_def SetDeviceSession_def Let_def stored_def lookup_def
          GetDeviceSession_def GetDeviceSid_def GET_SETEX keys json_roundtrip uuid_inj split: option.splits)
qed

lemma SaveSession_lookup:
  assumes "\<And>r. rd_up (redis_ops.truncate V) r" and "Sid s = uu_String V i"
  shows "\<exists>st'. SaveSession V i s st = (Ret True, st') \<and> lookup V (store st') i = Some s"
proof -
  note keys = session_key_addr [OF uuid_no_colon] session_key_addr [OF uuid_no_colon, THEN not_sym]
  have "s\<lparr>Sid := uu_String V i\<rparr> = s" using assms(2) by simp
  then show ?thesis
    using assms(1)
    by (auto simp: SaveSession_def go_monad on_store_def Timer_Reset_def SetDeviceSession_def Let_def lookup_def
          GetDeviceSession_def GET_SETEX keys json_roundtrip split: option.splits)
qed

lemma with_device_found:
  assumes "stored V (store st) did i s" and "uu_String V i \<notin> set (held st)" and "lock_ok V (trace st) (uu_String V i)"
  shows "with_device V did fail body st =
    (case body i s (st\<lparr>held := uu_String V i # held st\<rparr>) of
       (Ret x, t) \<Rightarrow> (Ret x, t\<lparr>held := remove1 (uu_String V i) (held t)\<rparr>)
     | (Panic, t) \<Rightarrow> (Panic, t)
     | (Blocked, t) \<Rightarrow> (Blocked, t))"
  using assms
  by (simp add: with_device_def from_store_def stored_def go_monad Lock_def GetSession_eq Unlock_def uuid_roundtrip
      split: prod.splits outcome.splits)

end

section \<open>Pushing messages to a device\<close>

text \<open>A forwarded message on its way to a device: the sequence number and the session id are replaced.\<close>

definition stamped :: "u16 \<Rightarrow> byte list \<Rightarrow> byte list \<Rightarrow> byte list" where
  "stamped seq i bs = take 2 bs @ le_bytes 2 seq @ take 20 (drop 4 bs) @ i @ drop 40 bs"

lemma stamp_mk:
  assumes "40 \<le> length bs" and "length i = 16"
  shows "stamp (mk_slice bs stale) seq i = Some (mk_slice (stamped seq i bs) stale)"
proof -
  have "take 24 (take 2 bs @ le_bytes 2 seq @ drop 4 bs) = take 2 bs @ le_bytes 2 seq @ take 20 (drop 4 bs)"
    using assms(1) by simp
  moreover have "drop 40 (take 2 bs @ le_bytes 2 seq @ drop 4 bs) = drop 40 bs"
    using assms(1) by simp
  ultimately show ?thesis
    using assms by (simp add: stamp_def sl_range_def mk_slice_def overwrite_def stamped_def min_def) arith
qed

lemma lookup_Sid: "lookup V r i = Some s \<Longrightarrow> Sid s = uu_String V i"
  by (auto simp: lookup_def split: option.splits)

context udp_store
begin

lemma udp_PushMsg_one:
  assumes up: "\<And>r. rd_up (redis_ops.truncate V) r" and stored: "stored V (store st) did i s"
    and lock: "uu_String V i \<notin> set (held st)" "lock_ok V (trace st) (uu_String V i)" and len: "40 \<le> length bs"
  shows "\<exists>st'. udp_PushMsg V did (mk_slice bs stale) st = (Ret (None, mk_slice (stamped (Sidx s + 1) i bs) stale), st')
     \<and> stored V (store st') did i (s\<lparr>Sidx := Sidx s + 1\<rparr>)
     \<and> (\<forall>did' i' s'. did' \<noteq> did \<longrightarrow> i' \<noteq> i \<longrightarrow> stored V (store st) did' i' s' \<longrightarrow> stored V (store st') did' i' s')
     \<and> trace st' = trace st @ [UdpSend (Addr s) (stamped (Sidx s + 1) i bs)] \<and> held st' = held st"
proof -
  let ?s = "s\<lparr>Sidx := Sidx s + 1\<rparr>" and ?b = "stamped (Sidx s + 1) i bs"
  let ?st = "st\<lparr>held := uu_String V i # held st, trace := trace st @ [UdpSend (Addr s) ?b]\<rparr>"
  have i: "length i = 16" "DeviceId ?s = did" "did \<noteq> 0" "Sid ?s = uu_String V i"
    using stored lookup_Sid by (auto simp: stored_def)
  obtain st' where "SaveSession V i ?s ?st = (Ret True, st')" and st': "stored V (store st') did i ?s"
    "\<forall>did' i' s'. did' \<noteq> did \<longrightarrow> i' \<noteq> i \<longrightarrow> stored V (store st) did' i' s' \<longrightarrow> stored V (store st') did' i' s'"
    "trace st' = trace ?st" "held st' = held ?st"
    using SaveSession_store [OF up i(1,4), of ?st] i by auto
  then show ?thesis
    using with_device_found [OF stored lock, where fail = "\<lambda>e. (Some e, mk_slice bs stale)"]
    by (simp add: udp_PushMsg_def Let_def go_monad stamp_mk [OF len i(1)] udp_Send_def)
qed

lemma udp_PushMsg_all:
  assumes up: "\<And>r. rd_up (redis_ops.truncate V) r" and lock: "\<And>tr. lock_ok V tr (uu_String V i)"
    and "stored V (store st) did i s" and "uu_String V i \<notin> set (held st)" and "\<forall>(bs, _) \<in> set ms. 40 \<le> length bs"
  shows "\<exists>st'. go_each (\<lambda>(bs, stale). go_bind (udp_PushMsg V did (mk_slice bs stale)) (\<lambda>_. go_ret ())) ms st = (Ret (), st')
     \<and> stored V (store st') did i (s\<lparr>Sidx := Sidx s + of_nat (length ms)\<rparr>) \<and> held st' = held st
     \<and> trace st' = trace st @ map (\<lambda>k. UdpSend (Addr s) (stamped (Sidx s + of_nat (Suc k)) i (fst (ms ! k)))) [0..<length ms]"
  using assms(3-5)
proof (induction ms arbitrary: st s)
  case Nil
  then show ?case by (simp add: go_monad)
next
  case (Cons m ms)
  obtain bs stale where m: "m = (bs, stale)" by fastforce
  obtain st1 where 1: "udp_PushMsg V did (mk_slice bs stale) st = (Ret (None, mk_slice (stamped (Sidx s + 1) i bs) stale), st1)"
    "stored V (store st1) did i (s\<lparr>Sidx := Sidx s + 1\<rparr>)" "held st1 = held st"
    "trace st1 = trace st @ [UdpSend (Addr s) (stamped (Sidx s + 1) i bs)]"
    using udp_PushMsg_one [OF up Cons.prems(1,2) lock, of bs stale] Cons.prems(3) m by auto
  obtain st' where 2: "go_each (\<lambda>(bs, stale). go_bind (udp_PushMsg V did (mk_slice bs stale)) (\<lambda>_. go_ret ())) ms st1 = (Ret (), st')"
    "stored V (store st') did i (s\<lparr>Sidx := Sidx s + 1 + of_nat (length ms)\<rparr>)" "held st' = held st1"
    "trace st' = trace st1 @ map (\<lambda>k. UdpSend (Addr s) (stamped (Sidx s + 1 + of_nat (Suc k)) i (fst (ms ! k)))) [0..<length ms]"
    using Cons.IH [OF 1(2)] 1(3) Cons.prems by auto
  have "[0..<length (m # ms)] = 0 # map Suc [0..<length ms]"
    by (simp add: upt_conv_Cons map_Suc_upt del: upt_Suc)
  moreover have "go_bind (udp_PushMsg V did (mk_slice bs stale)) (\<lambda>_. go_ret ()) st = (Ret (), st1)"
    using 1(1) by (simp add: go_monad)
  ultimately show ?case
    using 1 2 m by (intro exI [of _ st']) (simp add: go_seq_Ret comp_def add.assoc del: upt_Suc)
qed

end

section \<open>Services for examples\<close>

text \<open>A session as text: the numbers as bytes, the list of users with its length in unary, the address last.\<close>

definition plain_marshal :: "UdpSession \<Rightarrow> string" where
  "plain_marshal s =
     bytes_str (le_bytes 8 (DeviceId s) @ le_bytes 8 (LastHeartbeat s) @ le_bytes 2 (Sidx s) @ le_bytes 2 (Ridx s))
     @ concat (map (\<lambda>u. CHR ''u'' # bytes_str (le_bytes 8 u)) (BindedUsers s)) @ CHR ''a'' # Addr s"

fun plain_users :: "nat \<Rightarrow> string \<Rightarrow> i64 list \<times> string" where
  "plain_users (Suc n) (c # cs) = (if c = CHR ''u''
     then let (us, rest) = plain_users n (drop 8 cs) in (le_word (str_bytes (take 8 cs)) # us, rest)
     else ([], cs))"
| "plain_users n cs = ([], cs)"

definition plain_unmarshal :: "string \<Rightarrow> UdpSession option" where
  "plain_unmarshal d =
     (let (us, a) = plain_users (length d) (drop 20 d); f = (\<lambda>n k. str_bytes (take k (drop n d)))
      in Some \<lparr>Sid = [], DeviceId = le_word (f 0 8), Addr = a, LastHeartbeat = le_word (f 8 8),
               Sidx = le_word (f 16 2), Ridx = le_word (f 18 2), BindedUsers = us\<rparr>)"

text \<open>A UUID as two letters for each byte.\<close>

definition plain_uuid :: "byte list \<Rightarrow> string" where
  "plain_uuid i = concat (map (\<lambda>b. [char_of (97 + unat b div 16), char_of (97 + unat b mod 16)]) i)"

fun plain_hex :: "string \<Rightarrow> byte list" where
  "plain_hex (c # d # cs) = of_nat ((of_char c - 97) * 16 + (of_char d - 97)) # plain_hex cs"
| "plain_hex cs = []"

definition plain_svc :: "plain_store udp_svc" where
  "plain_svc = redis_ops.extend plain_redis (udp_svc.fields
     (\<lambda>tr sid. True) Some (\<lambda>s. Some (plain_hex s)) plain_uuid (\<lambda>tr. replicate 16 7)
     plain_marshal plain_unmarshal (\<lambda>tr url body. HttpReply 200 (Some [''status'' \<mapsto> JNum 0 0]))
     (\<lambda>tr xs. xs) (\<lambda>n. 0) 40)"

definition plain_udp :: "(nat \<times> MsgBusServer, (nat \<times> MsgBusServer) list, plain_store) udp" where
  "plain_udp = \<lparr>bm_list = [], bm_curr = None, bm_fresh = 0, trace = [], store = empty_store, held = [],
     udpmap = Map.empty, timers = Map.empty, armed = [], timer_fresh = 0\<rparr>"

lemma plain_users_marshal:
  "length us < n \<Longrightarrow>
   plain_users n (concat (map (\<lambda>u. CHR ''u'' # bytes_str (le_bytes 8 u)) us) @ CHR ''a'' # a) = (us, a)"
proof (induction us arbitrary: n)
  case Nil
  then show ?case by (cases n) simp_all
next
  case (Cons u us)
  then obtain m where "n = Suc m" "length us < m" by (cases n) auto
  then show ?case using Cons.IH [of m] by simp
qed

lemma plain_json: "plain_unmarshal (plain_marshal s) = Some (s\<lparr>Sid := []\<rparr>)"
proof -
  let ?us = "concat (map (\<lambda>u. CHR ''u'' # bytes_str (le_bytes 8 u)) (BindedUsers s)) @ CHR ''a'' # Addr s"
  have "length (BindedUsers s) \<le> length (concat (map (\<lambda>u. CHR ''u'' # bytes_str (le_bytes 8 u)) (BindedUsers s)))"
    by (induction "BindedUsers s" arbitrary: s) (simp_all add: length_concat comp_def sum_list_triv)
  then have "plain_users (length (plain_marshal s)) ?us = (BindedUsers s, Addr s)"
    by (intro plain_users_marshal) (simp add: plain_marshal_def)
  then show ?thesis
    by (simp add: plain_unmarshal_def plain_marshal_def Let_def split: prod.splits)
qed

lemma plain_hex_uuid: "plain_hex (plain_uuid i) = i"
proof (induction i)
  case Nil
  show ?case by (simp add: plain_uuid_def)
next
  case (Cons b i)
  have "unat b < 256" using unsigned_less [of b, where 'a = nat] by simp
  then have "unat b div 16 < 16" by presburger
  then have "of_nat ((of_char (char_of (97 + unat b div 16) :: char) - 97) * 16 + (of_char (char_of (97 + unat b mod 16) :: char) - 97)) = b"
    by (simp add: of_char_of take_bit_nat_def)
  then show ?case using Cons by (simp add: plain_uuid_def)
qed

lemma plain_uuid_no_colon: "CHR '':'' \<notin> set (plain_uuid i)"
proof -
  have "char_of (97 + n) \<noteq> CHR '':''" if "n < 16" for n :: nat
  proof
    assume "char_of (97 + n) = CHR '':''"
    then have "(of_char (char_of (97 + n) :: char) :: nat) = of_char (CHR '':'')" by simp
    then show False using that by (simp add: of_char_of take_bit_nat_def)
  qed
  moreover have "unat b div 16 < 16 \<and> unat b mod 16 < 16" for b :: byte
    using unsigned_less [of b, where 'a = nat] by simp
  ultimately have "CHR '':'' \<notin> set [char_of (97 + unat b div 16), char_of (97 + unat b mod 16)]" for b :: byte
    by (metis empty_iff empty_set set_ConsD)
  then show ?thesis by (simp add: plain_uuid_def)
qed

lemma truncate_plain [simp]: "redis_ops.truncate plain_svc = plain_redis"
  by (simp add: plain_svc_def redis_ops.defs udp_svc.defs plain_redis_def)

interpretation ps: udp_store plain_svc
  unfolding udp_store_def truncate_plain udp_store_axioms_def
  by (intro conjI plain_strings.redis_strings_axioms)
     (simp_all add: plain_svc_def redis_ops.defs udp_svc.defs plain_hex_uuid plain_uuid_no_colon plain_json)

section \<open>Properties: pushing\<close>

text \<open>C36: Messages pushed to a device are numbered: when redis works and the session's lock is free, each message is sent
  to the address of the device's session exactly once and in order, carrying the next sequence number
  (at 16 bits) and the session's id and being otherwise unchanged; the stored session keeps count, and the lock is free again.\<close>

theorem udp_PushMsg_numbers:
  assumes "udp_store V" and "\<And>r. rd_up (redis_ops.truncate V) r" and "\<And>tr. lock_ok V tr (uu_String V i)"
    and "stored V (store st) did i s" and "uu_String V i \<notin> set (held st)" and "\<forall>(bs, _) \<in> set ms. 40 \<le> length bs"
  shows "\<exists>st'. go_each (\<lambda>(bs, stale). go_bind (udp_PushMsg V did (mk_slice bs stale)) (\<lambda>_. go_ret ())) ms st = (Ret (), st')
     \<and> stored V (store st') did i (s\<lparr>Sidx := Sidx s + of_nat (length ms)\<rparr>) \<and> held st' = held st
     \<and> trace st' = trace st @ map (\<lambda>k. UdpSend (Addr s) (stamped (Sidx s + of_nat (Suc k)) i (fst (ms ! k)))) [0..<length ms]"
  using assms by (rule udp_store.udp_PushMsg_all)

definition sample_sess :: UdpSession where
  "sample_sess = \<lparr>Sid = plain_uuid (replicate 16 7), DeviceId = - 9, Addr = ''1.2.3.4:5'', LastHeartbeat = 0,
     Sidx = 65535, Ridx = 4, BindedUsers = [16]\<rparr>"

definition sample_udp :: "(nat \<times> MsgBusServer, (nat \<times> MsgBusServer) list, plain_store) udp" where
  "sample_udp = snd (SaveSession plain_svc (replicate 16 7) sample_sess plain_udp)"

lemma plain_up [simp]: "rd_up plain_redis r"
  by (simp add: plain_redis_def)

lemma plain_lock [simp]: "lock_ok plain_svc tr sid" "uu_String plain_svc = plain_uuid"
  by (simp_all add: plain_svc_def redis_ops.defs udp_svc.defs)

lemma sample_udp_stored: "stored plain_svc (store sample_udp) (- 9) (replicate 16 7) sample_sess"
  and sample_udp_rest: "trace sample_udp = []" "held sample_udp = []" "udpmap sample_udp = Map.empty"
  using ps.SaveSession_store [of "replicate 16 7" sample_sess plain_udp]
  by (auto simp: sample_udp_def sample_sess_def plain_udp_def)

theorem udp_PushMsg_numbers_witness:
  "\<exists>st'. go_each (\<lambda>(bs, stale). go_bind (udp_PushMsg plain_svc (- 9) (mk_slice bs stale)) (\<lambda>_. go_ret ()))
       [(replicate 40 1, []), (replicate 41 2, [3])] sample_udp = (Ret (), st')
     \<and> trace st' = [UdpSend ''1.2.3.4:5'' (stamped 0 (replicate 16 7) (replicate 40 1)), UdpSend ''1.2.3.4:5'' (stamped 1 (replicate 16 7) (replicate 41 2))]"
proof -
  have wrap: "(65536 :: u16) = 0" "(65537 :: u16) = 1" by simp_all
  show ?thesis
    using udp_PushMsg_numbers [OF ps.udp_store_axioms _ _ sample_udp_stored, of "[(replicate 40 1, []), (replicate 41 2, [3])]"]
    by (auto simp: sample_udp_rest sample_sess_def wrap simp del: go_each.simps)
qed

end
