(* ===== verification/Go_Encoding.thy ===== *)
theory Go_Encoding
  imports Go_Prelude
begin

text \<open>
  What the repository uses of \<^verbatim>\<open>encoding/base64\<close>, \<^verbatim>\<open>fmt\<close> and \<^verbatim>\<open>crypto/md5\<close>.
\<close>

section \<open>Text formats\<close>

text \<open>\<^verbatim>\<open>base64.StdEncoding\<close> and the verb \<^verbatim>\<open>%x\<close>.\<close>

definition b64_char :: "nat \<Rightarrow> char" where
  "b64_char n = (if n < 26 then char_of (65 + n) else if n < 52 then char_of (71 + n)
     else if n < 62 then char_of (n - 4) else if n = 62 then CHR ''+'' else CHR ''/'')"

fun base64 :: "byte list \<Rightarrow> string" where
  "base64 [] = []"
| "base64 [a] = (let n = unat a * 16 in [b64_char (n div 64), b64_char (n mod 64), CHR ''='', CHR ''=''])"
| "base64 [a, b] = (let n = (unat a * 256 + unat b) * 4
     in [b64_char (n div 4096), b64_char (n div 64 mod 64), b64_char (n mod 64), CHR ''=''])"
| "base64 (a # b # c # bs) = (let n = (unat a * 256 + unat b) * 256 + unat c
     in [b64_char (n div 262144), b64_char (n div 4096 mod 64), b64_char (n div 64 mod 64), b64_char (n mod 64)] @ base64 bs)"

definition hex_char :: "nat \<Rightarrow> char" where
  "hex_char n = (if n < 10 then char_of (48 + n) else char_of (87 + n))"

definition hex :: "byte list \<Rightarrow> string" where
  "hex bs = concat (map (\<lambda>b. [hex_char (unat b div 16), hex_char (unat b mod 16)]) bs)"

section \<open>MD5\<close>

definition md5_K :: "u32 list" where
  "md5_K = [
      0xd76aa478, 0xe8c7b756, 0x242070db, 0xc1bdceee, 0xf57c0faf, 0x4787c62a, 0xa8304613, 0xfd469501,
      0x698098d8, 0x8b44f7af, 0xffff5bb1, 0x895cd7be, 0x6b901122, 0xfd987193, 0xa679438e, 0x49b40821,
      0xf61e2562, 0xc040b340, 0x265e5a51, 0xe9b6c7aa, 0xd62f105d, 0x02441453, 0xd8a1e681, 0xe7d3fbc8,
      0x21e1cde6, 0xc33707d6, 0xf4d50d87, 0x455a14ed, 0xa9e3e905, 0xfcefa3f8, 0x676f02d9, 0x8d2a4c8a,
      0xfffa3942, 0x8771f681, 0x6d9d6122, 0xfde5380c, 0xa4beea44, 0x4bdecfa9, 0xf6bb4b60, 0xbebfbc70,
      0x289b7ec6, 0xeaa127fa, 0xd4ef3085, 0x04881d05, 0xd9d4d039, 0xe6db99e5, 0x1fa27cf8, 0xc4ac5665,
      0xf4292244, 0x432aff97, 0xab9423a7, 0xfc93a039, 0x655b59c3, 0x8f0ccc92, 0xffeff47d, 0x85845dd1,
      0x6fa87e4f, 0xfe2ce6e0, 0xa3014314, 0x4e0811a1, 0xf7537e82, 0xbd3af235, 0x2ad7d2bb, 0xeb86d391]"

definition md5_shifts :: "nat list" where
  "md5_shifts = concat (map (\<lambda>ss. concat (replicate 4 ss)) [[7, 12, 17, 22], [5, 9, 14, 20], [4, 11, 16, 23], [6, 10, 15, 21]])"

type_synonym md5_state = "u32 \<times> u32 \<times> u32 \<times> u32"

definition md5_round :: "u32 list \<Rightarrow> nat \<Rightarrow> md5_state \<Rightarrow> md5_state" where
  "md5_round M i st = (case st of (a, b, c, d) \<Rightarrow>
     let (f, g) =
       (if i < 16 then ((b AND c) OR (NOT b AND d), i)
        else if i < 32 then ((d AND b) OR (NOT d AND c), (5 * i + 1) mod 16)
        else if i < 48 then (b XOR c XOR d, (3 * i + 5) mod 16)
        else (c XOR (b OR NOT d), 7 * i mod 16))
     in (d, b + word_rotl (md5_shifts ! i) (f + a + md5_K ! i + M ! g), b, c))"

fun md5_words :: "byte list \<Rightarrow> u32 list" where
  "md5_words (a # b # c # d # bs) = le_word [a, b, c, d] # md5_words bs"
| "md5_words bs = []"

definition md5_chunk :: "byte list \<Rightarrow> md5_state \<Rightarrow> md5_state" where
  "md5_chunk bs st = (case st of (a, b, c, d) \<Rightarrow>
     case fold (md5_round (md5_words bs)) [0..<64] st of (a', b', c', d') \<Rightarrow> (a + a', b + b', c + c', d + d'))"

function md5_chunks :: "byte list \<Rightarrow> md5_state \<Rightarrow> md5_state" where
  "md5_chunks bs st = (if length bs < 64 then st else md5_chunks (drop 64 bs) (md5_chunk (take 64 bs) st))"
  by pat_completeness auto

termination
  by (relation "measure (\<lambda>(bs, st). length bs)") auto

declare md5_chunks.simps [simp del]

definition md5_pad :: "byte list \<Rightarrow> byte list" where
  "md5_pad bs = bs @ [0x80] @ replicate ((119 - length bs mod 64) mod 64) 0 @ le_bytes 8 (of_nat (8 * length bs) :: u64)"

definition md5_Sum :: "byte list \<Rightarrow> byte list" where
  "md5_Sum bs = (case md5_chunks (md5_pad bs) (0x67452301, 0xefcdab89, 0x98badcfe, 0x10325476) of
     (a, b, c, d) \<Rightarrow> le_bytes 4 a @ le_bytes 4 b @ le_bytes 4 c @ le_bytes 4 d)"

end
