(* ===== verification/UdpHandler.thy ===== *)
theory UdpHandler
  imports UdpSession Go_Encoding
begin

text \<open>
  The packets of the devices (\<^verbatim>\<open>comet/udp_handler.go\<close>, \<^verbatim>\<open>comet/task.go\<close>): commands (opcode 2), which get
  an answer, and messages to forward (opcode 3).

  \<^verbatim>\<open>Process\<close> copies the datagram into a slice of exactly its length, so a packet is a byte list and every
  slice expression behind its end panics.  One packet is handled at a time.
\<close>

section \<open>Packets and tasks\<close>

definition FrameHeaderLen :: nat where "FrameHeaderLen = 24"
definition DataHeaderLen :: nat where "DataHeaderLen = 12"
definition kHeartBeatSec :: byte where "kHeartBeatSec = 20"

definition CmdSyncState :: u16 where "CmdSyncState = 0x30"
definition CmdGetToken :: u16 where "CmdGetToken = 0xE0"
definition CmdRegister :: u16 where "CmdRegister = 0xE1"
definition CmdLogin :: u16 where "CmdLogin = 0xE2"
definition CmdRename :: u16 where "CmdRename = 0xE3"
definition CmdDoBind :: u16 where "CmdDoBind = 0xE4"
definition CmdHeartBeat :: u16 where "CmdHeartBeat = 0xE5"
definition CmdSubDeviceOffline :: u16 where "CmdSubDeviceOffline = 0xE6"

definition DAckOk :: u32 where "DAckOk = 0"
definition DAckHTTPError :: u32 where "DAckHTTPError = 1000"
definition DAckServerError :: u32 where "DAckServerError = 1001"

lemmas udp_consts = FrameHeaderLen_def DataHeaderLen_def kHeartBeatSec_def CmdSyncState_def CmdGetToken_def
  CmdRegister_def CmdLogin_def CmdRename_def CmdDoBind_def CmdHeartBeat_def CmdSubDeviceOffline_def
  DAckOk_def DAckHTTPError_def DAckServerError_def

record UdpMsg =
  Peer :: string
  Msg :: "byte list"
  Url :: string
  CmdType :: u16
  Input :: "(string \<times> string) list"

definition put_input :: "string \<Rightarrow> string \<Rightarrow> UdpMsg \<Rightarrow> UdpMsg" where
  "put_input k v t = t\<lparr>Input := (k, v) # filter (\<lambda>(k', _). k' \<noteq> k) (Input t)\<rparr>"

definition kApiUrls :: "string \<Rightarrow> u16 \<Rightarrow> string" where
  "kApiUrls apiServerUrl c =
     (if c = CmdRegister then apiServerUrl @ ''/api/device/register''
      else if c = CmdLogin then apiServerUrl @ ''/api/device/login''
      else if c = CmdDoBind then apiServerUrl @ ''/api/bind/in''
      else if c = CmdRename then apiServerUrl @ ''/api/device/changingname''
      else [])"

text \<open>\<^verbatim>\<open>DoHTTPTask\<close>: the body of the request lists the input in the iteration order of a Go map, unescaped.
  The result is a status and the decoded answer, or no answer when there was an error.\<close>

definition task_body :: "(string \<times> string) list \<Rightarrow> string" where
  "task_body kvs = dropWhile (\<lambda>c. c = CHR ''&'') (concat (map (\<lambda>(k, v). ''&'' @ k @ ''='' @ v) kvs))"

definition DoHTTPTask :: "'r udp_svc \<Rightarrow> UdpMsg \<Rightarrow> (('e, 'h, 'r) udp, u32 \<times> (string \<rightharpoonup> json) option) go" where
  "DoHTTPTask V t =
     go_bind (go_get trace) (\<lambda>tr.
     let req = task_body (input_order V tr (Input t))
     in go_seq (note_ev (HttpPost (Url t) req))
        (go_ret (case http_Post V tr (Url t) req of
           HttpError \<Rightarrow> (DAckServerError, None)
         | HttpReply code body \<Rightarrow>
             if code \<noteq> 200 then (DAckHTTPError, None)
             else (case body of None \<Rightarrow> (DAckHTTPError, None) | Some response \<Rightarrow> (DAckOk, Some response)))))"

text \<open>\<^verbatim>\<open>int32\<close> of a \<^verbatim>\<open>float64\<close>: truncation; out of range the result depends on the implementation.\<close>

definition float_trunc :: "int \<Rightarrow> int \<Rightarrow> int" where
  "float_trunc m e = (if 0 \<le> e then m * 2 ^ nat e else sgn m * (\<bar>m\<bar> div 2 ^ nat (- e)))"

definition float_i32 :: "'r udp_svc \<Rightarrow> int \<Rightarrow> int \<Rightarrow> u32" where
  "float_i32 V m e = (let n = float_trunc m e in
     if - (2 ^ 31) \<le> n \<and> n < 2 ^ 31 then word_of_int n else i32_overflow V n)"

section \<open>The commands\<close>

text \<open>\<^verbatim>\<open>PutUint32\<close> at the start of an answer.\<close>

definition with_status :: "byte list \<Rightarrow> u32 \<Rightarrow> byte list" where
  "with_status output st = overwrite output 0 (le_bytes 4 st)"

text \<open>The result of a command: the answer's body, nil on some errors, and the error.\<close>

type_synonym answer = "byte list option \<times> udp_error option"

text \<open>\<^verbatim>\<open>onGetToken\<close> creates a session; a failing \<^verbatim>\<open>SaveSession\<close> ends the process.\<close>

definition onGetToken :: "'r udp_svc \<Rightarrow> comet_env \<Rightarrow> UdpMsg \<Rightarrow> byte list \<Rightarrow> (('e, 'h, 'r) udp, answer) go" where
  "onGetToken V env t body =
     (if length body \<noteq> 24 then go_ret (None, Some ErrLength)
      else
        go_bind (go_get (\<lambda>s. uu_NewV4 V (trace s))) (\<lambda>sid.
        go_bind (Lock V (uu_String V sid)) (\<lambda>ok.
        if \<not> ok then go_ret (None, Some ErrLock)
        else
          go_bind (go_get (\<lambda>s. clock env (trace s))) (\<lambda>now.
          go_bind (SaveSession V sid (NewUdpSession now (Peer t))) (\<lambda>ok.
          go_bind (go_lift (if ok then Some () else None)) (\<lambda>_.
          go_seq (Unlock (uu_String V sid))
            (go_ret (Some (overwrite (with_status (replicate 28 0) 0) 4 (take 16 sid)), None))))))))"

text \<open>\<^verbatim>\<open>onRegister\<close>: the fields of the body, the request, and the answer with the id from the cookie.\<close>

definition register_name :: "byte list \<Rightarrow> byte list option" where
  "register_name body =
     (let nameLen = unat (body ! 308)
      in if nameLen = 0 then Some []
         else if 309 + nameLen \<le> length body then Some (take nameLen (drop 309 body)) else None)"

definition register_output :: "'r udp_svc \<Rightarrow> (string \<rightharpoonup> json) \<Rightarrow> byte list" where
  "register_output V rep =
     (let output = replicate 92 0;
          output = (case rep ''status'' of Some (JNum m e) \<Rightarrow> with_status output (float_i32 V m e) | _ \<Rightarrow> output)
      in case rep ''cookie'' of
           Some (JStr cookie) \<Rightarrow>
             let output = overwrite output 28 (take 64 (str_bytes cookie))
             in (case split_n 2 CHR ''|'' cookie of
                   [] \<Rightarrow> with_status output DAckServerError
                 | s # _ \<Rightarrow> (case ParseInt s of
                     (i, None) \<Rightarrow> overwrite output 20 (le_bytes 8 i)
                   | (_, Some _) \<Rightarrow> with_status output DAckServerError))
         | _ \<Rightarrow> output)"

definition onRegister :: "'r udp_svc \<Rightarrow> UdpMsg \<Rightarrow> byte list \<Rightarrow> (('e, 'h, 'r) udp, answer) go" where
  "onRegister V t body =
     (if length body < 310 then go_ret (None, Some ErrLength)
      else
        go_bind (go_lift (register_name body)) (\<lambda>name.
        let t = put_input ''mac'' (base64 (take 8 (drop 24 body))) t;
            t = put_input ''dv'' (format_nat (unat (le_word (take 2 (drop 16 body)) :: u16))) t;
            t = put_input ''pt'' (format_nat (unat (le_word (take 4 (drop 20 body)) :: u32))) t;
            t = put_input ''sn'' (hex (take 16 (drop 32 body))) t;
            t = put_input ''name'' (bytes_str name) t
        in go_bind (DoHTTPTask V t) (\<lambda>(httpStatus, rep). case rep of
             None \<Rightarrow> go_ret (Some (with_status (replicate 92 0) httpStatus), Some ErrHttp)
           | Some rep \<Rightarrow> go_ret (Some (register_output V rep), None))))"

definition trim_zeros :: "byte list \<Rightarrow> byte list" where
  "trim_zeros bs = rev (dropWhile (\<lambda>b. b = 0) (rev bs))"

text \<open>The session after a successful login: the id from the cookie, the users of the device; they are told
  that it is online and a timer is started.\<close>

definition login_session :: "'r udp_svc \<Rightarrow> string \<Rightarrow> UdpSession \<Rightarrow> (('e, 'h, 'r) udp, UdpSession) go" where
  "login_session V cookie sess =
     (let sess = (case split_n 2 CHR ''|'' cookie of
                    [] \<Rightarrow> sess
                  | s # _ \<Rightarrow> (case ParseInt s of (i, None) \<Rightarrow> sess\<lparr>DeviceId := i\<rparr> | _ \<Rightarrow> sess))
      in go_bind (from_store (GetDeviceUsers (redis_ops.truncate V) (DeviceId sess))) (\<lambda>r. case r of
           None \<Rightarrow> go_ret sess
         | Some bindedIds \<Rightarrow>
             let sess = sess\<lparr>BindedUsers := bindedIds\<rparr>
             in go_seq (on_store (\<lambda>r. ((), PushDevOnlineMsgToUsers (redis_ops.truncate V) (DeviceId sess) (BindedUsers sess) (Addr sess) r)))
               (go_seq (AfterFunc sess) (go_ret sess))))"

definition onLogin :: "'r udp_svc \<Rightarrow> UdpMsg \<Rightarrow> UdpSession \<Rightarrow> byte list \<Rightarrow> (('e, 'h, 'r) udp, answer \<times> UdpSession) go" where
  "onLogin V t sess body =
     (if length body \<noteq> 88 then go_ret ((None, Some ErrLength), sess)
      else
        let cookie = bytes_str (trim_zeros (drop 24 body));
            t = put_input ''mac'' (base64 (take 8 (drop 16 body))) t;
            t = put_input ''cookie'' cookie t
        in go_bind (DoHTTPTask V t) (\<lambda>(httpStatus, rep). case rep of
             None \<Rightarrow> go_ret ((Some (with_status (replicate 21 0) httpStatus), Some ErrHttp), sess)
           | Some rep \<Rightarrow>
               let output = (\<lambda>status. (with_status (replicate 21 0) status)[20 := kHeartBeatSec])
               in (case rep ''status'' of
                     Some (JNum m e) \<Rightarrow>
                       go_bind (if m = 0 then login_session V cookie sess else go_ret sess) (\<lambda>sess.
                       go_ret ((Some (output (float_i32 V m e)), None), sess))
                   | _ \<Rightarrow> go_ret ((Some (output DAckHTTPError), None), sess))))"

text \<open>\<^verbatim>\<open>onRename\<close> adds the length of the name to 25 as a \<^verbatim>\<open>uint8\<close>.\<close>

definition rename_name :: "byte list \<Rightarrow> byte list option" where
  "rename_name body =
     (if length body < 25 then None
      else let k = unat (25 + body ! 24)
           in if 25 \<le> k \<and> k \<le> length body then Some (take (k - 25) (drop 25 body)) else None)"

definition onRename :: "'r udp_svc \<Rightarrow> UdpMsg \<Rightarrow> byte list \<Rightarrow> (('e, 'h, 'r) udp, answer) go" where
  "onRename V t body =
     go_bind (go_lift (rename_name body)) (\<lambda>name.
     let t = put_input ''name'' (bytes_str name) t;
         t = put_input ''mac'' (base64 (take 8 (drop 16 body))) t;
         output = overwrite (replicate 28 0) 20 (take 8 (drop 16 body))
     in go_bind (DoHTTPTask V t) (\<lambda>(httpStatus, rep). case rep of
          None \<Rightarrow> go_ret (Some (with_status output httpStatus), Some ErrHttp)
        | Some rep \<Rightarrow> go_ret (Some (with_status output (case rep ''status'' of
              Some (JNum m e) \<Rightarrow> float_i32 V m e | _ \<Rightarrow> DAckHTTPError)), None)))"

definition onHearBeat :: "comet_env \<Rightarrow> UdpMsg \<Rightarrow> UdpSession \<Rightarrow> (('e, 'h, 'r) udp, answer \<times> UdpSession) go" where
  "onHearBeat env t sess = go_bind (go_get (\<lambda>s. clock env (trace s))) (\<lambda>now.
     go_ret ((Some (with_status (replicate 20 0) 0), None), UdpSession_Update now (Peer t) sess))"

definition onSubDeviceOffline :: answer where
  "onSubDeviceOffline = (None, Some ErrNotImplemented)"

section \<open>Handling a packet\<close>

text \<open>The checks of a command: packet number, message id and body.  The two checksums come before the
  comparison of the lengths; \<^term>\<open>None\<close> is a panic.\<close>

definition check_command :: "byte list \<Rightarrow> (udp_error + u16 \<times> u16 \<times> byte list) option" where
  "check_command msg =
     (if length msg < FrameHeaderLen + DataHeaderLen then Some (Inl ErrLength)
      else do {
        packNum \<leftarrow> Uint16 (drop 2 msg);
        bodyLen \<leftarrow> Uint16 (drop (FrameHeaderLen + 6) msg);
        hc \<leftarrow> ChecksumHeader msg (FrameHeaderLen + 8);
        if msg ! (FrameHeaderLen + 8) \<noteq> hc then Some (Inl ErrHeaderCheck)
        else do {
          bc \<leftarrow> ChecksumHeader (drop (FrameHeaderLen + 10) msg) (2 + unat bodyLen);
          if msg ! (FrameHeaderLen + 9) \<noteq> bc then Some (Inl ErrBodyCheck)
          else if unat bodyLen \<noteq> length (drop (FrameHeaderLen + DataHeaderLen) msg) then Some (Inl ErrBodyLen)
          else do {
            c \<leftarrow> Uint16 (drop 28 msg);
            Some (Inr (packNum, c, drop (FrameHeaderLen + DataHeaderLen) msg))
          }
        }
      })"

text \<open>The session of a packet is found, locked and checked; on success the lock stays held.\<close>

definition open_session ::
  "'r udp_svc \<Rightarrow> byte list \<Rightarrow> u16 \<Rightarrow> (('e, 'h, 'r) udp, udp_error + byte list \<times> UdpSession) go" where
  "open_session V raw packNum = (case uu_Parse V raw of
     None \<Rightarrow> go_ret (Inl ErrSid)
   | Some sid \<Rightarrow>
       go_bind (Lock V (uu_String V sid)) (\<lambda>ok.
       if \<not> ok then go_ret (Inl ErrLock)
       else go_bind (GetSession V sid) (\<lambda>r. case r of
         None \<Rightarrow> go_seq (Unlock (uu_String V sid)) (go_ret (Inl ErrStore))
       | Some sess \<Rightarrow> (case VerifySession sess packNum of
           None \<Rightarrow> go_seq (Unlock (uu_String V sid)) (go_ret (Inl ErrSessPackSeq))
         | Some sess \<Rightarrow> go_ret (Inr (sid, sess))))))"

text \<open>The commands of a session; \<^term>\<open>None\<close> for an invalid one.\<close>

definition on_command ::
  "'r udp_svc \<Rightarrow> comet_env \<Rightarrow> UdpMsg \<Rightarrow> UdpSession \<Rightarrow> u16 \<Rightarrow> byte list \<Rightarrow> (('e, 'h, 'r) udp, (answer \<times> UdpSession) option) go" where
  "on_command V env t sess c body =
     (if c = CmdRegister then go_bind (onRegister V t body) (\<lambda>a. go_ret (Some (a, sess)))
      else if c = CmdLogin then go_bind (onLogin V t sess body) (\<lambda>a. go_ret (Some a))
      else if c = CmdRename then go_bind (onRename V t body) (\<lambda>a. go_ret (Some (a, sess)))
      else if c = CmdHeartBeat then go_bind (onHearBeat env t sess) (\<lambda>a. go_ret (Some a))
      else if c = CmdSubDeviceOffline then go_ret (Some (onSubDeviceOffline, sess))
      else go_ret None)"

text \<open>The answer: the packet's headers and the result, with the flags, the length and both checksums
  set.\<close>

definition reply_packet :: "byte list \<Rightarrow> byte list \<Rightarrow> byte list option" where
  "reply_packet msg res = do {
     let output = take (FrameHeaderLen + DataHeaderLen) msg @ res;
     let output = output[FrameHeaderLen := output ! FrameHeaderLen OR (FlagAck OR FlagRead)];
     let output = overwrite output (FrameHeaderLen + 6) (le_bytes 2 (of_nat (length res) :: u16));
     hc \<leftarrow> ChecksumHeader output (FrameHeaderLen + 8);
     let output = output[FrameHeaderLen + 8 := hc];
     bc \<leftarrow> ChecksumHeader (drop (FrameHeaderLen + 10) output) (2 + length res);
     Some (output[FrameHeaderLen + 9 := bc])
   }"

definition send_reply :: "UdpMsg \<Rightarrow> byte list \<Rightarrow> (('e, 'h, 'r) udp, udp_error option) go" where
  "send_reply t res = go_bind (go_lift (reply_packet (Msg t) res)) (\<lambda>output.
     go_seq (udp_Send (Peer t) output) (go_ret None))"

text \<open>The session id is copied into the answer, \<^verbatim>\<open>res[4:20]\<close>, which panics when there is none.\<close>

definition stamp_answer :: "byte list \<Rightarrow> byte list option \<Rightarrow> byte list option" where
  "stamp_answer sid res = (case res of
     None \<Rightarrow> None
   | Some r \<Rightarrow> if 20 \<le> length r then Some (overwrite r 4 (take 16 sid)) else None)"

definition handle_command ::
  "('e, 'h) srv_ops \<Rightarrow> 'r udp_svc \<Rightarrow> comet_env \<Rightarrow> string \<Rightarrow> UdpMsg \<Rightarrow> (('e, 'h, 'r) udp, udp_error option) go" where
  "handle_command B V env apiUrl t =
     go_bind (go_lift (check_command (Msg t))) (\<lambda>chk. case chk of
       Inl e \<Rightarrow> go_ret (Some e)
     | Inr (packNum, c, body) \<Rightarrow>
         if c = CmdSyncState \<or> c = 0x31 then go_seq (Push2Bus B env 0 [] (Msg t)) (go_ret None)
         else if c = CmdGetToken then
           go_bind (onGetToken V env (t\<lparr>CmdType := c\<rparr>) body) (\<lambda>(res, err).
           send_reply t (case res of None \<Rightarrow> [] | Some r \<Rightarrow> r))
         else
           go_bind (go_lift (if 16 \<le> length body then Some (take 16 body) else None)) (\<lambda>raw.
           go_bind (open_session V raw packNum) (\<lambda>r. case r of
             Inl e \<Rightarrow> go_ret (Some e)
           | Inr (sid, sess) \<Rightarrow>
               go_bind (on_command V env (t\<lparr>CmdType := c, Url := kApiUrls apiUrl c\<rparr>) sess c body) (\<lambda>a. case a of
                 None \<Rightarrow> go_seq (Unlock (uu_String V sid)) (go_ret None)
               | Some ((res, err), sess) \<Rightarrow>
                   go_seq (SaveSession V sid sess)
                  (go_seq (Unlock (uu_String V sid))
                  (go_bind (go_lift (stamp_answer sid res)) (\<lambda>res. send_reply t res)))))))"

definition handle_forward ::
  "('e, 'h) srv_ops \<Rightarrow> 'r udp_svc \<Rightarrow> comet_env \<Rightarrow> UdpMsg \<Rightarrow> (('e, 'h, 'r) udp, udp_error option) go" where
  "handle_forward B V env t =
     (let msg = Msg t
      in if length msg < FrameHeaderLen + kSidLen + FrameHeaderLen + DataHeaderLen then go_ret (Some ErrLength)
         else
           go_bind (open_session V (take kSidLen (drop FrameHeaderLen msg)) (le_word (take 2 (drop 2 msg)))) (\<lambda>r. case r of
             Inl e \<Rightarrow> go_ret (Some e)
           | Inr (sid, sess) \<Rightarrow>
               let toId = le_word (take 8 (drop 8 msg));
                   srcId = le_word (take 8 (drop 16 msg));
                   destIds = UdpSession_CalcDestIds sess toId
               in go_seq (Unlock (uu_String V sid))
                 (go_seq (Push2Bus B env srcId destIds msg) (go_ret None))))"

definition handle ::
  "('e, 'h) srv_ops \<Rightarrow> 'r udp_svc \<Rightarrow> comet_env \<Rightarrow> string \<Rightarrow> UdpMsg \<Rightarrow> (('e, 'h, 'r) udp, udp_error option) go" where
  "handle B V env apiUrl t =
     (if length (Msg t) < FrameHeaderLen then go_ret (Some ErrLength)
      else
        let opc = 0x7 AND Msg t ! 0
        in if opc \<noteq> 2 \<and> opc \<noteq> 3 then go_ret (Some ErrOpcode)
           else if opc = 2 then handle_command B V env apiUrl t
           else handle_forward B V env t)"

text \<open>\<^verbatim>\<open>Process\<close>, run to its end; errors are only logged.\<close>

definition Process ::
  "('e, 'h) srv_ops \<Rightarrow> 'r udp_svc \<Rightarrow> comet_env \<Rightarrow> string \<Rightarrow> string \<Rightarrow> byte list \<Rightarrow> (('e, 'h, 'r) udp, unit) go" where
  "Process B V env apiUrl from_addr input =
     go_seq (handle B V env apiUrl \<lparr>Peer = from_addr, Msg = input, Url = [], CmdType = 0, Input = []\<rparr>) (go_ret ())"

text \<open>The request of the web server for a device's address.\<close>

datatype backend_reply = StatusCode nat | DeviceAddr string | NoDeviceAddr

definition OnBackendGetDeviceAddr :: "'r udp_svc \<Rightarrow> bool \<Rightarrow> string \<Rightarrow> (('e, 'h, 'r) udp, backend_reply) go" where
  "OnBackendGetDeviceAddr V is_get deviceId =
     (if \<not> is_get then go_ret (StatusCode 405)
      else case ParseInt deviceId of
        (_, Some _) \<Rightarrow> go_ret (StatusCode 404)
      | (i, None) \<Rightarrow> go_bind (GetDeviceAddr V i) (\<lambda>r. go_ret (case r of Inr a \<Rightarrow> DeviceAddr a | Inl _ \<Rightarrow> NoDeviceAddr)))"

section \<open>Well-formed packets\<close>

text \<open>A packet from its parts: frame header, flags, sequence and ids of the data header, session id and body.\<close>

definition packet :: "byte list \<Rightarrow> byte \<Rightarrow> byte list \<Rightarrow> byte list \<Rightarrow> byte list \<Rightarrow> byte list" where
  "packet h f a s body =
     (let hdr = h @ f # a @ le_bytes 2 (of_nat (length body) :: u16)
      in hdr @ [crc8 hdr, crc8 (s @ body)] @ s @ body)"

lemma Uint16_take: "2 \<le> length xs \<Longrightarrow> Uint16 xs = Some (le_word (take 2 xs))"
  by (simp add: Uint16_def Uint_def)

lemma check_packet:
  assumes "length h = 24" and "length a = 5" and "length s = 2" and "length body < 65536"
  shows "check_command (packet h f a s body) = Some (Inr (le_word (take 2 (drop 2 h)), le_word (drop 3 a), body))"
proof -
  let ?n = "le_bytes 2 (of_nat (length body) :: u16)"
  let ?p = "packet h f a s body"
  have len: "length ?p = 36 + length body" using assms by (simp add: packet_def Let_def)
  have "drop 30 ?p = ?n @ [crc8 (h @ f # a @ ?n), crc8 (s @ body)] @ s @ body"
    using assms by (simp add: packet_def Let_def drop_Cons')
  then have n: "Uint16 (drop 30 ?p) = Some (of_nat (length body))" by simp
  have u: "unat (of_nat (length body) :: u16) = length body"
    using assms(4) by (simp add: unsigned_of_nat take_bit_nat_eq_self)
  have hc: "?p ! 32 = crc8 (take 32 ?p)" and bc: "?p ! 33 = crc8 (drop 34 ?p)" and b: "drop 36 ?p = body"
    using assms by (simp_all add: packet_def Let_def nth_append nth_Cons' take_Cons' drop_Cons')
  have "take 2 (drop 2 ?p) = take 2 (drop 2 h)" using assms by (simp add: packet_def Let_def)
  then have q: "Uint16 (drop 2 ?p) = Some (le_word (take 2 (drop 2 h)))"
    using Uint16_take [of "drop 2 ?p"] len by simp
  have "take 2 (drop 28 ?p) = drop 3 a" using assms by (simp add: packet_def Let_def drop_Cons')
  then have c: "Uint16 (drop 28 ?p) = Some (le_word (drop 3 a))"
    using Uint16_take [of "drop 28 ?p"] len by simp
  show ?thesis
    by (simp add: check_command_def udp_consts len q n u c hc bc b ChecksumHeader_eq)
qed

lemma packet_parts:
  assumes "36 \<le> length msg"
  obtains h f a l s r where "msg = h @ f # a @ l @ s @ r"
    "length h = 24" "length a = 5" "length l = 4" "length s = 2"
proof
  let ?t = "drop 25 msg"
  have "take 5 ?t @ take 4 (drop 5 ?t) @ take 2 (drop 9 ?t) @ drop 11 ?t = ?t"
    using append_take_drop_id [of 5 ?t] append_take_drop_id [of 4 "drop 5 ?t"] append_take_drop_id [of 2 "drop 9 ?t"]
    by simp
  moreover have "msg = take 24 msg @ msg ! 24 # drop 25 msg"
    using assms id_take_nth_drop [of 24 msg] by simp
  ultimately show "msg = take 24 msg @ msg ! 24 # take 5 ?t @ take 4 (drop 5 ?t) @ take 2 (drop 9 ?t) @ drop 11 ?t"
    by simp
qed (use assms in simp_all)

lemma reply_packet_eq:
  assumes "length h = 24" and "length a = 5" and "length l = 4" and "length s = 2"
  shows "reply_packet (h @ f # a @ l @ s @ r) res = Some (packet h (f OR 0xC0) a s res)"
proof -
  obtain l1 l2 l3 l4 where l: "l = [l1, l2, l3, l4]"
    using assms(3) by (auto simp: length_Suc_conv numeral_eq_Suc)
  have flags: "FlagAck OR FlagRead = (0xC0 :: byte)" by (simp add: FlagAck_def FlagRead_def)
  have 1: "take 36 (h @ f # a @ l @ s @ r) = h @ f # a @ l @ s" using assms by simp
  have 2: "(h @ f # a @ l @ s @ res) ! 24 = f" using assms by (simp add: nth_append)
  define n where "n = le_bytes 2 (of_nat (length res) :: u16)"
  define hdr where "hdr = h @ (f OR 0xC0) # a @ n"
  have h32: "length hdr = 32" using assms by (simp add: hdr_def n_def)
  have 3: "overwrite (h @ (f OR 0xC0) # a @ l @ s @ res) 30 n = hdr @ l3 # l4 # s @ res"
    using assms l by (simp add: overwrite_def drop_Cons' hdr_def n_def)
  have "reply_packet (h @ f # a @ l @ s @ r) res = Some (hdr @ crc8 hdr # crc8 (s @ res) # s @ res)"
    using assms h32 by (simp add: reply_packet_def udp_consts flags Let_def 1 2 3 n_def [symmetric] ChecksumHeader_eq
        list_update_append)
  then show ?thesis by (simp add: packet_def Let_def hdr_def n_def)
qed

section \<open>Properties: packets\<close>

text \<open>C29: Every answer is a valid packet: for a packet with complete headers and any result the answer passes all checks the
  handler itself makes of a packet, with the packet number and the command of the packet it answers and the result as its
  body; the frame header is that of the packet, and the flags say that it is an acknowledgement.\<close>

theorem reply_packet_valid:
  assumes "36 \<le> length msg" and "length res < 65536"
  shows "\<exists>out. reply_packet msg res = Some out
     \<and> check_command out = Some (Inr (le_word (take 2 (drop 2 msg)), le_word (take 2 (drop 28 msg)), res))
     \<and> take 24 out = take 24 msg \<and> out ! 24 = msg ! 24 OR 0xC0"
proof -
  obtain h f a l s r where msg: "msg = h @ f # a @ l @ s @ r"
    and len: "length h = 24" "length a = 5" "length l = 4" "length s = 2"
    using packet_parts [OF assms(1)] .
  have "take 2 (drop 2 msg) = take 2 (drop 2 h)" "take 2 (drop 28 msg) = drop 3 a"
    using msg len by (simp_all add: drop_Cons')
  moreover have "take 24 (packet h (f OR 0xC0) a s res) = h" "packet h (f OR 0xC0) a s res ! 24 = f OR 0xC0"
    using len by (simp_all add: packet_def Let_def nth_append)
  moreover have "take 24 msg = h" "msg ! 24 = f" using msg len by (simp_all add: nth_append)
  ultimately show ?thesis
    using reply_packet_eq [OF len, of f r res, folded msg] check_packet [OF len(1,2,4) assms(2)] by simp
qed

theorem reply_packet_valid_witness:
  "\<exists>out. reply_packet (replicate 36 1) [5, 6] = Some out \<and> check_command out = Some (Inr (0x101, 0x101, [5, 6]))"
proof -
  have "le_word (take 2 (replicate 36 1)) = (0x101 :: u16)" "le_word (take 2 (drop 28 (replicate 36 1))) = (0x101 :: u16)"
    "take 2 (drop 2 (replicate 36 (1 :: byte))) = take 2 (replicate 36 1)"
    by (simp_all add: numeral_eq_Suc)
  then show ?thesis using reply_packet_valid [of "replicate 36 1" "[5, 6]"] by auto
qed

text \<open>A command that the codec of the messages builds is understood by the packet handler: the checks
  of the marshalled bytes of every message without forward header succeed and give back its sequence number, its message
  id and its data.\<close>

theorem check_command_MarshalBytes:
  assumes "ForwardHeader a = None" and "Guid (FrameHdr a) = []" and "length (Data a) < 65536"
    and "MarshalBytes now a = Some (a', m)"
  shows "check_command m = Some (Inr (Sequence (FrameHdr a), MsgId (DataHdr a), Data a))"
proof -
  have m: "m = wire now a" using assms(4) by (simp add: MarshalBytes_wire)
  note w = wire_plain [OF assms(1,2), of now]
  have u: "unat (of_nat (length (Data a)) :: u16) = length (Data a)"
    using assms(3) by (simp add: unsigned_of_nat take_bit_nat_eq_self)
  have q: "Uint16 (drop 2 (wire now a)) = Some (Sequence (FrameHdr a))"
    using assms(1,2) by (simp add: wire_def Let_def FrameHeader_layout)
  show ?thesis
    by (simp add: check_command_def udp_consts m w u q ChecksumHeader_eq)
qed

theorem check_command_MarshalBytes_witness:
  "check_command (wire 9 (common_msg 9 0xE5 (replicate 16 7))) = Some (Inr (0, 0xE5, replicate 16 7))"
  using check_command_MarshalBytes [where a = "common_msg 9 0xE5 (replicate 16 7)" and now = 9]
  by (simp add: MarshalBytes_wire common_msg_def NewMsg_def NewFrameHeader_def zeroDataHeader_def Let_def)

text \<open>A length field that is too large ends the process: the body's checksum is computed before the lengths are compared,
  so a packet with a correct header checksum whose length field exceeds its body crashes the comet.  No session is needed
  for that.\<close>

theorem handle_length_panics:
  assumes "36 \<le> length m" and "m ! 0 AND 7 = 2" and "ChecksumHeader m 32 = Some (m ! 32)"
    and "Uint16 (drop 30 m) = Some n" and "length m < 36 + unat n"
  shows "fst (handle B V env apiUrl \<lparr>Peer = a, Msg = m, Url = u, CmdType = c, Input = ins\<rparr> st) = Panic"
proof -
  have "check_command m = None"
    using assms Uint16_take [of "drop 2 m"]
    by (simp add: check_command_def udp_consts ChecksumHeader_eq bind_eq_None_conv)
  then show ?thesis
    using assms(1,2) by (simp add: handle_def udp_consts handle_command_def go_monad and.commute)
qed

theorem handle_length_panics_witness:
  "fst (handle (plain_hlist True) plain_svc sample_cenv []
     \<lparr>Peer = [], Msg = 2 # replicate 29 0 @ [1, 0] @ [crc8 (2 # replicate 29 0 @ [1, 0]), 0, 0, 0], Url = [], CmdType = 0, Input = []\<rparr> sample_udp) = Panic"
proof (rule handle_length_panics)
  let ?m = "2 # replicate 29 0 @ [1, 0] @ [crc8 (2 # replicate 29 0 @ [1, 0]), 0, 0, 0]"
  show "ChecksumHeader ?m 32 = Some (?m ! 32)"
    by (simp add: ChecksumHeader_eq numeral_eq_Suc)
  show "Uint16 (drop 30 ?m) = Some 1" by (simp add: Uint16_def Uint_def numeral_eq_Suc)
qed simp_all

end
