(* ===== verification/Client.thy ===== *)
theory Client
  imports UdpSession
begin

text \<open>
  What a comet does with messages from outside: the frames of a bus (\<^verbatim>\<open>comet/client.go\<close>, the receiving half
  of \<^verbatim>\<open>comet/msgbus.go\<close>) and the messages it has subscribed to in redis (\<^verbatim>\<open>comet/redis.go\<close>).  A comet is
  of one of two types, which keep different states, so each handler has a version for websocket
  comets and one for UDP comets.  Goroutines started for a message are run to their end at once.
\<close>

section \<open>Frames from a bus\<close>

text \<open>\<^verbatim>\<open>HandleMsg\<close>: the ids are read one after the other, with 16-bit offsets, each before its push.  The result
  is the content of the receive buffer afterwards.\<close>

definition split_msg :: "slice \<Rightarrow> (u16 \<times> slice \<times> slice) option" where
  "split_msg msg = do {
     _ \<leftarrow> (if sl_len msg < 2 then None else Some ());
     h \<leftarrow> sl_range msg 0 2;
     size \<leftarrow> Uint16 (sl_bytes h);
     msg \<leftarrow> sl_from msg 2;
     data \<leftarrow> sl_from msg (unat (size * 8));
     Some (size, msg, data)
   }"

definition HandleMsg_ws :: "('f, 'g) sess_ops \<Rightarrow> comet_env \<Rightarrow> slice \<Rightarrow> (('e, 'h, 'g) comet, byte list) go" where
  "HandleMsg_ws K env buf =
     go_seq (if sl_len buf < 2 then go_lift None else note_ev (CStatInc CDownStreamIn))
    (go_bind (go_lift (split_msg buf)) (\<lambda>(size, msg, data).
     go_seq (go_each (\<lambda>i. go_bind (go_lift (get_id16 msg i)) (\<lambda>uid. SessionList_PushMsg K env uid data)) [0..<unat size])
       (go_ret (arr buf))))"

text \<open>The UDP sessions write into the message, which is the rest of the buffer.\<close>

fun push_ids_udp :: "'r udp_svc \<Rightarrow> nat \<Rightarrow> nat list \<Rightarrow> slice \<Rightarrow> (('e, 'h, 'r) udp, slice) go" where
  "push_ids_udp V off [] msg = go_ret msg"
| "push_ids_udp V off (i # is) msg =
     go_bind (go_lift (get_id16 msg i)) (\<lambda>did.
     go_bind (go_lift (sl_from msg off)) (\<lambda>data.
     go_bind (udp_PushMsg V did data) (\<lambda>(err, data).
     push_ids_udp V off is (msg\<lparr>arr := take off (arr msg) @ arr data\<rparr>))))"

definition HandleMsg_udp :: "'r udp_svc \<Rightarrow> slice \<Rightarrow> (('e, 'h, 'r) udp, byte list) go" where
  "HandleMsg_udp V buf =
     go_seq (if sl_len buf < 2 then go_lift None else note_ev (CStatInc CDownStreamIn))
    (go_bind (go_lift (split_msg buf)) (\<lambda>(size, msg, data).
     go_bind (push_ids_udp V (unat (size * 8)) [0..<unat size] msg) (\<lambda>msg.
     go_ret (take 2 (arr buf) @ arr msg))))"

text \<open>\<^verbatim>\<open>Reciver\<close>: the loop over the frames of a connection, given as all bytes received before it is closed; frames of more than
  \<open>PAYLOAD_MAX\<close> bytes are skipped.  \<open>handler\<close> is \<^verbatim>\<open>HandleMsg\<close> of the comet's type.\<close>

definition PAYLOAD_MAX :: nat where "PAYLOAD_MAX = 1024"

function reciver_loop :: "(slice \<Rightarrow> ('s, byte list) go) \<Rightarrow> byte list \<Rightarrow> byte list \<Rightarrow> ('s, unit) go" where
  "reciver_loop handler buf input =
     (if length input < 4 then go_ret ()
      else
        let size = frame_size input; input = drop 4 input
        in if PAYLOAD_MAX < size then
             (if length input < size then go_ret () else reciver_loop handler buf (drop size input))
           else if length input < size then go_ret ()
           else go_bind (handler (mk_slice (take size input) (drop size buf))) (\<lambda>buf.
                reciver_loop handler buf (drop size input)))"
  by pat_completeness auto

termination
  by (relation "measure (\<lambda>(handler, buf, input). length input)") auto

declare reciver_loop.simps [simp del]

definition Reciver ::
  "('e, 'h) srv_ops \<Rightarrow> (slice \<Rightarrow> (('e, 'h, 'a) busman_scheme, byte list) go) \<Rightarrow> nat \<Rightarrow> bus_conn \<Rightarrow> byte list \<Rightarrow> (('e, 'h, 'a) busman_scheme, unit) go" where
  "Reciver B handler p c input =
     go_seq (reciver_loop handler (replicate PAYLOAD_MAX 0) input)
    (go_seq (onMsgBusCloseEvent B p) (note_ev (BusClose c)))"

section \<open>Messages from redis\<close>

text \<open>\<^verbatim>\<open>ParseInt(s, 10, 32)\<close>, and \<^verbatim>\<open>ParseUint(s, 0, 16)\<close>, whose base comes from the prefix.\<close>

definition ParseInt32 :: "string \<Rightarrow> i64 option" where
  "ParseInt32 s = (case ParseInt s of
     (v, None) \<Rightarrow> if - (2 ^ 31) \<le> sint v \<and> sint v < 2 ^ 31 then Some v else None
   | _ \<Rightarrow> None)"

definition digit36 :: "char \<Rightarrow> nat option" where
  "digit36 c = (let n = of_char c :: nat in
     if 48 \<le> n \<and> n \<le> 57 then Some (n - 48)
     else if 97 \<le> n \<and> n \<le> 122 then Some (n - 87)
     else if 65 \<le> n \<and> n \<le> 90 then Some (n - 55) else None)"

fun parse_base :: "nat \<Rightarrow> string \<Rightarrow> nat \<Rightarrow> nat option" where
  "parse_base base [] n = Some n"
| "parse_base base (c # cs) n = (case digit36 c of
     None \<Rightarrow> None
   | Some d \<Rightarrow> if d < base \<and> n * base + d < 2 ^ 16 then parse_base base cs (n * base + d) else None)"

definition ParseUint16 :: "string \<Rightarrow> nat option" where
  "ParseUint16 s =
     (if s = [] then None
      else if hd s = CHR ''0'' \<and> 1 < length s \<and> (s ! 1 = CHR ''x'' \<or> s ! 1 = CHR ''X'')
        then if length s = 2 then None else parse_base 16 (drop 2 s) 0
      else if hd s = CHR ''0'' then parse_base 8 s 0
      else parse_base 10 s 0)"

text \<open>\<^verbatim>\<open>HandleDeviceUsers\<close>: a device was bound to a user or unbound; \<^term>\<open>None\<close> for a message that is
  dropped.\<close>

definition device_users :: "string \<Rightarrow> (i64 \<times> i64 \<times> bool) option" where
  "device_users buf = (case split_n 3 CHR ''|'' buf of
     [a, b, c] \<Rightarrow>
       (case ParseInt a of
          (deviceId, None) \<Rightarrow>
            (case ParseInt b of
               (userId, None) \<Rightarrow> map_option (\<lambda>t. (deviceId, userId, t \<noteq> 0)) (ParseInt32 c)
             | _ \<Rightarrow> None)
        | _ \<Rightarrow> None)
   | _ \<Rightarrow> None)"

definition HandleDeviceUsers ::
  "('e, 'h) srv_ops \<Rightarrow> 'r udp_svc \<Rightarrow> comet_env \<Rightarrow> string option \<Rightarrow> (('e, 'h, 'r) udp, unit) go" where
  "HandleDeviceUsers B V env buf = (case buf of
     None \<Rightarrow> go_ret ()
   | Some b \<Rightarrow> (case device_users b of
       None \<Rightarrow> go_ret ()
     | Some (deviceId, userId, t) \<Rightarrow> udp_UpdateIds B V env deviceId userId t))"

definition HandleModifiedPasswd :: "('f, 'g) sess_ops \<Rightarrow> comet_env \<Rightarrow> string option \<Rightarrow> (('e, 'h, 'g) comet, unit) go" where
  "HandleModifiedPasswd K env buf = (case buf of
     None \<Rightarrow> go_ret ()
   | Some b \<Rightarrow> (case ParseInt b of
       (userId, None) \<Rightarrow> KickOffline K env userId
     | _ \<Rightarrow> go_ret ()))"

text \<open>\<^verbatim>\<open>HandleCommonMsg\<close>: the message id is in the name of the channel.\<close>

definition SubCommonMsgKeyPrefix :: string where "SubCommonMsgKeyPrefix = ''PubCommonMsg:''"

definition TrimPrefix :: "string \<Rightarrow> string \<Rightarrow> string" where
  "TrimPrefix s p = (if has_prefix p s then drop (length p) s else s)"

definition common_fields :: "string \<Rightarrow> string \<Rightarrow> (u16 \<times> i64 list \<times> byte list) option" where
  "common_fields channel data =
     (let msgid = TrimPrefix channel SubCommonMsgKeyPrefix
      in if msgid = [] then None
         else (case ParseUint16 msgid of
           None \<Rightarrow> None
         | Some mid \<Rightarrow> (case split_n 2 CHR ''|'' data of
             [ids, body] \<Rightarrow> Some (of_nat mid, parse_all (split_on CHR '','' ids), str_bytes body)
           | _ \<Rightarrow> None)))"

definition PushMsg_ws :: "('f, 'g) sess_ops \<Rightarrow> comet_env \<Rightarrow> u16 \<Rightarrow> i64 list \<Rightarrow> byte list \<Rightarrow> (('e, 'h, 'g) comet, unit) go" where
  "PushMsg_ws K env msgId dstIds msgBody = go_each (\<lambda>i. PushCommonMsg K env msgId i msgBody) dstIds"

definition PushMsg_udp :: "'r udp_svc \<Rightarrow> comet_env \<Rightarrow> u16 \<Rightarrow> i64 list \<Rightarrow> byte list \<Rightarrow> (('e, 'h, 'r) udp, unit) go" where
  "PushMsg_udp V env msgId dstIds msgBody =
     go_each (\<lambda>i. go_seq (udp_PushCommonMsg V env msgId i msgBody) (go_ret ())) dstIds"

definition HandleCommonMsg_ws :: "('f, 'g) sess_ops \<Rightarrow> comet_env \<Rightarrow> string \<Rightarrow> string \<Rightarrow> (('e, 'h, 'g) comet, unit) go" where
  "HandleCommonMsg_ws K env channel data = (case common_fields channel data of
     None \<Rightarrow> go_ret () | Some (mid, dstIds, msgBody) \<Rightarrow> PushMsg_ws K env mid dstIds msgBody)"

definition HandleCommonMsg_udp :: "'r udp_svc \<Rightarrow> comet_env \<Rightarrow> string \<Rightarrow> string \<Rightarrow> (('e, 'h, 'r) udp, unit) go" where
  "HandleCommonMsg_udp V env channel data = (case common_fields channel data of
     None \<Rightarrow> go_ret () | Some (mid, dstIds, msgBody) \<Rightarrow> PushMsg_udp V env mid dstIds msgBody)"

section \<open>Reading a frame\<close>

lemma split_msg_frame:
  assumes "8 * length ids < 2 ^ 16"
  shows "split_msg (mk_slice (id_frame ids data) stale) =
    Some (of_nat (length ids), mk_slice (ids_bytes ids @ data) stale, mk_slice data stale)"
proof -
  have "unat (of_nat (length ids) * 8 :: u16) = 8 * length ids"
    using unat_u16_exact [of 0 "length ids" 0] assms by simp
  moreover have "sl_len (mk_slice (id_frame ids data) stale) = 2 + 8 * length ids + length data"
    by (simp add: mk_slice_def)
  ultimately show ?thesis
    by (simp add: split_msg_def) (simp add: id_frame_def)
qed

text \<open>What a websocket comet does with a frame: the message goes to every session of every id, in the
  order of the ids.\<close>

definition frame_events :: "('f, 'g) sess_ops \<Rightarrow> ('e, 'h, 'g) comet \<Rightarrow> i64 list \<Rightarrow> byte list \<Rightarrow> comet_event list" where
  "frame_events K s ids data = CStatInc CDownStreamIn #
     concat (map (\<lambda>uid. concat (map (\<lambda>a. [WsSend (conn_of s a) data, CStatInc CDownStreamOut]) (sess_list K s uid))) ids)"

lemma frame_events_trace [simp]: "frame_events K (s\<lparr>trace := t\<rparr>) = frame_events K s"
  by (simp add: fun_eq_iff frame_events_def conn_of_def)

lemma HandleMsg_ws_frame:
  assumes "8 * length ids < 2 ^ 16" and "3 \<le> length data + length stale"
    and "\<forall>uid \<in> set ids. sess_up env s (sess_list K s uid)"
  shows "HandleMsg_ws K env (mk_slice (id_frame ids data) stale) s =
    (Ret (id_frame ids data @ stale), s\<lparr>trace := trace s @ frame_events K s ids data\<rparr>)"
proof -
  let ?m = "mk_slice (ids_bytes ids @ data) stale" and ?d = "mk_slice data stale"
  let ?f = "\<lambda>i. go_bind (go_lift (get_id16 ?m i)) (\<lambda>uid. SessionList_PushMsg K env uid ?d)"
  let ?g = "\<lambda>uid. concat (map (\<lambda>a. [WsSend (conn_of s a) data, CStatInc CDownStreamOut]) (sess_list K s uid))"
  have n: "unat (of_nat (length ids) :: u16) = length ids" using assms(1) by simp
  have len: "3 \<le> length (arr ?d)" using assms(2) by (simp add: mk_slice_def)
  have "?f i (s\<lparr>trace := t\<rparr>) = (Ret (), s\<lparr>trace := t @ ?g (ids ! i)\<rparr>)" if "i \<in> set [0..<length ids]" for i t
    using that SessionList_PushMsg_events [OF _ len, of env s K "ids ! i" t] assms(3) get_id16_exact [of i ids data stale] assms(1)
    by (simp add: go_monad)
  then have "go_each ?f [0..<length ids] (s\<lparr>trace := t\<rparr>) = (Ret (), s\<lparr>trace := t @ concat (map (\<lambda>i. ?g (ids ! i)) [0..<length ids])\<rparr>)" for t
    using go_each_events [of "[0..<length ids]" ?f "s\<lparr>trace := t\<rparr>" "\<lambda>i. ?g (ids ! i)"] by simp
  moreover have "map (\<lambda>i. ?g (ids ! i)) [0..<length ids] = map ?g ids"
    by (rule nth_equalityI) simp_all
  moreover have "2 \<le> sl_len (mk_slice (id_frame ids data) stale)"
    by (simp add: mk_slice_def)
  ultimately show ?thesis
    by (simp add: HandleMsg_ws_def go_seq_def go_bind_def go_ret_def go_lift_def split_msg_frame [OF assms(1)] n frame_events_def)
       (simp add: mk_slice_def)
qed

section \<open>The receive loop\<close>

lemma reciver_loop_skip:
  assumes "length msg < 2 ^ 32" and "PAYLOAD_MAX < length msg"
  shows "reciver_loop h buf (framed msg @ rest) = reciver_loop h buf rest"
  using assms drop_4_framed [of msg rest] by (subst reciver_loop.simps) (simp add: le_word_4_framed)

lemma reciver_loop_handle:
  assumes "length msg \<le> PAYLOAD_MAX"
  shows "reciver_loop h buf (framed msg @ rest) =
    go_bind (h (mk_slice msg (drop (length msg) buf))) (\<lambda>buf. reciver_loop h buf rest)"
  using assms drop_4_framed [of msg rest]
  by (subst reciver_loop.simps) (simp add: le_word_4_framed PAYLOAD_MAX_def)

text \<open>A frame that fits the comet's buffer.\<close>

definition fits_comet :: "i64 list \<times> byte list \<Rightarrow> bool" where
  "fits_comet m \<longleftrightarrow> (case m of (ids, data) \<Rightarrow> length (id_frame ids data) \<le> PAYLOAD_MAX)"

lemma reciver_loop_ws_frames:
  assumes "\<forall>(ids, data) \<in> set ms. length (id_frame ids data) < 2 ^ 32 \<and> (\<forall>uid \<in> set ids. sess_up env s (sess_list K s uid))"
    and "length tail < 4" and "length buf = PAYLOAD_MAX"
  shows "reciver_loop (HandleMsg_ws K env) buf (concat (map (\<lambda>(ids, data). framed (id_frame ids data)) ms) @ tail) (s\<lparr>trace := t\<rparr>) =
    (Ret (), s\<lparr>trace := t @ concat (map (\<lambda>(ids, data). frame_events K s ids data) (filter fits_comet ms))\<rparr>)"
  using assms(1,3)
proof (induction ms arbitrary: buf t)
  case Nil
  then show ?case using assms(2) by (simp add: reciver_loop.simps go_monad)
next
  case (Cons m ms)
  obtain ids data where m: "m = (ids, data)" by fastforce
  let ?f = "id_frame ids data" and ?rest = "concat (map (\<lambda>(ids, data). framed (id_frame ids data)) ms) @ tail"
  show ?case
  proof (cases "length ?f \<le> PAYLOAD_MAX")
    case False
    then have "\<not> fits_comet m" "reciver_loop (HandleMsg_ws K env) buf (framed ?f @ ?rest) (s\<lparr>trace := t\<rparr>) = reciver_loop (HandleMsg_ws K env) buf ?rest (s\<lparr>trace := t\<rparr>)"
      using Cons.prems(1) m by (simp_all add: fits_comet_def reciver_loop_skip del: length_id_frame)
    then show ?thesis
      using Cons.IH [OF _ Cons.prems(2), of t] Cons.prems(1) m by simp
  next
    case True
    let ?st = "drop (length ?f) buf"
    have len: "8 * length ids < 2 ^ 16" "3 \<le> length data + length ?st" "length (?f @ ?st) = PAYLOAD_MAX"
      using True Cons.prems(2) by (simp_all add: PAYLOAD_MAX_def) presburger
    have up: "\<forall>uid \<in> set ids. sess_up env (s\<lparr>trace := t\<rparr>) (sess_list K (s\<lparr>trace := t\<rparr>) uid)"
      using Cons.prems(1) m by (simp add: sess_up_def)
    have "reciver_loop (HandleMsg_ws K env) buf (framed ?f @ ?rest) (s\<lparr>trace := t\<rparr>) =
        reciver_loop (HandleMsg_ws K env) (?f @ ?st) ?rest (s\<lparr>trace := t @ frame_events K s ids data\<rparr>)"
      using HandleMsg_ws_frame [OF len(1,2) up] by (simp add: reciver_loop_handle [OF True] go_bind_Ret)
    moreover have "fits_comet m" using m True by (simp add: fits_comet_def)
    ultimately show ?thesis
      using Cons.IH [OF _ len(3), of "t @ frame_events K s ids data"] Cons.prems(1) m by simp
  qed
qed

section \<open>Properties: frames from a bus\<close>

text \<open>C11: A websocket comet delivers what a bus sends it: from a connection that received a sequence of frames, each frame of at most 1024 bytes
  is handled in order by sending its message, unchanged, once to every session of each of its ids, and nothing is sent otherwise; longer frames, which a bus
  forwards up to 32 KiB, are skipped; the loop ends with the input.\<close>

theorem Reciver_delivers:
  assumes "\<forall>(ids, data) \<in> set ms. length (id_frame ids data) < 2 ^ 32 \<and> (\<forall>uid \<in> set ids. sess_up env s (sess_list K s uid))"
    and "length tail < 4"
  shows "reciver_loop (HandleMsg_ws K env) (replicate PAYLOAD_MAX 0) (concat (map (\<lambda>(ids, data). framed (id_frame ids data)) ms) @ tail) s =
    (Ret (), s\<lparr>trace := trace s @ concat (map (\<lambda>(ids, data). frame_events K s ids data)
      (filter (\<lambda>(ids, data). length (id_frame ids data) \<le> 1024) ms))\<rparr>)"
proof -
  have "fits_comet = (\<lambda>(ids, data). length (id_frame ids data) \<le> 1024)"
    by (simp add: fits_comet_def PAYLOAD_MAX_def fun_eq_iff)
  then show ?thesis
    using reciver_loop_ws_frames [OF assms, of "replicate PAYLOAD_MAX 0" "trace s"] by simp
qed

theorem Reciver_delivers_witness:
  "trace (snd (reciver_loop (HandleMsg_ws (plain_hlist True) sample_cenv) (replicate PAYLOAD_MAX 0)
      (framed (id_frame [17, 18] [5]) @ framed (id_frame [17] (replicate 1100 0))) sample_comet))
   = trace sample_comet @ [CStatInc CDownStreamIn, WsSend 3 [5], CStatInc CDownStreamOut]"
proof -
  have up: "sess_up sample_cenv sample_comet (sess_list (plain_hlist True) sample_comet u)" for u
    using sample_comet_facts(1,2) sample_comet_facts(3) [of u]
    by (cases "u = 17") (simp_all add: sess_up_def sample_cenv_def sample_session_def)
  have "conn_of sample_comet 0 = 3" using sample_comet_facts(1) by (simp add: conn_of_def sample_session_def)
  then show ?thesis
    using Reciver_delivers [of "[([17, 18], [5]), ([17], replicate 1100 0)]" sample_cenv sample_comet "plain_hlist True" "[]"]
      up sample_comet_facts(2) sample_comet_facts(3) [of 18]
    by (simp add: frame_events_def)
qed

text \<open>Stamping a message for a second device leaves nothing of the first.\<close>

lemma stamped_again:
  assumes "40 \<le> length bs" and "length i = 16"
  shows "length (stamped q i bs) = length bs" and "stamped q' j (stamped q i bs) = stamped q' j bs"
  using assms by (simp_all add: stamped_def)

lemma push_ids_udp_all:
  assumes V: "udp_store V" and up: "\<And>r. rd_up (redis_ops.truncate V) r" and lock: "\<And>tr sid. lock_ok V tr sid"
    and ids: "8 * length ids < 2 ^ 16" and len: "40 \<le> length bs"
    and idx: "set ks \<subseteq> {..<length ids}" "distinct (map ((!) ids) ks)"
    and st: "\<forall>k \<in> set ks. stored V (store st) (ids ! k) (fst (sess (ids ! k))) (snd (sess (ids ! k)))"
      "inj_on (fst \<circ> sess) ((!) ids ` set ks)" "held st = []"
  shows "\<exists>st' bs'. push_ids_udp V (8 * length ids) ks (mk_slice (ids_bytes ids @ bs) stale) st = (Ret (mk_slice (ids_bytes ids @ bs') stale), st')
    \<and> trace st' = trace st @ map (\<lambda>k. let (i, s) = sess (ids ! k) in UdpSend (Addr s) (stamped (Sidx s + 1) i bs)) ks \<and> held st' = []
    \<and> length bs' = length bs"
  using len idx st
proof (induction ks arbitrary: st bs)
  case Nil
  then show ?case by (auto simp: go_monad)
next
  case (Cons k ks)
  obtain i s where eq: "sess (ids ! k) = (i, s)" by fastforce
  have k: "k < length ids" and stored: "stored V (store st) (ids ! k) i s" using Cons.prems eq by auto
  have i: "length i = 16" using stored by (simp add: stored_def)
  let ?b = "stamped (Sidx s + 1) i bs"
  obtain st1 where 1: "udp_PushMsg V (ids ! k) (mk_slice bs stale) st = (Ret (None, mk_slice ?b stale), st1)"
    "\<forall>did' i' s'. did' \<noteq> ids ! k \<longrightarrow> i' \<noteq> i \<longrightarrow> stored V (store st) did' i' s' \<longrightarrow> stored V (store st1) did' i' s'"
    "trace st1 = trace st @ [UdpSend (Addr s) ?b]" "held st1 = []"
    using udp_store.udp_PushMsg_one [OF V up stored _ lock Cons.prems(1), of stale] Cons.prems(6) by auto
  have others: "ids ! k' \<noteq> ids ! k \<and> fst (sess (ids ! k')) \<noteq> i" if "k' \<in> set ks" for k'
  proof -
    have "ids ! k' \<noteq> ids ! k" using Cons.prems(3) that by (auto simp: image_iff)
    moreover from this have "(fst \<circ> sess) (ids ! k') \<noteq> (fst \<circ> sess) (ids ! k)"
      using inj_onD [OF Cons.prems(5), of "ids ! k'" "ids ! k"] that by auto
    ultimately show ?thesis using eq by simp
  qed
  then have st1: "\<forall>k \<in> set ks. stored V (store st1) (ids ! k) (fst (sess (ids ! k))) (snd (sess (ids ! k)))"
    using 1(2) Cons.prems(4) by auto
  have inj: "inj_on (fst \<circ> sess) ((!) ids ` set ks)"
    by (rule inj_on_subset [OF Cons.prems(5)]) auto
  obtain st' bs' where 2: "push_ids_udp V (8 * length ids) ks (mk_slice (ids_bytes ids @ ?b) stale) st1 = (Ret (mk_slice (ids_bytes ids @ bs') stale), st')"
    "trace st' = trace st1 @ map (\<lambda>k. let (i, s) = sess (ids ! k) in UdpSend (Addr s) (stamped (Sidx s + 1) i ?b)) ks"
    "held st' = []" "length bs' = length ?b"
    using Cons.IH [OF _ _ _ st1 inj 1(4), of ?b] Cons.prems stamped_again(1) [OF Cons.prems(1) i] by auto
  have "get_id16 (mk_slice (ids_bytes ids @ bs) stale) k = Some (ids ! k)" by (rule get_id16_exact [OF k ids])
  moreover have "sl_from (mk_slice (ids_bytes ids @ bs) stale) (8 * length ids) = Some (mk_slice bs stale)" by simp
  moreover have "(mk_slice (ids_bytes ids @ bs) stale)\<lparr>arr := take (8 * length ids) (arr (mk_slice (ids_bytes ids @ bs) stale)) @ arr (mk_slice ?b stale)\<rparr>
      = mk_slice (ids_bytes ids @ ?b) stale"
    using stamped_again(1) [OF Cons.prems(1) i, of "Sidx s + 1"] by (simp add: mk_slice_def)
  ultimately show ?case
    using 1 2 eq stamped_again [OF Cons.prems(1) i] by (auto simp: go_bind_Ret go_lift_def)
qed

text \<open>C26: A UDP comet delivers what a bus sends it: a frame for several devices that all have a session is sent to the address of each of them once, in the
  order of the ids, with the device's next sequence number and its session id put into the message, whatever was put there for the devices
  before it; afterwards no session is locked.\<close>

theorem HandleMsg_udp_delivers:
  assumes "udp_store V" and "\<And>r. rd_up (redis_ops.truncate V) r" and "\<And>tr sid. lock_ok V tr sid"
    and ids: "8 * length ids < 2 ^ 16" and "40 \<le> length bs" and "distinct ids" and "held st = []"
    and "\<forall>did \<in> set ids. stored V (store st) did (fst (sess did)) (snd (sess did))" and "inj_on (fst \<circ> sess) (set ids)"
  shows "\<exists>st' buf. HandleMsg_udp V (mk_slice (id_frame ids bs) stale) st = (Ret buf, st') \<and> held st' = []
    \<and> trace st' = trace st @ CStatInc CDownStreamIn # map (\<lambda>did. let (i, s) = sess did in UdpSend (Addr s) (stamped (Sidx s + 1) i bs)) ids"
proof -
  let ?st = "st\<lparr>trace := trace st @ [CStatInc CDownStreamIn]\<rparr>"
  have n: "unat (of_nat (length ids) :: u16) = length ids" "unat (of_nat (length ids) * 8 :: u16) = 8 * length ids"
    using ids unat_u16_exact [of 0 "length ids" 0] by simp_all
  have set: "map ((!) ids) [0..<length ids] = ids" by (rule map_nth)
  then have im: "(!) ids ` set [0..<length ids] = set ids" by (metis image_set)
  have sub: "set [0..<length ids] \<subseteq> {..<length ids}" by auto
  obtain st' bs' where run: "push_ids_udp V (8 * length ids) [0..<length ids] (mk_slice (ids_bytes ids @ bs) stale) ?st
      = (Ret (mk_slice (ids_bytes ids @ bs') stale), st')"
    and tr: "trace st' = trace ?st @ map (\<lambda>k. let (i, s) = sess (ids ! k) in UdpSend (Addr s) (stamped (Sidx s + 1) i bs)) [0..<length ids]"
    and "held st' = []"
    using push_ids_udp_all [OF assms(1-5) sub, where st = ?st and sess = sess and stale = stale] assms(6-9) set im
    by auto
  moreover have "map (\<lambda>k. let (i, s) = sess (ids ! k) in UdpSend (Addr s) (stamped (Sidx s + 1) i bs)) [0..<length ids]
      = map (\<lambda>did. let (i, s) = sess did in UdpSend (Addr s) (stamped (Sidx s + 1) i bs)) ids"
    by (rule nth_equalityI) simp_all
  moreover have "\<not> sl_len (mk_slice (id_frame ids bs) stale) < 2" by (simp add: mk_slice_def)
  ultimately show ?thesis
    by (simp add: HandleMsg_udp_def go_seq_def go_bind_Ret go_lift_def split_msg_frame [OF ids] n go_ret_def)
qed

theorem HandleMsg_udp_delivers_witness:
  "\<exists>st' buf. HandleMsg_udp plain_svc (mk_slice (id_frame [- 9] (replicate 40 1)) []) sample_udp = (Ret buf, st')
    \<and> trace st' = [CStatInc CDownStreamIn, UdpSend ''1.2.3.4:5'' (stamped 0 (replicate 16 7) (replicate 40 1))]"
proof -
  have wrap: "(65536 :: u16) = 0" by simp
  show ?thesis
    using HandleMsg_udp_delivers [OF ps.udp_store_axioms, where ids = "[- 9]" and bs = "replicate 40 1" and st = sample_udp
        and sess = "\<lambda>_. (replicate 16 7, sample_sess)" and stale = "[]"]
    by (auto simp: sample_udp_rest sample_udp_stored) (auto simp: sample_sess_def wrap)
qed

section \<open>Properties: messages from redis\<close>

lemma split_n_2: "c \<notin> set s \<Longrightarrow> split_n 2 c (s @ c # t) = [s, t]"
proof -
  assume "c \<notin> set s"
  then have "takeWhile (\<lambda>x. x \<noteq> c) (s @ c # t) = s" "dropWhile (\<lambda>x. x \<noteq> c) (s @ c # t) = c # t"
    by (induction s) auto
  then show ?thesis by (simp add: numeral_2_eq_2)
qed

lemma parse_all_join: "parse_all (split_on CHR '','' (join_comma (map FormatInt us))) = us"
proof (induction us rule: induct_list012)
  case 1
  show ?case by (simp add: parse_all_def ParseInt_def ParseUint_def)
next
  case (2 u)
  have "CHR '','' \<notin> set (FormatInt u)" by (rule FormatInt_no_char) simp_all
  then show ?case by (simp add: split_on_none parse_all_def)
next
  case (3 u v us)
  have "CHR '','' \<notin> set (FormatInt u)" by (rule FormatInt_no_char) simp_all
  then have "split_on CHR '','' (join_comma (map FormatInt (u # v # us)))
      = FormatInt u # split_on CHR '','' (join_comma (map FormatInt (v # us)))"
    by (simp add: split_on_append)
  then show ?case using 3 by (simp add: parse_all_def)
qed

lemma join_no_bar: "CHR ''|'' \<notin> set (join_comma (map FormatInt us))"
proof (induction us rule: induct_list012)
  case (2 u)
  have "CHR ''|'' \<notin> set (FormatInt u)" by (rule FormatInt_no_char) simp_all
  then show ?case by simp
next
  case (3 u v us)
  have "CHR ''|'' \<notin> set (FormatInt u)" by (rule FormatInt_no_char) simp_all
  with 3 show ?case by simp
qed simp

lemma common_fields_dev_msg:
  "common_fields ''PubCommonMsg:0x36'' (dev_msg flag did us) = Some (MIDStatus, us, flag # le_bytes 8 did @ [0])"
proof -
  have "ParseUint16 ''0x36'' = Some 0x36"
    by (simp add: ParseUint16_def digit36_def)
  moreover have "TrimPrefix ''PubCommonMsg:0x36'' SubCommonMsgKeyPrefix = ''0x36''"
    by (simp add: TrimPrefix_def SubCommonMsgKeyPrefix_def has_prefix_def)
  moreover have "split_n 2 CHR ''|'' (dev_msg flag did us) = [join_comma (map FormatInt us), bytes_str (flag # le_bytes 8 did @ [0])]"
    using split_n_2 [OF join_no_bar, of us "bytes_str (flag # le_bytes 8 did @ [0])"]
    by (simp add: dev_msg_def bytes_str_def)
  ultimately show ?thesis
    by (simp add: common_fields_def Let_def parse_all_join)
qed

text \<open>The announcement a UDP comet publishes when a device goes on or off line is understood by the websocket comets: handling the published text pushes to each of the
  device's users, in order, the status message of that kind for that device, as the message codec marshals it.\<close>

theorem dev_msg_understood:
  "HandleCommonMsg_ws K env ''PubCommonMsg:0x36'' (dev_msg flag did us) =
     go_each (\<lambda>u. PushCommonMsg K env MIDStatus u (flag # le_bytes 8 did @ [0])) us
   \<and> MsgStatus_Marshal \<lparr>Type = flag, Id = did, Payload = []\<rparr> = Some (Inr (flag # le_bytes 8 did @ [0]))"
proof
  show "HandleCommonMsg_ws K env ''PubCommonMsg:0x36'' (dev_msg flag did us) =
     go_each (\<lambda>u. PushCommonMsg K env MIDStatus u (flag # le_bytes 8 did @ [0])) us"
    by (simp only: HandleCommonMsg_ws_def common_fields_dev_msg option.case prod.case PushMsg_ws_def)
  show "MsgStatus_Marshal \<lparr>Type = flag, Id = did, Payload = []\<rparr> = Some (Inr (flag # le_bytes 8 did @ [0]))"
    using status_body_eq [of flag did] by (auto simp: status_body_def MsgStatus_Marshal_def split: option.splits sum.splits)
qed

end
