(* ===== verification/UdpInvariant.thy ===== *)
theory UdpInvariant
  imports UdpHandler Client
begin

text \<open>
  What every operation of the UDP comet keeps: between two operations no session is locked, and the
  timers are consistent: the timer found from an address is running and belongs to a session of that address.  The rules follow the
  structure of the operations; an operation that does not return (it panics) ends the process and
  satisfies them trivially.
\<close>

section \<open>Invariant and rules\<close>

definition timers_ok :: "('e, 'h, 'r) udp \<Rightarrow> bool" where
  "timers_ok st \<longleftrightarrow>
     (\<forall>a k. udpmap st a = Some k \<longrightarrow> k \<in> set (armed st) \<and> (\<exists>s. timers st k = Some s \<and> Addr s = a))
   \<and> (\<forall>k \<in> set (armed st). timers st k \<noteq> None)
   \<and> (\<forall>k. timers st k \<noteq> None \<longrightarrow> k < timer_fresh st)"

definition udp_ok :: "string list \<Rightarrow> ('e, 'h, 'r) udp \<Rightarrow> bool" where
  "udp_ok h st \<longleftrightarrow> held st = h \<and> timers_ok st"

definition keeps :: "string list \<Rightarrow> (('e, 'h, 'r) udp, 'a) go \<Rightarrow> bool" where
  "keeps h m \<longleftrightarrow> (\<forall>st x st'. udp_ok h st \<longrightarrow> m st = (Ret x, st') \<longrightarrow> udp_ok h st')"

definition releases :: "string \<Rightarrow> string list \<Rightarrow> (('e, 'h, 'r) udp, 'a) go \<Rightarrow> bool" where
  "releases sid h m \<longleftrightarrow> (\<forall>st x st'. udp_ok (sid # h) st \<longrightarrow> m st = (Ret x, st') \<longrightarrow> udp_ok h st')"

named_theorems keep \<open>introduction rules of keeps and releases\<close>

lemma udp_ok_simps [simp]:
  "udp_ok h (st\<lparr>trace := tr\<rparr>) = udp_ok h st" "udp_ok h (st\<lparr>store := r\<rparr>) = udp_ok h st"
  "udp_ok h (st\<lparr>bm_curr := c\<rparr>) = udp_ok h st" "udp_ok h (st\<lparr>bm_list := l\<rparr>) = udp_ok h st"
  by (simp_all add: udp_ok_def timers_ok_def)

lemma keeps_ret [keep]: "keeps h (go_ret x)"
  and keeps_get [keep]: "keeps h (go_get f)"
  and keeps_lift [keep]: "keeps h (go_lift v)"
  and keeps_note [keep]: "keeps h (note_ev ev)"
  and keeps_store [keep]: "keeps h (on_store g)"
  and keeps_from [keep]: "keeps h (from_store g')"
  by (auto simp: keeps_def go_monad on_store_def from_store_def split: option.splits prod.splits)

lemma keeps_upd: "(\<And>st. udp_ok h st \<Longrightarrow> udp_ok h (f st)) \<Longrightarrow> keeps h (go_upd f)"
  by (simp add: keeps_def go_upd_def)

lemma keeps_bind [keep]: "keeps h m \<Longrightarrow> (\<And>x. keeps h (f x)) \<Longrightarrow> keeps h (go_bind m f)"
  unfolding keeps_def by (blast dest: go_bind_RetD)

lemma keeps_seq [keep]: "keeps h m \<Longrightarrow> keeps h k \<Longrightarrow> keeps h (go_seq m k)"
  by (simp add: go_seq_def keeps_bind)

lemma keeps_cases [keep]:
  "(b \<Longrightarrow> keeps h m) \<Longrightarrow> (\<not> b \<Longrightarrow> keeps h k) \<Longrightarrow> keeps h (if b then m else k)"
  "keeps h m \<Longrightarrow> (\<And>x. keeps h (f x)) \<Longrightarrow> keeps h (case v of None \<Rightarrow> m | Some x \<Rightarrow> f x)"
  "(\<And>e. keeps h (fl e)) \<Longrightarrow> (\<And>x. keeps h (fr x)) \<Longrightarrow> keeps h (case w of Inl e \<Rightarrow> fl e | Inr x \<Rightarrow> fr x)"
  "(\<And>x y. keeps h (g x y)) \<Longrightarrow> keeps h (case p of (x, y) \<Rightarrow> g x y)"
  "keeps h (l z) \<Longrightarrow> keeps h (Let z l)"
  by (auto split: option.splits sum.splits prod.splits)

lemma keeps_json [keep]:
  "(\<And>m e. keeps h (f m e)) \<Longrightarrow> (\<And>s. keeps h (g s)) \<Longrightarrow> keeps h k \<Longrightarrow>
   keeps h (case j of JNum m e \<Rightarrow> f m e | JStr s \<Rightarrow> g s | JOther \<Rightarrow> k)"
  by (simp split: json.splits)

lemma keeps_each [keep]: "(\<And>x. keeps h (f x)) \<Longrightarrow> keeps h (go_each f xs)"
  by (induction xs) (simp_all add: keep)

lemma releases_bind [keep]: "keeps (sid # h) m \<Longrightarrow> (\<And>x. releases sid h (f x)) \<Longrightarrow> releases sid h (go_bind m f)"
  unfolding keeps_def releases_def by (blast dest: go_bind_RetD)

lemma releases_seq: "keeps (sid # h) m \<Longrightarrow> releases sid h k \<Longrightarrow> releases sid h (go_seq m k)"
  by (simp add: go_seq_def releases_bind)

lemma timers_ok_held [simp]: "timers_ok (st\<lparr>held := h\<rparr>) = timers_ok st"
  by (simp add: timers_ok_def)

lemma releases_Unlock:
  assumes "keeps h k"
  shows "releases sid h (go_seq (Unlock sid) k)"
  unfolding releases_def
proof (intro allI impI)
  fix st x st'
  assume "udp_ok (sid # h) st" and run: "go_seq (Unlock sid) k st = (Ret x, st')"
  then have "udp_ok h (st\<lparr>held := remove1 sid (held st)\<rparr>)" by (simp add: udp_ok_def)
  moreover have "k (st\<lparr>held := remove1 sid (held st)\<rparr>) = (Ret x, st')"
    using run by (simp add: Unlock_def go_monad)
  ultimately show "udp_ok h st'" using assms unfolding keeps_def by blast
qed

lemma releases_cases [keep]:
  "releases sid h m \<Longrightarrow> (\<And>x. releases sid h (f x)) \<Longrightarrow> releases sid h (case v of None \<Rightarrow> m | Some x \<Rightarrow> f x)"
  "(\<And>x y. releases sid h (g x y)) \<Longrightarrow> releases sid h (case p of (x, y) \<Rightarrow> g x y)"
  "releases sid h (l z) \<Longrightarrow> releases sid h (Let z l)"
  by (auto split: option.splits prod.splits)

lemma keeps_Lock:
  assumes "releases sid h (f True)" and "keeps h (f False)"
  shows "keeps h (go_bind (Lock V sid) f)"
  unfolding keeps_def
proof (intro allI impI)
  fix st x st'
  assume st: "udp_ok h st" and run: "go_bind (Lock V sid) f st = (Ret x, st')"
  show "udp_ok h st'"
  proof (cases "sid \<notin> set (held st) \<and> lock_ok V (trace st) sid")
    case True
    then have "f True (st\<lparr>held := sid # held st\<rparr>) = (Ret x, st')"
      using run by (simp add: Lock_def go_monad)
    moreover have "udp_ok (sid # h) (st\<lparr>held := sid # held st\<rparr>)" using st by (simp add: udp_ok_def)
    ultimately show ?thesis using assms(1) unfolding releases_def by blast
  next
    case False
    then have "f False st = (Ret x, st')"
      using run by (simp add: Lock_def go_monad split: if_splits)
    then show ?thesis using assms(2) st unfolding keeps_def by blast
  qed
qed

section \<open>The operations\<close>

lemma keeps_Push2Bus [keep]: "keeps h (Push2Bus B env srcId ids msg)"
  unfolding Push2Bus_def MsgBusServer_Send_def Let_def by (intro keep keeps_upd) simp

lemma keeps_NotifyBindedIdChanged [keep]: "keeps h (NotifyBindedIdChanged B env i new old)"
  unfolding NotifyBindedIdChanged_def notify_def by (intro keep)

lemma keeps_Timer_Reset: "k \<in> set (armed st) \<Longrightarrow> Timer_Reset k st = (Ret (), st)"
  by (simp add: Timer_Reset_def go_upd_def)

lemma keeps_SaveSession [keep]: "keeps h (SaveSession V sid s)"
  unfolding keeps_def SaveSession_def
  by (auto simp: go_monad on_store_def Timer_Reset_def udp_ok_def timers_ok_def split: option.splits prod.splits if_splits)

lemma keeps_AfterFunc [keep]: "keeps h (AfterFunc s)"
  unfolding AfterFunc_def by (rule keeps_upd) (fastforce simp: Let_def udp_ok_def timers_ok_def)

lemma keeps_GetSession [keep]: "keeps h (GetSession V i)"
  unfolding GetSession_def by (intro keep)

lemma keeps_udp_Send [keep]: "keeps h (udp_Send a m)"
  unfolding udp_Send_def by (intro keep)

lemma keeps_with_device [keep]: "(\<And>h i s. keeps h (body i s)) \<Longrightarrow> keeps h (with_device V did fail body)"
  unfolding with_device_def
  by (intro keep keeps_Lock releases_bind releases_Unlock; simp; intro keep releases_bind releases_Unlock; assumption)

lemma keeps_pushes [keep]:
  "keeps h (GetDeviceAddr V did)" "keeps h (udp_PushCommonMsg V env mid did b)" "keeps h (udp_PushMsg V did msg)"
  "keeps h (udp_UpdateIds B V env did uid t)"
  unfolding GetDeviceAddr_def udp_PushCommonMsg_def udp_PushMsg_def udp_UpdateIds_def Let_def by (intro keep)+


lemma keeps_DoHTTPTask [keep]: "keeps h (DoHTTPTask V t)"
  unfolding DoHTTPTask_def Let_def by (intro keep)

lemma keeps_open_session:
  assumes "\<And>e. keeps h (f (Inl e))" and "\<And>sid s. releases (uu_String V sid) h (f (Inr (sid, s)))"
  shows "keeps h (go_bind (open_session V raw n) f)"
proof (cases "uu_Parse V raw")
  case None
  then show ?thesis using assms by (simp add: open_session_def)
next
  case (Some sid)
  let ?k = "\<lambda>sid. go_bind (GetSession V sid) (\<lambda>r. case r of
         None \<Rightarrow> go_seq (Unlock (uu_String V sid)) (f (Inl ErrStore))
       | Some sess \<Rightarrow> (case VerifySession sess n of
           None \<Rightarrow> go_seq (Unlock (uu_String V sid)) (f (Inl ErrSessPackSeq))
         | Some sess \<Rightarrow> f (Inr (sid, sess))))"
  have "go_bind (open_session V raw n) f = go_bind (Lock V (uu_String V sid)) (\<lambda>ok. if \<not> ok then f (Inl ErrLock) else ?k sid)"
    using Some by (auto simp: open_session_def fun_eq_iff go_monad GetSession_eq split: prod.splits outcome.splits option.splits)
  moreover have "releases (uu_String V sid) h (?k sid)"
    using assms by (intro keep releases_Unlock)
  ultimately show ?thesis using assms by (simp add: keeps_Lock)
qed

lemma keeps_commands [keep]:
  "keeps h (onRegister V t body)" "keeps h (login_session V cookie sess)" "keeps h (onRename V t body)" "keeps h (onHearBeat env t sess)"
  unfolding onRegister_def login_session_def onRename_def onHearBeat_def Let_def by (intro keep)+

lemma keeps_onLogin [keep]: "keeps h (onLogin V t sess body)"
  unfolding onLogin_def Let_def by (intro keep)

lemma keeps_onGetToken [keep]: "keeps h (onGetToken V env t body)"
  unfolding onGetToken_def by (intro keep keeps_Lock) (simp_all, intro keep releases_Unlock)

lemma keeps_on_command [keep]: "keeps h (on_command V env t sess c body)"
  unfolding on_command_def by (intro keep)

lemma keeps_send_reply [keep]: "keeps h (send_reply t res)"
  unfolding send_reply_def by (intro keep)

lemma keeps_handle_command: "keeps h (handle_command B V env apiUrl t)"
proof -
  have "releases (uu_String V sid) h (go_bind (on_command V env t' sess c body) (\<lambda>a. case a of
                 None \<Rightarrow> go_seq (Unlock (uu_String V sid)) (go_ret None)
               | Some ((res, err), sess) \<Rightarrow>
                   go_seq (SaveSession V sid sess)
                  (go_seq (Unlock (uu_String V sid))
                  (go_bind (go_lift (stamp_answer sid res)) (\<lambda>res. send_reply t res)))))" for sid t' sess c body
    by (intro keep releases_seq releases_Unlock)
  then have "keeps h (go_bind (open_session V raw n) (\<lambda>r. case r of Inl e \<Rightarrow> go_ret (Some e) | Inr (sid, sess) \<Rightarrow>
      go_bind (on_command V env t' sess c body) (\<lambda>a. case a of
                 None \<Rightarrow> go_seq (Unlock (uu_String V sid)) (go_ret None)
               | Some ((res, err), sess) \<Rightarrow>
                   go_seq (SaveSession V sid sess)
                  (go_seq (Unlock (uu_String V sid))
                  (go_bind (go_lift (stamp_answer sid res)) (\<lambda>res. send_reply t res))))))" for raw n t' c body
    by (intro keeps_open_session) (simp_all add: keeps_ret)
  then show ?thesis
    unfolding handle_command_def
    by (intro keeps_bind [OF keeps_lift] keeps_cases keeps_ret keeps_seq keeps_Push2Bus keeps_bind [OF keeps_onGetToken] keeps_send_reply)
qed

lemma keeps_handle [keep]: "keeps h (handle B V env apiUrl t)"
proof -
  have "keeps h (handle_forward B V env t)"
    unfolding handle_forward_def Let_def by (rule keeps_cases(1), rule keeps_ret, rule keeps_open_session) (simp_all add: keeps_ret keeps_seq keeps_Push2Bus releases_Unlock)
  then show ?thesis
    unfolding handle_def Let_def by (intro keep keeps_handle_command)
qed

lemma keeps_timer_fires [keep]: "keeps h (timer_fires V k)"
  unfolding keeps_def timer_fires_def
  by (auto simp: go_monad on_store_def udp_ok_def timers_ok_def split: option.splits prod.splits if_splits)
     (metis option.inject)

lemma keeps_push_ids_udp [keep]: "keeps h (push_ids_udp V off ks msg)"
  by (induction ks arbitrary: msg) (auto intro!: keep)

lemma keeps_from_outside [keep]:
  "keeps h (HandleMsg_udp V buf)" "keeps h (HandleDeviceUsers B V env b)" "keeps h (HandleCommonMsg_udp V env ch d)"
  "keeps h (OnBackendGetDeviceAddr V g i)" "keeps h (Process B V env apiUrl a m)"
  unfolding HandleMsg_udp_def HandleDeviceUsers_def HandleCommonMsg_udp_def PushMsg_udp_def OnBackendGetDeviceAddr_def Process_def
  by (intro keep)+

section \<open>Runs of a UDP comet\<close>

text \<open>Everything that happens to a UDP comet: a packet, a frame from a bus, a message from redis, a request of the
  web server, a timer; and other programs that use the same redis.\<close>

inductive udp_step ::
  "('e, 'h) srv_ops \<Rightarrow> 'r udp_svc \<Rightarrow> comet_env \<Rightarrow> string \<Rightarrow> ('e, 'h, 'r) udp \<Rightarrow> ('e, 'h, 'r) udp \<Rightarrow> bool"
  for B V env apiUrl where
  packet: "Process B V env apiUrl a m st = (Ret x, st') \<Longrightarrow> udp_step B V env apiUrl st st'"
| bus: "HandleMsg_udp V buf st = (Ret x, st') \<Longrightarrow> udp_step B V env apiUrl st st'"
| bound: "HandleDeviceUsers B V env b st = (Ret x, st') \<Longrightarrow> udp_step B V env apiUrl st st'"
| common: "HandleCommonMsg_udp V env ch d st = (Ret x, st') \<Longrightarrow> udp_step B V env apiUrl st st'"
| backend: "OnBackendGetDeviceAddr V g i st = (Ret x, st') \<Longrightarrow> udp_step B V env apiUrl st st'"
| timer: "timer_fires V k st = (Ret x, st') \<Longrightarrow> udp_step B V env apiUrl st st'"
| others: "udp_step B V env apiUrl st (st\<lparr>store := r\<rparr>)"

lemma keepsD: "keeps h m \<Longrightarrow> m st = (Ret x, st') \<Longrightarrow> udp_ok h st \<Longrightarrow> udp_ok h st'"
  by (simp add: keeps_def)

lemma udp_step_ok: "udp_step B V env apiUrl st st' \<Longrightarrow> udp_ok [] st \<Longrightarrow> udp_ok [] st'"
proof (induction rule: udp_step.induct)
  case packet
  then show ?case by (rule keepsD [OF keeps_from_outside(5)])
next
  case bus
  then show ?case by (rule keepsD [OF keeps_from_outside(1)])
next
  case bound
  then show ?case by (rule keepsD [OF keeps_from_outside(2)])
next
  case common
  then show ?case by (rule keepsD [OF keeps_from_outside(3)])
next
  case backend
  then show ?case by (rule keepsD [OF keeps_from_outside(4)])
next
  case timer
  then show ?case by (rule keepsD [OF keeps_timer_fires])
qed simp

text \<open>C9: Between two operations of a UDP comet no session is locked, whatever happens to the comet and whichever error paths are taken; and its timers
  stay consistent: the timer registered for an address is running and announces a session with that address, and every
  running timer has a session to announce.\<close>

theorem udp_comet_invariant:
  assumes "(udp_step B V env apiUrl)\<^sup>*\<^sup>* st0 st" and "held st0 = []" and "udpmap st0 = Map.empty" and "armed st0 = []" and "timers st0 = Map.empty"
  shows "held st = []
    \<and> (\<forall>a k. udpmap st a = Some k \<longrightarrow> k \<in> set (armed st) \<and> (\<exists>s. timers st k = Some s \<and> Addr s = a))
    \<and> (\<forall>k \<in> set (armed st). timers st k \<noteq> None)"
proof -
  have "udp_ok [] st0" using assms(2-5) by (simp add: udp_ok_def timers_ok_def)
  with assms(1) have "udp_ok [] st" by (induction rule: rtranclp_induct) (auto intro: udp_step_ok)
  then show ?thesis by (simp add: udp_ok_def timers_ok_def)
qed

theorem udp_comet_invariant_witness:
  "\<exists>st. udp_step (plain_hlist True) plain_svc sample_cenv [] sample_udp st \<and> held st = []"
proof -
  have "udp_step (plain_hlist True) plain_svc sample_cenv [] sample_udp sample_udp"
    by (rule udp_step.packet [where m = "[2, 0]"]) (simp add: Process_def handle_def udp_consts go_monad)
  moreover have "armed sample_udp = []" "timers sample_udp = Map.empty"
    by (simp_all add: sample_udp_def SaveSession_def go_monad plain_udp_def on_store_def split: prod.splits)
  ultimately show ?thesis
    using udp_comet_invariant [OF r_into_rtranclp] sample_udp_rest by blast
qed

section \<open>Replayed packets\<close>

lemma open_session_Inr:
  "open_session V raw n st = (Ret (Inr (i, s)), st') \<Longrightarrow> uu_Parse V raw = Some i
    \<and> (\<exists>s0. lookup V (store st) i = Some s0 \<and> VerifySession s0 n = Some s) \<and> st' = st\<lparr>held := uu_String V i # held st\<rparr>"
  by (auto simp: open_session_def go_monad Lock_def GetSession_eq Unlock_def split: option.splits if_splits)

lemma open_session_rejects:
  "uu_Parse V raw = Some i \<Longrightarrow> lookup V (store st) i = Some s \<Longrightarrow> VerifySession s n = None \<Longrightarrow>
   uu_String V i \<notin> set (held st) \<Longrightarrow> lock_ok V (trace st) (uu_String V i) \<Longrightarrow>
   open_session V raw n st = (Ret (Inl ErrSessPackSeq), st)"
  by (simp add: open_session_def go_monad Lock_def GetSession_eq Unlock_def)

lemma login_session_keeps:
  "login_session V cookie s st = (Ret s', st') \<Longrightarrow> Ridx s' = Ridx s \<and> Sid s' = Sid s"
  by (auto simp: login_session_def go_monad from_store_def on_store_def AfterFunc_def Let_def
      split: option.splits list.splits prod.splits)

lemma on_command_keeps:
  assumes "on_command V env t s c body st = (Ret (Some (a, s')), st')"
  shows "Ridx s' = Ridx s \<and> Sid s' = Sid s"
proof (cases "c = CmdLogin")
  case True
  then have "\<exists>st1. onLogin V t s body st = (Ret (a, s'), st1)"
    using assms by (auto simp: on_command_def udp_consts dest!: go_bind_RetD simp: go_ret_def)
  then show ?thesis
    by (auto simp: onLogin_def Let_def go_ret_def dest!: go_bind_RetD login_session_keeps
        split: if_splits option.splits json.splits prod.splits)
next
  case False
  then show ?thesis
    using assms by (auto simp: on_command_def onHearBeat_def go_get_def go_ret_def UdpSession_Update_def
        dest!: go_bind_RetD split: if_splits)
qed

definition session_command :: "u16 \<Rightarrow> bool" where
  "session_command c \<longleftrightarrow> c \<in> {CmdRegister, CmdLogin, CmdRename, CmdHeartBeat}"

lemma on_command_Some: "session_command c \<Longrightarrow> on_command V env t s c body st \<noteq> (Ret None, st')"
  by (auto simp: session_command_def on_command_def udp_consts go_ret_def dest!: go_bind_RetD)

lemma send_reply_store: "send_reply t res st = (Ret x, st') \<Longrightarrow> store st' = store st \<and> x = None"
  by (auto simp: send_reply_def udp_Send_def go_lift_def go_ret_def go_seq_def dest!: go_bind_RetD split: option.splits)

text \<open>A command that succeeds leaves its session stored with the packet's number.\<close>

lemma handle_command_stores:
  assumes V: "udp_store V" and up: "\<And>r. rd_up (redis_ops.truncate V) r"
    and chk: "check_command (Msg t) = Some (Inr (n, c, body))" and c: "session_command c"
    and run: "handle_command B V env apiUrl t st = (Ret None, st')"
  shows "16 \<le> length body \<and> (\<exists>i s. uu_Parse V (take 16 body) = Some i \<and> lookup V (store st') i = Some s \<and> Ridx s = n)"
proof -
  let ?t = "t\<lparr>CmdType := c, Url := kApiUrls apiUrl c\<rparr>"
  have len: "16 \<le> length body"
    using chk c run by (auto simp: handle_command_def session_command_def udp_consts go_bind_def go_lift_def split: if_splits)
  obtain r st1 where op: "open_session V (take 16 body) n st = (Ret r, st1)"
    and rest: "(case r of Inl e \<Rightarrow> go_ret (Some e) | Inr (sid, sess) \<Rightarrow>
               go_bind (on_command V env ?t sess c body) (\<lambda>a. case a of
                 None \<Rightarrow> go_seq (Unlock (uu_String V sid)) (go_ret None)
               | Some ((res, err), sess) \<Rightarrow>
                   go_seq (SaveSession V sid sess)
                  (go_seq (Unlock (uu_String V sid))
                  (go_bind (go_lift (stamp_answer sid res)) (\<lambda>res. send_reply t res))))) st1 = (Ret None, st')"
    using run chk c len
    by (auto simp: handle_command_def session_command_def udp_consts go_lift_def go_bind_Ret dest!: go_bind_RetD)
  then obtain i s where r: "r = Inr (i, s)" by (cases r) (auto simp: go_ret_def)
  have i: "uu_Parse V (take 16 body) = Some i" "Ridx s = n" "Sid s = uu_String V i"
    using open_session_Inr [of V "take 16 body" n st i s st1] op r lookup_Sid VerifySession_iff by auto
  obtain a st2 where a: "on_command V env ?t s c body st1 = (Ret a, st2)"
    and rest2: "(case a of
                 None \<Rightarrow> go_seq (Unlock (uu_String V i)) (go_ret None)
               | Some ((res, err), sess) \<Rightarrow>
                   go_seq (SaveSession V i sess)
                  (go_seq (Unlock (uu_String V i))
                  (go_bind (go_lift (stamp_answer i res)) (\<lambda>res. send_reply t res)))) st2 = (Ret None, st')"
    using rest r by (auto dest!: go_bind_RetD)
  then obtain res err s' where s': "a = Some ((res, err), s')"
    using on_command_Some [OF c, of V env ?t s body st1 st2] by (cases a) auto
  have "Ridx s' = n" "Sid s' = uu_String V i"
    using on_command_keeps [of V env ?t s c body st1 "(res, err)" s' st2] a s' i by auto
  moreover obtain st3 where save: "SaveSession V i s' st2 = (Ret True, st3)" "lookup V (store st3) i = Some s'"
    using udp_store.SaveSession_lookup [OF V up \<open>Sid s' = uu_String V i\<close>] by blast
  moreover have "store st' = store st3"
    using rest2 s' save(1)
    by (auto simp: go_seq_Ret Unlock_def go_seq_def go_upd_def go_lift_def dest!: go_bind_RetD send_reply_store split: option.splits)
  ultimately show ?thesis using len i by auto
qed


text \<open>C4: A command is never executed twice: once a UDP comet has handled a register, login, rename or heartbeat packet without error, it rejects the same bytes,
  from whatever address they come again, without changing anything, as long as the session is stored and its lock can be had.\<close>

theorem handle_no_replay:
  assumes V: "udp_store V" and up: "\<And>r. rd_up (redis_ops.truncate V) r" and lock: "\<And>tr sid. lock_ok V tr sid"
    and inv: "held st = []" "timers_ok st"
    and msg: "hd m AND 7 = 2" "check_command m = Some (Inr (n, c, body))" "session_command c"
    and run: "handle B V env apiUrl \<lparr>Peer = a, Msg = m, Url = [], CmdType = 0, Input = []\<rparr> st = (Ret None, st')"
  shows "handle B V env apiUrl \<lparr>Peer = a', Msg = m, Url = [], CmdType = 0, Input = []\<rparr> st' = (Ret (Some ErrSessPackSeq), st')"
proof -
  have m: "24 \<le> length m" "0x7 AND m ! 0 = 2"
    using msg(1,2) by (cases m; auto simp: check_command_def udp_consts and.commute split: if_splits)+
  then have eq: "handle B V env apiUrl \<lparr>Peer = p, Msg = m, Url = [], CmdType = 0, Input = []\<rparr>
      = handle_command B V env apiUrl \<lparr>Peer = p, Msg = m, Url = [], CmdType = 0, Input = []\<rparr>" for p
    by (simp add: handle_def udp_consts fun_eq_iff)
  have "check_command (Msg \<lparr>Peer = a, Msg = m, Url = [], CmdType = 0, Input = []\<rparr>) = Some (Inr (n, c, body))"
    "handle_command B V env apiUrl \<lparr>Peer = a, Msg = m, Url = [], CmdType = 0, Input = []\<rparr> st = (Ret None, st')"
    using msg(2) run by (simp_all add: eq)
  from handle_command_stores [OF V up this(1) msg(3) this(2)]
  obtain i s where sess: "16 \<le> length body" "uu_Parse V (take 16 body) = Some i" "lookup V (store st') i = Some s" "Ridx s = n"
    by blast
  have "VerifySession s n = None" using sess(4) by (auto simp: VerifySession_def)
  moreover have "held st' = []"
    using keepsD [OF keeps_handle run, of "[]"] inv by (simp add: udp_ok_def)
  ultimately have "open_session V (take 16 body) n st' = (Ret (Inl ErrSessPackSeq), st')"
    using open_session_rejects [OF sess(2,3)] lock by simp
  then show ?thesis
    using sess(1) msg(2,3)
    by (auto simp: eq handle_command_def session_command_def udp_consts go_lift_def go_bind_Ret go_ret_def)
qed

lemma Push2Bus_store: "Push2Bus B env src ids msg st = (x, st') \<Longrightarrow> store st' = store st \<and> held st' = held st"
  by (auto simp: Push2Bus_def go_monad MsgBusServer_Send_def Let_def split: option.splits if_splits)

lemma handle_forward_eq:
  assumes "76 \<le> length (Msg t)" and "uu_Parse V (take 16 (drop 24 (Msg t))) = Some i" and "lookup V (store st) i = Some s"
    and "VerifySession s (le_word (take 2 (drop 2 (Msg t)))) \<noteq> None" and "held st = []" and "lock_ok V (trace st) (uu_String V i)"
  shows "handle_forward B V env t st = go_seq (Push2Bus B env (le_word (take 8 (drop 16 (Msg t))))
    (UdpSession_CalcDestIds s (le_word (take 8 (drop 8 (Msg t))))) (Msg t)) (go_ret None) st"
proof -
  obtain s' where s': "VerifySession s (le_word (take 2 (drop 2 (Msg t)))) = Some s'" using assms(4) by blast
  then have "s' = s\<lparr>Ridx := le_word (take 2 (drop 2 (Msg t)))\<rparr>" by (simp add: VerifySession_iff)
  then have "UdpSession_CalcDestIds s' toId = UdpSession_CalcDestIds s toId" for toId
    by (simp add: UdpSession_CalcDestIds_def udp_isBinded_def)
  moreover have h0: "st\<lparr>held := []\<rparr> = st" using assms(5) by simp
  ultimately show ?thesis
    using assms s' by (simp add: h0 handle_forward_def udp_consts Let_def open_session_def go_bind_def go_seq_def
        Lock_def go_get_def go_ret_def go_upd_def GetSession_eq Unlock_def)
qed

text \<open>A packet to forward can be replayed: the comet checks its number against the session but does not store it, so however often the same
  packet arrives, it is forwarded each time.  It goes to the destinations computed from the session's users; the sender's
  id in the frame is the one the packet claims.\<close>

theorem handle_forward_replayed:
  assumes msg: "hd m AND 7 = 3" "76 \<le> length m" and lock: "\<And>tr sid. lock_ok V tr sid"
    and sess: "uu_Parse V (take 16 (drop 24 m)) = Some i" "lookup V (store st) i = Some s" "held st = []"
    and "VerifySession s (le_word (take 2 (drop 2 m))) \<noteq> None"
  shows "go_each (\<lambda>_. go_seq (handle B V env apiUrl \<lparr>Peer = a, Msg = m, Url = [], CmdType = 0, Input = []\<rparr>) (go_ret ())) (replicate k ()) st =
    go_each (\<lambda>_. Push2Bus B env (le_word (take 8 (drop 16 m))) (UdpSession_CalcDestIds s (le_word (take 8 (drop 8 m)))) m) (replicate k ()) st"
  using sess(2,3)
proof (induction k arbitrary: st)
  case 0
  then show ?case by simp
next
  case (Suc k)
  let ?t = "\<lparr>Peer = a, Msg = m, Url = [], CmdType = 0, Input = []\<rparr>"
  let ?push = "Push2Bus B env (le_word (take 8 (drop 16 m))) (UdpSession_CalcDestIds s (le_word (take 8 (drop 8 m)))) m"
  have "m \<noteq> []" using msg(2) by auto
  then have "handle B V env apiUrl ?t = handle_forward B V env ?t"
    using msg by (simp add: handle_def udp_consts fun_eq_iff and.commute hd_conv_nth)
  then have "handle B V env apiUrl ?t st = go_seq ?push (go_ret None) st"
    using handle_forward_eq [of ?t V i st s B env] msg(2) sess(1) Suc.prems assms(7) lock by simp
  then show ?case
    using Suc.IH Push2Bus_store [of B env _ _ m st] Suc.prems
    by (cases "?push st"; cases "fst (?push st)") (auto simp: go_seq_def go_bind_def go_ret_def)
qed

section \<open>Heartbeats\<close>

lemma reply_packet_Some: "36 \<le> length msg \<Longrightarrow> \<exists>out. reply_packet msg res = Some out"
  by (metis packet_parts reply_packet_eq)

lemma SaveSession_rest: "SaveSession V i s st = (Ret x, st') \<Longrightarrow> trace st' = trace st \<and> held st' = held st"
  by (auto simp: SaveSession_def go_monad on_store_def Timer_Reset_def split: option.splits prod.splits)

lemma handle_heartbeat:
  assumes V: "udp_store V" and up: "\<And>r. rd_up (redis_ops.truncate V) r" and lock: "lock_ok V (trace st) (uu_String V i)" and "held st = []"
    and msg: "hd m AND 7 = 2" "check_command m = Some (Inr (n, CmdHeartBeat, body))" "16 \<le> length body"
    and sess: "uu_Parse V (take 16 body) = Some i" "length i = 16" "lookup V (store st) i = Some s" "follows (Ridx s) n"
  shows "\<exists>st' out. handle B V env apiUrl \<lparr>Peer = a, Msg = m, Url = [], CmdType = 0, Input = []\<rparr> st = (Ret None, st')
    \<and> lookup V (store st') i = Some (s\<lparr>Ridx := n, Addr := a, LastHeartbeat := clock env (trace st)\<rparr>)
    \<and> reply_packet m (replicate 4 0 @ i) = Some out \<and> trace st' = trace st @ [UdpSend a out] \<and> held st' = []"
proof -
  let ?t = "\<lparr>Peer = a, Msg = m, Url = [], CmdType = 0, Input = []\<rparr>"
  let ?s = "s\<lparr>Ridx := n, Addr := a, LastHeartbeat := clock env (trace st)\<rparr>" and ?st = "st\<lparr>held := [uu_String V i]\<rparr>"
  have m: "36 \<le> length m" "0x7 AND m ! 0 = 2"
    using msg(1,2) by (cases m; auto simp: check_command_def udp_consts and.commute split: if_splits)+
  have upd: "UdpSession_Update (clock env (trace st)) a (s\<lparr>Ridx := n\<rparr>) = ?s"
    by (simp add: UdpSession_Update_def)
  have "Sid ?s = uu_String V i" using lookup_Sid [OF sess(3)] by simp
  then obtain st1 where save: "SaveSession V i ?s ?st = (Ret True, st1)" "lookup V (store st1) i = Some ?s"
    using udp_store.SaveSession_lookup [OF V up] by blast
  obtain out where out: "reply_packet m (replicate 4 0 @ i) = Some out" using reply_packet_Some [OF m(1)] by blast
  have ver: "VerifySession s n = Some (s\<lparr>Ridx := n\<rparr>)" using sess(4) by (simp add: VerifySession_iff)
  have "with_status (replicate 20 0) 0 = replicate 20 0"
    by (simp add: with_status_def overwrite_def numeral_eq_Suc)
  then have stamp: "stamp_answer i (Some (with_status (replicate 20 0) 0)) = Some (replicate 4 0 @ i)"
    using sess(2) by (simp add: stamp_answer_def overwrite_def)
  have "handle B V env apiUrl ?t st = handle_command B V env apiUrl ?t st"
    using m by (simp add: handle_def udp_consts)
  also have "\<dots> = (Ret None, st1\<lparr>held := [], trace := trace st @ [UdpSend a out]\<rparr>)"
    using assms(4) msg sess save stamp out lock ver upd SaveSession_rest [OF save(1)]
    by (simp add: handle_command_def udp_consts open_session_def go_bind_def go_seq_def Lock_def go_get_def go_ret_def
        go_upd_def go_lift_def GetSession_eq Unlock_def on_command_def onHearBeat_def send_reply_def udp_Send_def)
  finally show ?thesis using save(2) out by auto
qed

text \<open>A heartbeat refreshes its session: a heartbeat packet with the next number of a stored session updates the session's packet number, address
  and time and nothing else of it, and is answered to the sender with one packet that carries status 0 and the session's
  id; no lock is left.\<close>

theorem handle_heartbeat_spec:
  assumes "udp_store V" and "\<And>r. rd_up (redis_ops.truncate V) r" and "lock_ok V (trace st) (uu_String V i)" and "held st = []"
    and "hd m AND 7 = 2" "check_command m = Some (Inr (n, CmdHeartBeat, body))" "16 \<le> length body"
    and "uu_Parse V (take 16 body) = Some i" "length i = 16" "lookup V (store st) i = Some s" "Ridx s < n"
  shows "\<exists>st' out. handle B V env apiUrl \<lparr>Peer = a, Msg = m, Url = [], CmdType = 0, Input = []\<rparr> st = (Ret None, st')
    \<and> lookup V (store st') i = Some (s\<lparr>Ridx := n, Addr := a, LastHeartbeat := clock env (trace st)\<rparr>)
    \<and> reply_packet m (replicate 4 0 @ i) = Some out \<and> trace st' = trace st @ [UdpSend a out] \<and> held st' = []"
  using handle_heartbeat [OF assms(1-10), of B env apiUrl a] assms(11) by (simp add: follows_def)

definition sample_heartbeat :: "byte list" where
  "sample_heartbeat = packet (2 # 0 # 5 # replicate 21 0) 0 [0, 0, 0, 0xE5, 0] [0, 0] (replicate 16 7)"

lemma sample_heartbeat_facts:
  "hd sample_heartbeat AND 7 = 2" "check_command sample_heartbeat = Some (Inr (5, CmdHeartBeat, replicate 16 7))"
proof -
  show "hd sample_heartbeat AND 7 = 2" by (simp add: sample_heartbeat_def packet_def Let_def)
  have "le_word (take 2 (5 # replicate 21 0)) = (5 :: u16)" "le_word [0xE5, 0] = (0xE5 :: u16)"
    by (simp_all add: take_Cons')
  then show "check_command sample_heartbeat = Some (Inr (5, CmdHeartBeat, replicate 16 7))"
    using check_packet [of "2 # 0 # 5 # replicate 21 0" "[0, 0, 0, 0xE5, 0]" "[0, 0]" "replicate 16 7" 0]
    by (simp add: sample_heartbeat_def CmdHeartBeat_def)
qed

lemma sample_lookup: "lookup plain_svc (store sample_udp) (replicate 16 7) = Some sample_sess"
  "uu_Parse plain_svc raw = Some raw"
  using sample_udp_stored by (simp_all add: stored_def plain_svc_def redis_ops.defs udp_svc.defs)

theorem handle_heartbeat_spec_witness:
  "\<exists>st' out. handle (plain_hlist True) plain_svc sample_cenv [] \<lparr>Peer = ''5.6.7.8:9'', Msg = sample_heartbeat, Url = [], CmdType = 0, Input = []\<rparr> sample_udp = (Ret None, st')
    \<and> trace st' = [UdpSend ''5.6.7.8:9'' out]"
proof -
  have "Ridx sample_sess < 5" by (simp add: sample_sess_def)
  then show ?thesis
    using handle_heartbeat_spec [OF ps.udp_store_axioms _ _ _ sample_heartbeat_facts, of sample_udp "replicate 16 7" sample_sess "plain_hlist True" sample_cenv "[]" "''5.6.7.8:9''"]
    by (auto simp: sample_lookup sample_udp_rest)
qed

theorem handle_no_replay_witness:
  "\<exists>st'. handle (plain_hlist True) plain_svc sample_cenv [] \<lparr>Peer = ''1.2.3.4:5'', Msg = sample_heartbeat, Url = [], CmdType = 0, Input = []\<rparr> sample_udp = (Ret None, st')
    \<and> handle (plain_hlist True) plain_svc sample_cenv [] \<lparr>Peer = ''9.9.9.9:9'', Msg = sample_heartbeat, Url = [], CmdType = 0, Input = []\<rparr> st' = (Ret (Some ErrSessPackSeq), st')"
proof -
  have "follows (Ridx sample_sess) 5" by (simp add: sample_sess_def follows_def)
  then obtain st' where run: "handle (plain_hlist True) plain_svc sample_cenv []
      \<lparr>Peer = ''1.2.3.4:5'', Msg = sample_heartbeat, Url = [], CmdType = 0, Input = []\<rparr> sample_udp = (Ret None, st')"
    using handle_heartbeat [OF ps.udp_store_axioms _ _ _ sample_heartbeat_facts, of sample_udp "replicate 16 7" sample_sess "plain_hlist True" sample_cenv "[]" "''1.2.3.4:5''"]
    by (auto simp: sample_lookup sample_udp_rest)
  have "timers_ok sample_udp"
    by (simp add: timers_ok_def sample_udp_def SaveSession_def go_monad plain_udp_def on_store_def split: prod.splits)
  moreover have "session_command CmdHeartBeat" by (simp add: session_command_def)
  ultimately show ?thesis
    using handle_no_replay [OF ps.udp_store_axioms _ _ sample_udp_rest(2) _ sample_heartbeat_facts _ run] run by auto
qed

definition sample_forward :: "byte list" where
  "sample_forward = 3 # 0 # 5 # replicate 21 0 @ replicate 16 7 @ replicate 36 0"

theorem handle_forward_replayed_witness:
  "go_each (\<lambda>_. go_seq (handle (plain_hlist True) plain_svc sample_cenv [] \<lparr>Peer = [], Msg = sample_forward, Url = [], CmdType = 0, Input = []\<rparr>) (go_ret ())) (replicate 2 ()) sample_udp =
    go_each (\<lambda>_. Push2Bus (plain_hlist True) sample_cenv 0 (phones 16) sample_forward) (replicate 2 ()) sample_udp"
proof -
  have z: "le_word (replicate 8 0) = (0 :: i64)" by (simp add: numeral_eq_Suc)
  have "take 16 (drop 24 sample_forward) = replicate 16 7" "le_word (take 2 (drop 2 sample_forward)) = (5 :: u16)"
    "take 8 (drop 8 sample_forward) = replicate 8 0" "take 8 (drop 16 sample_forward) = replicate 8 0"
    by (simp_all add: sample_forward_def take_Cons' drop_Cons')
  moreover have "UdpSession_CalcDestIds sample_sess 0 = phones 16"
    by (simp add: UdpSession_CalcDestIds_def sample_sess_def phones_def)
  moreover have "VerifySession sample_sess 5 \<noteq> None" by (simp add: VerifySession_def sample_sess_def)
  moreover have "hd sample_forward AND 7 = 3" "76 \<le> length sample_forward" by (simp_all add: sample_forward_def)
  ultimately show ?thesis
    using handle_forward_replayed [of sample_forward plain_svc "replicate 16 7" sample_udp sample_sess "plain_hlist True" sample_cenv "[]" "[]" 2]
    by (simp add: sample_lookup sample_udp_rest z)
qed

end
