(* ===== verification/UdpLogin.thy ===== *)
theory UdpLogin
  imports UdpInvariant
begin

text \<open>
  Devices going on and off line: what a login changes and publishes, what a timer announces, and the
  commands that end the process.
\<close>

section \<open>Login\<close>

lemma login_session_run:
  assumes "redis_publish (redis_ops.truncate V)" and "ParseInt (hd (split_n 2 CHR ''|'' cookie)) = (did, None)"
    and "GetDeviceUsers (redis_ops.truncate V) did (store st) = Some us"
  shows "\<exists>st'. login_session V cookie s st = (Ret (s\<lparr>DeviceId := did, BindedUsers := us\<rparr>), st')
    \<and> rd_published (redis_ops.truncate V) (store st') =
        rd_published (redis_ops.truncate V) (store st) @ [(''PubCommonMsg:0x36'', dev_msg MSTDeviceOnline did us)]
    \<and> udpmap st' = (udpmap st)(Addr s \<mapsto> timer_fresh st) \<and> timer_fresh st \<in> set (armed st')
    \<and> timers st' (timer_fresh st) = Some (s\<lparr>DeviceId := did, BindedUsers := us\<rparr>)"
proof -
  have "split_n 2 CHR ''|'' cookie \<noteq> []" by (simp add: numeral_2_eq_2)
  then have "(case split_n 2 CHR ''|'' cookie of [] \<Rightarrow> s
      | x # _ \<Rightarrow> (case ParseInt x of (i, None) \<Rightarrow> s\<lparr>DeviceId := i\<rparr> | _ \<Rightarrow> s)) = s\<lparr>DeviceId := did\<rparr>"
    using assms(2) by (cases "split_n 2 CHR ''|'' cookie") simp_all
  moreover have "MSTDeviceOnline = 9" by (simp add: MSTDeviceOnline_def)
  ultimately show ?thesis
    using assms(3) redis_publish.PUBLISH_appends [OF assms(1)] redis_publish.HSET_silent [OF assms(1)]
    by (simp add: login_session_def from_store_def on_store_def go_monad AfterFunc_def PushDevOnlineMsgToUsers_def Let_def)
qed

text \<open>C33: A device that logs in is bound and announced: when the web server accepts the login, the session gets the id from the cookie and
  the users redis lists for the device, exactly one message is published, the online status of the device for these users, and
  a timer that will announce the device as offline is registered for the session's address and running.\<close>

theorem login_session_spec:
  assumes "redis_publish (redis_ops.truncate V)" and "ParseInt (hd (split_n 2 CHR ''|'' cookie)) = (did, None)"
    and "GetDeviceUsers (redis_ops.truncate V) did (store st) = Some us"
  shows "\<exists>st'. login_session V cookie s st = (Ret (s\<lparr>DeviceId := did, BindedUsers := us\<rparr>), st')
    \<and> rd_published (redis_ops.truncate V) (store st') =
        rd_published (redis_ops.truncate V) (store st) @ [(''PubCommonMsg:0x36'', dev_msg MSTDeviceOnline did us)]
    \<and> udpmap st' = (udpmap st)(Addr s \<mapsto> timer_fresh st) \<and> timer_fresh st \<in> set (armed st')
    \<and> timers st' (timer_fresh st) = Some (s\<lparr>DeviceId := did, BindedUsers := us\<rparr>)"
  by (rule login_session_run [OF assms])

definition owned_udp :: "(nat \<times> MsgBusServer, (nat \<times> MsgBusServer) list, plain_store) udp" where
  "owned_udp = plain_udp\<lparr>store := rd_HSET plain_redis RedisDeviceUsers (FormatInt (- 9)) (FormatInt 16) empty_store\<rparr>"

lemma owned_users: "GetDeviceUsers plain_redis (- 9) (store owned_udp) = Some [16]"
  by (simp add: GetDeviceUsers_def owned_udp_def plain_redis_def RedisDeviceUsers_def empty_store_def)

theorem login_session_spec_witness:
  "\<exists>st'. login_session plain_svc (FormatInt (- 9)) sample_sess owned_udp = (Ret (sample_sess\<lparr>DeviceId := - 9, BindedUsers := [16]\<rparr>), st')
    \<and> ps_pub (store st') = [(''PubCommonMsg:0x36'', dev_msg MSTDeviceOnline (- 9) [16])]"
proof -
  have "CHR ''|'' \<notin> set (FormatInt (- 9))" by (rule FormatInt_no_char) simp_all
  then have "hd (split_n 2 CHR ''|'' (FormatInt (- 9))) = FormatInt (- 9)" by (simp add: numeral_2_eq_2)
  moreover have "rd_published plain_redis = ps_pub" "ps_pub (store owned_udp) = []"
    by (simp_all add: plain_redis_def owned_udp_def empty_store_def)
  ultimately show ?thesis
    using login_session_spec [of plain_svc "FormatInt (- 9)" "- 9" owned_udp "[16]" sample_sess]
      plain_publish.redis_publish_axioms owned_users
    by auto
qed

section \<open>Timers\<close>

text \<open>Logging in again does not stop the timer of the first login: after two logins from the same address the old timer is still running, and when it fires, the users are told that the
  device is offline and the registration of the new timer is deleted, so that heartbeats no longer
  restart it and the device will be announced as offline once more.\<close>

theorem relogin_timer:
  assumes R: "redis_publish (redis_ops.truncate V)" and addr: "Addr s2 = Addr s1"
    and login: "AfterFunc s1 st = (Ret (), st1)" "AfterFunc s2 st1 = (Ret (), st2)"
  shows "\<exists>st3. timer_fires V (timer_fresh st) st2 = (Ret (), st3)
    \<and> rd_published (redis_ops.truncate V) (store st3) =
        rd_published (redis_ops.truncate V) (store st) @ [(''PubCommonMsg:0x36'', dev_msg MSTDeviceOffline (DeviceId s1) (BindedUsers s1))]
    \<and> udpmap st3 (Addr s2) = None \<and> timer_fresh st1 \<in> set (armed st3) \<and> timers st3 (timer_fresh st1) = Some s2"
proof -
  have "MSTDeviceOffline = 10" by (simp add: MSTDeviceOffline_def)
  then show ?thesis
    using login addr redis_publish.PUBLISH_appends [OF R] redis_publish.HDEL_silent [OF R]
    by (auto simp: AfterFunc_def go_monad Let_def timer_fires_def on_store_def PushDevOfflineMsgToUsers_def)
qed

theorem relogin_timer_witness:
  "\<exists>st1 st2 st3. AfterFunc sample_sess plain_udp = (Ret (), st1) \<and> AfterFunc sample_sess st1 = (Ret (), st2)
    \<and> timer_fires plain_svc 0 st2 = (Ret (), st3)
    \<and> ps_pub (store st3) = [(''PubCommonMsg:0x36'', dev_msg MSTDeviceOffline (- 9) [16])] \<and> udpmap st3 ''1.2.3.4:5'' = None"
proof -
  obtain st1 st2 where 1: "AfterFunc sample_sess plain_udp = (Ret (), st1)" and 2: "AfterFunc sample_sess st1 = (Ret (), st2)"
    by (simp add: AfterFunc_def go_monad)
  have "rd_published plain_redis = ps_pub" "ps_pub (store plain_udp) = []" "timer_fresh plain_udp = 0"
    by (simp_all add: plain_redis_def plain_udp_def empty_store_def)
  moreover have "redis_publish (redis_ops.truncate plain_svc)"
    using plain_publish.redis_publish_axioms by simp
  ultimately show ?thesis
    using relogin_timer [OF _ _ 1 2, of plain_svc] 1 2 by (auto simp: sample_sess_def)
qed

section \<open>Commands that crash the comet\<close>

lemma SaveSession_returns: "\<exists>ok st'. SaveSession V i s st = (Ret ok, st')"
  by (auto simp: SaveSession_def go_monad on_store_def Timer_Reset_def split: option.splits prod.splits)

text \<open>A device with any session can crash the comet: a command without a result (the offline command of a sub-device, a login
  whose body has a wrong length, a registration that is too short) panics, because the session id is copied into an answer that
  does not exist.  A session can be had by anybody, with the token command.\<close>

theorem handle_no_answer_panics:
  assumes "hd m AND 7 = 2" and "check_command m = Some (Inr (n, c, body))" and "16 \<le> length body"
    and "c = CmdSubDeviceOffline \<or> c = CmdLogin \<and> length body \<noteq> 88 \<or> c = CmdRegister \<and> length body < 310"
    and "uu_Parse V (take 16 body) = Some i" and "lookup V (store st) i = Some s" and "VerifySession s n \<noteq> None"
    and "uu_String V i \<notin> set (held st)" and "lock_ok V (trace st) (uu_String V i)"
  shows "fst (handle B V env apiUrl \<lparr>Peer = a, Msg = m, Url = [], CmdType = 0, Input = []\<rparr> st) = Panic"
proof -
  let ?t = "\<lparr>Peer = a, Msg = m, Url = [], CmdType = 0, Input = []\<rparr>"
  have m: "24 \<le> length m" "0x7 AND m ! 0 = 2"
    using assms(1,2) by (cases m; auto simp: check_command_def udp_consts and.commute split: if_splits)+
  obtain s' where s': "VerifySession s n = Some s'" using assms(7) by blast
  have op: "open_session V (take 16 body) n st = (Ret (Inr (i, s')), st\<lparr>held := uu_String V i # held st\<rparr>)"
    using assms(5,6,8,9) s' by (simp add: open_session_def go_monad Lock_def GetSession_eq)
  have cmd: "\<exists>e. on_command V env t s' c body t' = (Ret (Some ((None, Some e), s')), t')" for t t'
    using assms(4) by (auto simp: on_command_def udp_consts onSubDeviceOffline_def onLogin_def onRegister_def go_monad)
  have c: "c \<noteq> CmdSyncState" "c \<noteq> 0x31" "c \<noteq> CmdGetToken"
    using assms(4) by (auto simp: udp_consts)
  have "\<exists>ok t'. SaveSession V i s' (st\<lparr>held := uu_String V i # held st\<rparr>) = (Ret ok, t')" by (rule SaveSession_returns)
  then have "fst (handle_command B V env apiUrl ?t st) = Panic"
    using assms(2,3) c op cmd [of "?t\<lparr>CmdType := c, Url := kApiUrls apiUrl c\<rparr>" "st\<lparr>held := uu_String V i # held st\<rparr>"]
    by (auto simp: handle_command_def go_bind_def go_lift_def go_seq_def stamp_answer_def Unlock_def go_upd_def
        split: prod.splits outcome.splits)
  then show ?thesis using m by (simp add: handle_def udp_consts)
qed

definition sample_offline :: "byte list" where
  "sample_offline = packet (2 # 0 # 5 # replicate 21 0) 0 [0, 0, 0, 0xE6, 0] [0, 0] (replicate 16 7)"

theorem handle_no_answer_panics_witness:
  "fst (handle (plain_hlist True) plain_svc sample_cenv [] \<lparr>Peer = [], Msg = sample_offline, Url = [], CmdType = 0, Input = []\<rparr> sample_udp) = Panic"
proof (rule handle_no_answer_panics)
  show "hd sample_offline AND 7 = 2" by (simp add: sample_offline_def packet_def Let_def)
  have "le_word (take 2 (5 # replicate 21 0)) = (5 :: u16)" "le_word [0xE6, 0] = (0xE6 :: u16)"
    by (simp_all add: take_Cons')
  then show "check_command sample_offline = Some (Inr (5, CmdSubDeviceOffline, replicate 16 7))"
    using check_packet [of "2 # 0 # 5 # replicate 21 0" "[0, 0, 0, 0xE6, 0]" "[0, 0]" "replicate 16 7" 0]
    by (simp add: sample_offline_def CmdSubDeviceOffline_def)
  show "VerifySession sample_sess 5 \<noteq> None" by (simp add: VerifySession_def sample_sess_def)
  show "lookup plain_svc (store sample_udp) (replicate 16 7) = Some sample_sess" by (rule sample_lookup)
qed (simp_all add: sample_lookup sample_udp_rest)

end
