(* ===== verification/UdpRace.thy ===== *)
theory UdpRace
  imports UdpInvariant
begin

text \<open>
  Packets of UDP devices handled at the same time (\<^verbatim>\<open>comet/udp_handler.go\<close>): every packet has a goroutine of its own, and the goroutines share the sessions in redis and their locks.
  The handler is cut into the steps between which goroutines can be interleaved: getting the lock of the session, reading and checking the session, executing
  the command, saving the session, giving the lock back, answering.
\<close>

section \<open>The steps of a goroutine\<close>







section \<open>Alone, the steps are the handler\<close>









section \<open>Several goroutines\<close>






section \<open>What a step does\<close>








text \<open>Operations that touch neither locks nor stored sessions.\<close>

definition quiet :: "'r udp_svc \<Rightarrow> (('e, 'h, 'r) udp, 'a) go \<Rightarrow> bool" where
  "quiet V m \<longleftrightarrow> (\<forall>st x st'. m st = (Ret x, st') \<longrightarrow> held st' = held st \<and> lookup V (store st') = lookup V (store st))"

named_theorems quiets \<open>introduction rules of quiet\<close>

lemma quiet_simple [quiets]: "quiet V (go_ret x)" "quiet V (go_get f)" "quiet V (go_lift v)" "quiet V (note_ev ev)" "quiet V (from_store g)" "quiet V (AfterFunc s)"
  by (auto simp: quiet_def go_monad from_store_def AfterFunc_def Let_def split: option.splits)

lemma quiet_bind [quiets]: "quiet V m \<Longrightarrow> (\<And>x. quiet V (f x)) \<Longrightarrow> quiet V (go_bind m f)"
  unfolding quiet_def by (metis go_bind_RetD)

lemma quiet_seq [quiets]: "quiet V m \<Longrightarrow> quiet V k \<Longrightarrow> quiet V (go_seq m k)"
  by (simp add: go_seq_def quiet_bind)

lemma quiet_cases [quiets]:
  "(b \<Longrightarrow> quiet V m) \<Longrightarrow> (\<not> b \<Longrightarrow> quiet V k) \<Longrightarrow> quiet V (if b then m else k)"
  "quiet V m \<Longrightarrow> (\<And>x. quiet V (f x)) \<Longrightarrow> quiet V (case v of None \<Rightarrow> m | Some x \<Rightarrow> f x)"
  "(\<And>x y. quiet V (g x y)) \<Longrightarrow> quiet V (case p of (x, y) \<Rightarrow> g x y)"
  "(\<And>a b. quiet V (f' a b)) \<Longrightarrow> (\<And>s. quiet V (g' s)) \<Longrightarrow> quiet V k' \<Longrightarrow> quiet V (case j of JNum a b \<Rightarrow> f' a b | JStr s \<Rightarrow> g' s | JOther \<Rightarrow> k')"
  by (simp_all split: option.splits prod.splits json.splits)

lemma quiet_Push2Bus [quiets]: "quiet V (Push2Bus B env src ids msg)"
  unfolding quiet_def by (auto dest: Push2Bus_store)

lemma quiet_send_reply [quiets]: "quiet V (send_reply t res)"
  unfolding send_reply_def udp_Send_def by (intro quiets)


section \<open>What a run keeps\<close>



text \<open>The numbers with which a session has been saved.\<close>

definition saved :: "'r udp_svc \<Rightarrow> byte list \<Rightarrow> (byte list \<times> u16) list \<Rightarrow> u16 list" where
  "saved V i log = map snd (filter (\<lambda>(j, n). uu_String V j = uu_String V i) log)"

lemma saved_append [simp]: "saved V i (log @ log') = saved V i log @ saved V i log'"
  by (simp add: saved_def)



section \<open>Executed commands\<close>


















section \<open>Properties\<close>









end
