(* ===== verification/UdpServer.thy ===== *)
theory UdpServer
  imports UdpInvariant
begin

text \<open>
  The socket of a UDP comet (\<^verbatim>\<open>comet/udp_server.go\<close>): the loop that receives packets into a buffer and gives each to the handler.  The reads
  are a list; the handler copies a packet before it starts its goroutine, which is run to its end at once.
\<close>

section \<open>The loop\<close>





section \<open>Forwarded packets\<close>










end
