(* ===== verification/UdpTask.thy ===== *)
theory UdpTask
  imports BusMan
begin

text \<open>
  Two parts of the comet that no other part calls: binding requests that wait for an answer (\<^verbatim>\<open>comet/udp_task.go\<close>) and the connection object for UDP
  (\<^verbatim>\<open>udpConn\<close> of \<^verbatim>\<open>comet/conn.go\<close>).
\<close>

section \<open>Binding requests\<close>

text \<open>A channel is a number; a send waits for a receiver, so it returns only on a channel somebody receives from (\<open>ready\<close>).  A send on the nil channel
  waits for ever.\<close>

record bindingReq =
  req_deviceId :: i64
  req_userId :: i64

record reqs =
  gReqs :: "bindingReq \<rightharpoonup> nat"
  gReqsMu :: bool
  acks :: "nat list"

definition lockReqs :: "(reqs, unit) go" where
  "lockReqs s = (if gReqsMu s then (Blocked, s) else (Ret (), s\<lparr>gReqsMu := True\<rparr>))"

definition unlockReqs :: "(reqs, unit) go" where
  "unlockReqs = go_upd (\<lambda>s. s\<lparr>gReqsMu := False\<rparr>)"

definition AppendBindingRequest :: "nat \<Rightarrow> i64 \<Rightarrow> i64 \<Rightarrow> (reqs, unit) go" where
  "AppendBindingRequest c deviceId userId =
     go_seq lockReqs
    (go_seq (go_upd (\<lambda>s. s\<lparr>gReqs := (gReqs s)(\<lparr>req_deviceId = deviceId, req_userId = userId\<rparr> \<mapsto> c)\<rparr>)) unlockReqs)"

definition chan_send :: "(nat \<Rightarrow> bool) \<Rightarrow> nat option \<Rightarrow> (reqs, unit) go" where
  "chan_send ready c s = (case c of
     None \<Rightarrow> (Blocked, s)
   | Some k \<Rightarrow> if ready k then (Ret (), s\<lparr>acks := acks s @ [k]\<rparr>) else (Blocked, s))"

text \<open>The result is whether no error is returned.\<close>

definition FinishBindingRequest :: "(nat \<Rightarrow> bool) \<Rightarrow> i64 \<Rightarrow> i64 \<Rightarrow> (reqs, bool) go" where
  "FinishBindingRequest ready deviceId userId =
     go_seq lockReqs
    (go_bind (go_get (\<lambda>s. gReqs s \<lparr>req_deviceId = deviceId, req_userId = userId\<rparr>)) (\<lambda>c.
     go_seq (chan_send ready c) (go_seq unlockReqs (go_ret (c \<noteq> None)))))"

lemmas req_defs = AppendBindingRequest_def FinishBindingRequest_def lockReqs_def unlockReqs_def chan_send_def

text \<open>A request that is answered is found again: it is acknowledged on its channel, and stays in the table.\<close>

theorem FinishBindingRequest_acks:
  assumes "\<not> gReqsMu s" and "ready c"
  shows "\<exists>s'. go_seq (AppendBindingRequest c d u) (FinishBindingRequest ready d u) s = (Ret True, s')
    \<and> acks s' = acks s @ [c] \<and> \<not> gReqsMu s' \<and> gReqs s' = (gReqs s)(\<lparr>req_deviceId = d, req_userId = u\<rparr> \<mapsto> c)"
  using assms by (simp add: req_defs go_monad)

text \<open>An answer to a request that is not in the table waits for ever, with the mutex locked, and with it every later request and answer.\<close>

theorem FinishBindingRequest_unknown_blocks:
  assumes "gReqs s \<lparr>req_deviceId = d, req_userId = u\<rparr> = None"
  shows "\<exists>s'. FinishBindingRequest ready d u s = (Blocked, s') \<and> AppendBindingRequest c d' u' s' = (Blocked, s')
    \<and> FinishBindingRequest ready' d' u' s' = (Blocked, s')"
  using assms by (cases "gReqsMu s") (simp_all add: req_defs go_monad)

section \<open>UDP connections\<close>

definition kUDPHearteat :: int where "kUDPHearteat = 15"

record udpConn =
  uc_peer :: string
  lastHearbeat :: int

datatype conn_error = SessionTimeout | NotUdpAddr

definition udpConn_Timeout :: "int \<Rightarrow> udpConn \<Rightarrow> bool" where
  "udpConn_Timeout now u \<longleftrightarrow> now - lastHearbeat u > 3 * kUDPHearteat"

text \<open>The address is \<^term>\<open>None\<close> when it is not that of a UDP peer.\<close>

definition udpConn_Update :: "int \<Rightarrow> string option \<Rightarrow> udpConn \<Rightarrow> conn_error option \<times> udpConn" where
  "udpConn_Update now addr u =
     (if \<not> udpConn_Timeout now u then (Some SessionTimeout, u)
      else case addr of
        None \<Rightarrow> (Some NotUdpAddr, u)
      | Some a \<Rightarrow> (None, if uc_peer u \<noteq> a then u\<lparr>uc_peer := a\<rparr> else u))"

text \<open>The test is the wrong way round: the address of a connection changes only when it has timed out.\<close>

theorem udpConn_Update_inverted:
  "udpConn_Update now (Some a) u = (if now - lastHearbeat u \<le> 45 then (Some SessionTimeout, u) else (None, u\<lparr>uc_peer := a\<rparr>))"
  by (simp add: udpConn_Update_def udpConn_Timeout_def kUDPHearteat_def)

end
