(* ===== verification/WsHandler.thy ===== *)
theory WsHandler
  imports Client Go_Encoding
begin

text \<open>
  A websocket connection from login to end (\<^verbatim>\<open>comet/websocket.go\<close>).  The state is that of the websocket
  comet together with redis.  The input of a connection is the list of messages received before it fails.

  The websocket package is a parameter, \<open>ws_svc\<close>: whether setting the read deadline succeeds, and what is sent when
  a number is passed to \<^verbatim>\<open>Message.Send\<close> (nothing when the package does not support that).
\<close>

section \<open>Login\<close>

definition LOGIN_PARAM_COUNT :: nat where "LOGIN_PARAM_COUNT = 4"
definition EXPIRE_TIME :: u64 where "EXPIRE_TIME = 60"
definition kLoginKey :: string where "kLoginKey = ''BlackCrystalWb14527''"
definition kDstIdOffset :: nat where "kDstIdOffset = 8"
definition kDstIdEnd :: nat where "kDstIdEnd = kDstIdOffset + 8"

definition AckWrongParams :: "byte list" where "AckWrongParams = [1]"
definition AckWrongLoginDevice :: "byte list" where "AckWrongLoginDevice = [3]"
definition AckServerError :: "byte list" where "AckServerError = [9]"
definition LoginFailed :: nat where "LoginFailed = 2002"

text \<open>\<^verbatim>\<open>getLoginParams\<close>: id, timestamp, timeout and hash, or an error.\<close>

definition getLoginParams :: "string \<Rightarrow> (i64 \<times> u64 \<times> u64 \<times> string) option" where
  "getLoginParams req =
     (let args = split_on CHR ''|'' req
      in if length args \<noteq> LOGIN_PARAM_COUNT then None
         else (case ParseInt (args ! 0) of
           (_, Some _) \<Rightarrow> None
         | (uid, None) \<Rightarrow>
             if args ! 1 = [] then None
             else (case ParseUint (args ! 1) of
               (_, Some _) \<Rightarrow> None
             | (timestamp, None) \<Rightarrow>
                 if args ! 2 = [] then None
                 else (case ParseUint (args ! 2) of
                   (_, Some _) \<Rightarrow> None
                 | (timeout, None) \<Rightarrow> Some (uid, of_nat timestamp, of_nat timeout, args ! 3)))))"

definition login_hash :: "i64 \<Rightarrow> u64 \<Rightarrow> u64 \<Rightarrow> string" where
  "login_hash uid timestamp timeout =
     base64 (md5_Sum (str_bytes (FormatInt uid @ ''|'' @ format_nat (unat timestamp) @ ''|'' @ format_nat (unat timeout) @ ''|'' @ kLoginKey)))"

text \<open>\<^verbatim>\<open>isAuth\<close>: whether there is no error.\<close>

definition isAuth :: "u64 \<Rightarrow> i64 \<Rightarrow> u64 \<Rightarrow> u64 \<Rightarrow> string \<Rightarrow> bool" where
  "isAuth now uid timestamp timeout md5Str =
     (if 0 < timestamp \<and> EXPIRE_TIME \<le> now - timestamp then False
      else login_hash uid timestamp timeout = md5Str)"

section \<open>State\<close>

record ws_svc =
  deadline_ok :: bool
  ws_int :: "nat \<Rightarrow> byte list option"
  gLocalAddr :: string

type_synonym ('e, 'h, 'g, 'r) ws = "('e, 'h, 'g) comet \<times> 'r"

definition in_comet :: "(('e, 'h, 'g) comet, 'a) go \<Rightarrow> (('e, 'h, 'g, 'r) ws, 'a) go" where
  "in_comet m s = (case m (fst s) of (x, c) \<Rightarrow> (x, (c, snd s)))"

definition in_redis :: "('r \<Rightarrow> 'a \<times> 'r) \<Rightarrow> (('e, 'h, 'g, 'r) ws, 'a) go" where
  "in_redis f s = (case f (snd s) of (x, r) \<Rightarrow> (Ret x, (fst s, r)))"

definition ws_send :: "comet_env \<Rightarrow> ws_conn \<Rightarrow> byte list \<Rightarrow> (('e, 'h, 'g, 'r) ws, bool) go" where
  "ws_send env w msg = in_comet (wsConn_Send env (Some w) msg)"

definition ws_close :: "ws_conn \<Rightarrow> (('e, 'h, 'g, 'r) ws, unit) go" where
  "ws_close w = in_comet (wsConn_Close (Some w))"

text \<open>An answer before the connection is closed; its success does not matter.\<close>

definition refuse :: "comet_env \<Rightarrow> ws_conn \<Rightarrow> byte list option \<Rightarrow> (('e, 'h, 'g, 'r) ws, unit) go" where
  "refuse env w ack = go_seq (case ack of Some b \<Rightarrow> ws_send env w b | None \<Rightarrow> go_ret False) (ws_close w)"

section \<open>The connection\<close>

text \<open>The ids of a login: for a user a free phone number is taken and added to the id.  The result is the answer
  to a refused login, or the id, the phone number and the bound ids.\<close>

definition login_ids ::
  "'r redis_ops \<Rightarrow> ws_svc \<Rightarrow> i64 \<Rightarrow> (('e, 'h, 'g, 'r) ws, byte list option + i64 \<times> byte \<times> i64 list) go" where
  "login_ids R W uid =
     (if go_pos uid then
        (if go_rem uid kUseridUnit \<noteq> 0 then go_ret (Inl (Some AckWrongLoginDevice))
         else go_bind (in_redis (SelectMobileId R uid)) (\<lambda>m. case m of
           None \<Rightarrow> go_ret (Inl (Some AckServerError))
         | Some mobileid \<Rightarrow>
             if mobileid = 0 then go_ret (Inl (Some AckWrongLoginDevice))
             else go_bind (in_redis (\<lambda>r. (GetUserDevices R uid r, r))) (\<lambda>bindedIds.
               go_ret (Inr (uid + of_nat (mobileid mod 16), of_nat mobileid, bindedIds)))))
      else if go_neg uid then
        go_bind (in_redis (\<lambda>r. (GetDeviceUsers R uid r, r))) (\<lambda>b. case b of
          None \<Rightarrow> go_ret (Inl (ws_int W LoginFailed))
        | Some bindedIds \<Rightarrow> go_ret (Inr (uid, 0, bindedIds)))
      else go_ret (Inr (uid, 0, [])))"

text \<open>The status message of a board, on line or off line, to all phones of its users.\<close>

definition board_status ::
  "('e, 'h) srv_ops \<Rightarrow> comet_env \<Rightarrow> byte \<Rightarrow> i64 \<Rightarrow> nat \<Rightarrow> (('e, 'h, 'g) comet, unit) go" where
  "board_status B env t uid a =
     go_bind (CalcDestIds a 0) (\<lambda>destIds.
     go_bind (go_lift (status_body t uid)) (\<lambda>body.
     go_bind (go_get (\<lambda>s. clock env (trace s))) (\<lambda>now.
     go_bind (go_lift (MarshalBytes (ucast now) ((status_msg (ucast now) uid)\<lparr>Data := body\<rparr>))) (\<lambda>(m, bytes).
     Push2Bus B env uid destIds bytes))))"

text \<open>The read loop; it ends with the input, after a failed answer to a ping, and at a message too short to hold a
  destination.\<close>

fun read_loop ::
  "('e, 'h) srv_ops \<Rightarrow> comet_env \<Rightarrow> ws_conn \<Rightarrow> i64 \<Rightarrow> nat \<Rightarrow> byte list list \<Rightarrow> (('e, 'h, 'g) comet, unit) go" where
  "read_loop B env w uid a [] = go_ret ()"
| "read_loop B env w uid a (msg # msgs) =
     go_bind (GetBindedIds a) (\<lambda>_.
     if msg = str_bytes ''p'' then
       go_bind (wsConn_Send env (Some w) (str_bytes ''P'')) (\<lambda>ok.
       if ok then read_loop B env w uid a msgs else go_ret ())
     else
       go_seq (note_ev (CStatInc CUpStreamIn))
         (if length msg < kDstIdEnd then go_ret ()
          else
            go_bind (CalcDestIds a (le_word (take 8 (drop kDstIdOffset msg)))) (\<lambda>destIds.
            go_seq (Push2Bus B env uid destIds msg) (read_loop B env w uid a msgs))))"

text \<open>After a successful login: the session exists from here to the end.\<close>

definition serve ::
  "('e, 'h) srv_ops \<Rightarrow> ('f, 'g) sess_ops \<Rightarrow> 'r redis_ops \<Rightarrow> ws_svc \<Rightarrow> comet_env \<Rightarrow> ws_conn \<Rightarrow> i64 \<Rightarrow> byte \<Rightarrow> i64 list \<Rightarrow> byte list list
   \<Rightarrow> (('e, 'h, 'g, 'r) ws, unit) go" where
  "serve B K R W env w uid mid bindedIds msgs =
     go_bind (in_comet (NewWsSession uid bindedIds (Some w))) (\<lambda>a.
     go_bind (in_comet (AddSession K a)) (\<lambda>selement.
     go_seq (if go_neg uid then in_comet (board_status B env MSTDeviceOnline uid a) else go_ret ())
    (go_seq (in_comet (read_loop B env w uid a msgs))
    (go_seq (in_redis (SetUserOffline R uid (gLocalAddr W)))
    (go_seq (if go_pos uid \<and> 0 < mid then go_seq (in_redis (ReturnMobileId R (uid - ucast mid) mid)) (go_ret ()) else go_ret ())
    (go_seq (if go_neg uid then in_comet (board_status B env MSTDeviceOffline uid a) else go_ret ())
       (in_comet (RemoveSession K selement))))))))"

definition WsHandler ::
  "('e, 'h) srv_ops \<Rightarrow> ('f, 'g) sess_ops \<Rightarrow> 'r redis_ops \<Rightarrow> ws_svc \<Rightarrow> comet_env \<Rightarrow> ws_conn \<Rightarrow> byte list list \<Rightarrow> (('e, 'h, 'g, 'r) ws, unit) go" where
  "WsHandler B K R W env w input =
     (if \<not> deadline_ok W then ws_close w
      else case input of
        [] \<Rightarrow> ws_close w
      | reply # msgs \<Rightarrow>
          (case getLoginParams (bytes_str reply) of
             None \<Rightarrow> refuse env w (Some AckWrongParams)
           | Some (uid, timestamp, timeout, encryShadow) \<Rightarrow>
               go_bind (go_get (\<lambda>s. clock env (trace (fst s)))) (\<lambda>now.
               if \<not> isAuth now uid timestamp timeout encryShadow then refuse env w (ws_int W LoginFailed)
               else go_bind (login_ids R W uid) (\<lambda>r. case r of
                 Inl ack \<Rightarrow> refuse env w ack
               | Inr (uid, mid, bindedIds) \<Rightarrow>
                   go_seq (in_comet (note_ev (CStatInc CConnTotal)))
                  (go_seq (in_comet (note_ev (CStatInc CConnOnline)))
                  (go_seq
                    (go_bind (ws_send env w (if go_pos uid then [0, mid] else [0])) (\<lambda>ok.
                     if \<not> ok then ws_close w
                     else go_bind (in_redis (SetUserOnline R uid (gLocalAddr W))) (\<lambda>r.
                       if r = None then ws_close w
                       else serve B K R W env w uid mid bindedIds msgs)))
                    (in_comet (note_ev (CStatDec CConnOnline)))))))))"

section \<open>Authentication\<close>

text \<open>C34: A login is accepted only within a minute: when the clock is at least one minute past its epoch, a timestamp other than 0
  is accepted exactly when it is not in the future and less than 60 seconds old (the 64-bit difference wraps around for future ones), and always only with the hash of id, timestamp
  and timeout; timestamp 0 never expires.\<close>

theorem isAuth_window:
  assumes "60 \<le> now"
  shows "isAuth now uid timestamp timeout h \<longleftrightarrow>
    h = login_hash uid timestamp timeout \<and> (timestamp = 0 \<or> timestamp \<le> now \<and> unat now < unat timestamp + 60)"
proof -
  have "60 \<le> now - timestamp \<longleftrightarrow> \<not> (timestamp \<le> now \<and> unat now < unat timestamp + 60)" if "0 < timestamp"
  proof (cases "timestamp \<le> now")
    case True
    then have "unat (now - timestamp) = unat now - unat timestamp" by (rule unat_sub)
    then show ?thesis using True by (auto simp: word_le_nat_alt)
  next
    case False
    have lt: "unat now < unat timestamp" "unat timestamp < 2 ^ 64" "60 \<le> unat now"
      using False assms unsigned_less [of timestamp, where 'a = nat] by (simp_all add: word_le_nat_alt)
    have "unat (now - timestamp) = 2 ^ 64 + unat now - unat timestamp"
      using lt by (simp add: unat_sub_if_size word_size word_le_nat_alt)
    then show ?thesis using False lt by (simp add: word_le_nat_alt)
  qed
  then show ?thesis
    by (auto simp: isAuth_def EXPIRE_TIME_def word_neq_0_conv)
qed

theorem isAuth_window_witness:
  "isAuth 1000 16 950 0 (login_hash 16 950 0) \<and> \<not> isAuth 1000 16 900 0 (login_hash 16 900 0) \<and> \<not> isAuth 1000 16 1001 0 (login_hash 16 1001 0)"
  using isAuth_window [of 1000 16 950 0 "login_hash 16 950 0"] isAuth_window [of 1000 16 900 0 "login_hash 16 900 0"]
    isAuth_window [of 1000 16 1001 0 "login_hash 16 1001 0"] by simp

lemma b64_char_no_bar: "b64_char n \<noteq> CHR ''|''"
proof
  assume "b64_char n = CHR ''|''"
  then have "(of_char (b64_char n) :: nat) = 124" by simp
  then show False
    by (auto simp: b64_char_def of_char_of take_bit_nat_def split: if_splits)
qed

lemma base64_no_bar: "CHR ''|'' \<notin> set (base64 bs)"
  by (induction bs rule: base64.induct) (simp_all add: Let_def b64_char_no_bar not_sym [OF b64_char_no_bar])

lemma ParseUint_format: "n < 2 ^ 64 \<Longrightarrow> ParseUint (format_nat n) = (n, None)"
  by (simp add: ParseUint_def parse_format_nat)

lemma getLoginParams_login:
  "getLoginParams (FormatInt uid @ ''|'' @ format_nat (unat timestamp) @ ''|'' @ format_nat (unat timeout) @ ''|'' @ login_hash uid' ts' to')
   = Some (uid, timestamp, timeout, login_hash uid' ts' to')"
proof -
  have n: "CHR ''|'' \<notin> set (FormatInt uid)" "CHR ''|'' \<notin> set (format_nat k)" "CHR ''|'' \<notin> set (login_hash uid' ts' to')" for k
    by (rule FormatInt_no_char, simp, simp) (simp_all add: format_nat_no_char base64_no_bar login_hash_def)
  have "split_on CHR ''|'' (FormatInt uid @ ''|'' @ format_nat (unat timestamp) @ ''|'' @ format_nat (unat timeout) @ ''|'' @ login_hash uid' ts' to')
      = [FormatInt uid, format_nat (unat timestamp), format_nat (unat timeout), login_hash uid' ts' to']"
    using n by (simp add: split_on_append split_on_none)
  moreover have "unat w < 2 ^ 64" for w :: u64 using unsigned_less [of w, where 'a = nat] by simp
  ultimately show ?thesis
    by (simp add: getLoginParams_def LOGIN_PARAM_COUNT_def ParseUint_format Let_def)
qed

lemma bytes_str_bytes [simp]: "bytes_str (str_bytes s) = s"
  by (simp add: bytes_str_def str_bytes_def comp_def unsigned_of_nat take_bit_nat_def)

text \<open>The login string of the web server is understood: the string made of an id, a timestamp, a timeout and their hash is parsed
  into exactly these, whatever their values.\<close>

theorem getLoginParams_roundtrip:
  "getLoginParams (FormatInt uid @ ''|'' @ format_nat (unat timestamp) @ ''|'' @ format_nat (unat timeout) @ ''|'' @ login_hash uid' ts' to')
   = Some (uid, timestamp, timeout, login_hash uid' ts' to')"
  by (rule getLoginParams_login)

section \<open>The read loop\<close>

text \<open>Nothing but the trace and the bus connections changes.\<close>

definition same_table :: "('e, 'h, 'g) comet \<Rightarrow> ('e, 'h, 'g) comet \<Rightarrow> bool" where
  "same_table c c' \<longleftrightarrow> onlined c' = onlined c \<and> heap c' = heap c \<and> sess_fresh c' = sess_fresh c \<and> (\<exists>es. trace c' = trace c @ es)"

lemma same_table_refl [simp]: "same_table c c"
  by (simp add: same_table_def)



lemma same_tableD:
  "same_table c c' \<Longrightarrow> heap c' = heap c" "same_table c c' \<Longrightarrow> on_get c' = on_get c" "same_table c c' \<Longrightarrow> sess_list K c' = sess_list K c"
  "same_table c c' \<Longrightarrow> table_inv K c' = table_inv K c"
  by (simp_all add: same_table_def on_get_def sess_list_def fun_eq_iff table_inv_def sess_wf_def)

lemma Push2Bus_table:
  assumes "frame_fits ids msg"
  obtains c' where "Push2Bus B env src ids msg c = (Ret (), c')" and "same_table c c'"
proof -
  have "\<exists>c'. Push2Bus B env src ids msg c = (Ret (), c') \<and> same_table c c'"
    using assms by (auto simp: Push2Bus_def push_data_exact go_monad MsgBusServer_Send_def Let_def same_table_def split: option.splits if_splits)
  then show ?thesis using that by blast
qed

lemma CalcDestIds_eq:
  "heap c a = Some ses \<Longrightarrow> on_get c (Uid ses) \<noteq> None \<Longrightarrow> CalcDestIds a toId c = (Ret (calcDestIds ses toId), c)"
  by (simp add: CalcDestIds_def deref_eq go_monad)


section \<open>The life of a connection\<close>

lemma in_comet_Ret: "m c = (Ret x, c') \<Longrightarrow> in_comet m (c, r) = (Ret x, (c', r))"
  by (simp add: in_comet_def)

lemma in_redis_eq: "in_redis f (c, r) = (Ret (fst (f r)), (c, snd (f r)))"
  by (simp add: in_redis_def split: prod.splits)


lemma sess_list_fresh [simp]: "sess_list K (c\<lparr>heap := h, sess_fresh := n\<rparr>) = sess_list K c"
  by (simp add: sess_list_def on_get_def fun_eq_iff)


context redis_sessions
begin

lemma select_loop_hashes:
  "rd_count R k f (snd (select_loop R key mids r)) = rd_count R k f r \<and> rd_published R (snd (select_loop R key mids r)) = rd_published R r"
proof (induction mids arbitrary: r)
  case (Cons m mids)
  obtain n r' where "rd_SADD R key (format_nat m) r = (n, r')" by fastforce
  then have "rd_count R k f r' = rd_count R k f r" "rd_published R r' = rd_published R r"
    using SADD_hashes(1) [of k f key "format_nat m" r] SADD_hashes(2) [of key "format_nat m" r] by simp_all
  then show ?case using Cons [of r'] \<open>rd_SADD R key (format_nat m) r = (n, r')\<close> by simp
qed simp

lemma online_offline:
  assumes "\<And>r. rd_up R r" and "rd_count R (HostUsers host) (FormatInt uid) r = 0"
  shows "\<exists>r1 r2. SetUserOnline R uid host r = (Some True, r1) \<and> snd (SetUserOffline R uid host r1) = r2
    \<and> mem r2 = mem r \<and> (\<forall>k f. rd_count R k f r2 = rd_count R k f r)
    \<and> rd_published R r2 = rd_published R r @ [(PubKey, FormatInt uid @ ''|'' @ host @ ''|1''), (PubKey, FormatInt uid @ ''|'' @ host @ ''|0'')]"
proof -
  let ?k = "HostUsers host" and ?f = "FormatInt uid"
  let ?p1 = "rd_PUBLISH R PubKey (?f @ ''|'' @ host @ ''|1'')" and ?p0 = "rd_PUBLISH R PubKey (?f @ ''|'' @ host @ ''|0'')"
  let ?r1 = "?p1 (snd (rd_HINCRBY R ?k ?f 1 r))"
  let ?r2 = "rd_HDEL R ?k ?f (?p0 (snd (rd_HINCRBY R ?k ?f (- 1) ?r1)))"
  have on: "SetUserOnline R uid host r = (Some True, ?r1)"
    using assms HINCRBY_result [of ?k ?f 1 r]
    by (cases "rd_HINCRBY R ?k ?f 1 r") (simp add: SetUserOnline_def scriptOnline_def Let_def)
  have "rd_count R ?k ?f ?r1 = 1" using assms(2) by (simp add: HINCRBY_count)
  then have off: "snd (SetUserOffline R uid host ?r1) = ?r2"
    using assms(1) HINCRBY_result [of ?k ?f "- 1" ?r1]
    by (cases "rd_HINCRBY R ?k ?f (- 1) ?r1") (simp add: SetUserOffline_def scriptOffline_def Let_def)
  have "mem ?r2 = mem r" by simp
  moreover have "rd_count R k f ?r2 = rd_count R k f r" for k f
    using assms(2) by (simp add: HDEL_count HINCRBY_count)
  moreover have "rd_published R ?r2 = rd_published R r @ [(PubKey, ?f @ ''|'' @ host @ ''|1''), (PubKey, ?f @ ''|'' @ host @ ''|0'')]"
    by simp
  ultimately show ?thesis using on off by blast
qed

end

lemma phone_facts:
  assumes "user_id u" and "m \<in> {1..<16}"
  shows "go_pos (u + of_nat m)" "0 < (of_nat m :: byte)" "u + of_nat m - ucast (of_nat m :: byte) = u" "unat (of_nat m :: byte) = m"
proof -
  show "go_pos (u + of_nat m)"
    using phone_sint [OF assms(1), of m] user_id_mod [OF assms(1)] assms(2) by (simp add: go_pos_def)
  show un: "unat (of_nat m :: byte) = m" using assms(2) by (simp add: unsigned_of_nat take_bit_nat_eq_self)
  then show "0 < (of_nat m :: byte)" using assms(2) by (simp add: word_less_nat_alt)
  have "(ucast (of_nat m :: byte) :: i64) = of_nat m" 
    using un by (metis of_nat_unat)
  then show "u + of_nat m - ucast (of_nat m :: byte) = u" by simp
qed

context redis_sessions
begin

text \<open>A login takes the user's smallest free phone number and changes nothing else.\<close>

lemma login_ids_user:
  assumes up: "\<And>r. rd_up R r" and u: "user_id u"
    and free: "filter (\<lambda>m. format_nat m \<notin> mem r (RedisUserMobiles u)) [1..<16] = m # ms"
  obtains r' where "login_ids R W u (c, r) = (Ret (Inr (u + of_nat m, of_nat m, GetUserDevices R u r')), (c, r'))"
    and "mem r' = (mem r)(RedisUserMobiles u := insert (format_nat m) (mem r (RedisUserMobiles u)))"
    and "\<And>k f. rd_count R k f r' = rd_count R k f r" and "rd_published R r' = rd_published R r" and "m \<in> {1..<16}"
    and "r' = snd (SelectMobileId R u r)"
proof -
  let ?key = "RedisUserMobiles u"
  define r' where "r' = snd (select_loop R ?key [1..<16] r)"
  have spec: "fst (select_loop R ?key [1..<16] r) = m \<and> mem r' = (mem r)(?key := insert (format_nat m) (mem r ?key))"
    using select_loop_spec [OF redis_sets_axioms, where r = r and key = ?key and mids = "[1..<16]"] free by (simp add: r'_def)
  have sel: "SelectMobileId R u r = (Some m, r')"
    using up spec by (cases "select_loop R ?key [1..<16] r") (simp add: SelectMobileId_def scriptSelectMobileId_def r'_def)
  have "m \<in> set (filter (\<lambda>m. format_nat m \<notin> mem r ?key) [1..<16])" using free by simp
  then have m: "m \<in> {1..<16}" by (simp only: set_filter mem_Collect_eq set_upt)
  have "login_ids R W u (c, r) = (Ret (Inr (u + of_nat m, of_nat m, GetUserDevices R u r')), (c, r'))"
    using u m sel by (simp add: login_ids_def user_id_def go_bind_def in_redis_eq go_ret_def)
  moreover have "rd_count R k f r' = rd_count R k f r" "rd_published R r' = rd_published R r" for k f
    unfolding r'_def using select_loop_hashes [of k f ?key "[1..<16]" r] by blast+
  ultimately show ?thesis using that m spec sel by simp
qed

lemma mem_returned:
  assumes "\<And>r. rd_up R r" and "format_nat m \<notin> mem r0 (RedisUserMobiles u)" and "unat mid = m"
    and "mem r = (mem r0)(RedisUserMobiles u := insert (format_nat m) (mem r0 (RedisUserMobiles u)))"
  shows "mem (snd (ReturnMobileId R u mid r)) = mem r0"
    and "rd_count R k f (snd (ReturnMobileId R u mid r)) = rd_count R k f r"
    and "rd_published R (snd (ReturnMobileId R u mid r)) = rd_published R r"
  using assms by (auto simp: ReturnMobileId_def SREM_mem fun_eq_iff)

end

text \<open>Up to the answer of the login, for a user whose login is accepted.\<close>

definition acked :: "ws_conn \<Rightarrow> comet_event list \<Rightarrow> comet_event list" where
  "acked w tr = tr @ [CStatInc CConnTotal, CStatInc CConnOnline]"

lemma WsHandler_accepted:
  assumes "deadline_ok W" and "getLoginParams (bytes_str login) = Some (u, ts, to, h)" and "isAuth (clock env (trace c)) u ts to h"
    and "login_ids R W u (c, r) = (Ret (Inr (uid, mid, ids)), (c, r'))"
  shows "WsHandler B K R W env w (login # msgs) (c, r) =
    go_seq
      (go_bind (ws_send env w (if go_pos uid then [0, mid] else [0])) (\<lambda>ok.
       if \<not> ok then ws_close w
       else go_bind (in_redis (SetUserOnline R uid (gLocalAddr W))) (\<lambda>r.
         if r = None then ws_close w
         else serve B K R W env w uid mid ids msgs)))
      (in_comet (note_ev (CStatDec CConnOnline))) (c\<lparr>trace := acked w (trace c)\<rparr>, r')"
  using assms by (simp add: WsHandler_def go_bind_def go_seq_def go_get_def in_comet_def acked_def)


text \<open>The login of user 16 on an idle comet.\<close>

definition sample_login :: "byte list" where
  "sample_login = str_bytes (FormatInt 16 @ ''|'' @ format_nat (unat (0 :: u64)) @ ''|'' @ format_nat (unat (0 :: u64)) @ ''|'' @ login_hash 16 0 0)"

definition sample_ws :: ws_svc where
  "sample_ws = \<lparr>deadline_ok = True, ws_int = \<lambda>_. None, gLocalAddr = ''h''\<rparr>"

lemma sample_login_ok:
  "getLoginParams (bytes_str sample_login) = Some (16, 0, 0, login_hash 16 0 0)" "isAuth now 16 0 0 (login_hash 16 0 0)"
  by (simp_all only: sample_login_def bytes_str_bytes getLoginParams_login) (simp add: isAuth_def)

lemma sample_free: "filter (\<lambda>m. format_nat m \<notin> set (ps_set empty_store k)) [1..<16] = 1 # [2..<16]"
proof -
  have "[1..<16] = 1 # [2..<16 :: nat]" by (simp add: upt_rec)
  then show ?thesis by (simp add: empty_store_def)
qed

lemma sample_user: "user_id 16"
  by (simp add: user_id_def go_pos_def go_rem_def kUseridUnit_def)


lemma sample_world:
  "rd_up plain_redis r" "ws_ok sample_cenv tr w msg" "rd_count plain_redis k f empty_store = 0" "rd_published plain_redis = ps_pub"
  "ps_pub empty_store = []" "deadline_ok sample_ws" "gLocalAddr sample_ws = ''h''"
  by (simp_all add: plain_redis_def sample_cenv_def empty_store_def sample_ws_def)


text \<open>A phone number can be lost: when the answer to an accepted login cannot be sent, the connection is closed and the handler returns without a session
  and without a notice, but the phone number it took stays taken in redis.\<close>

theorem WsHandler_number_lost:
  assumes "redis_sessions R mem" and up: "\<And>r. rd_up R r" and W: "deadline_ok W"
    and login: "getLoginParams (bytes_str login) = Some (u, ts, to, h)" "isAuth (clock env (trace c)) u ts to h"
    and u: "user_id u" and free: "filter (\<lambda>m. format_nat m \<notin> mem r (RedisUserMobiles u)) [1..<16] = m # ms"
    and fails: "\<And>tr. \<not> ws_ok env tr w [0, of_nat m]"
  shows "\<exists>c' r'. WsHandler B K R W env w (login # msgs) (c, r) = (Ret (), (c', r'))
    \<and> sess_list K c' = sess_list K c \<and> rd_published R r' = rd_published R r
    \<and> trace c' = trace c @ [CStatInc CConnTotal, CStatInc CConnOnline, WsFail w, WsClose w, CStatDec CConnOnline]
    \<and> mem r' = (mem r)(RedisUserMobiles u := insert (format_nat m) (mem r (RedisUserMobiles u)))"
proof -
  obtain r0 where ids: "login_ids R W u (c, r) = (Ret (Inr (u + of_nat m, of_nat m, GetUserDevices R u r0)), (c, r0))"
    and r0: "mem r0 = (mem r)(RedisUserMobiles u := insert (format_nat m) (mem r (RedisUserMobiles u)))"
      "rd_published R r0 = rd_published R r" and m: "m \<in> {1..<16}"
    using redis_sessions.login_ids_user [OF assms(1) up u free, where c = c and W = W] by metis
  let ?c = "c\<lparr>trace := acked w (trace c) @ [WsFail w, WsClose w, CStatDec CConnOnline]\<rparr>"
  have "WsHandler B K R W env w (login # msgs) (c, r) = (Ret (), (?c, r0))"
    using phone_facts(1) [OF u m] fails
    by (simp add: WsHandler_accepted [OF W login ids] go_seq_def go_bind_def in_comet_def ws_send_def wsConn_Send_def ws_close_def wsConn_Close_def
        go_lift_def go_get_def go_ret_def)
  moreover have "sess_list K ?c = sess_list K c" by (simp add: sess_list_def on_get_def fun_eq_iff)
  ultimately show ?thesis using r0 by (simp add: acked_def)
qed

theorem WsHandler_number_lost_witness:
  "\<exists>c' r'. WsHandler (plain_hlist True) (plain_hlist True) plain_redis sample_ws (sample_cenv\<lparr>ws_ok := \<lambda>_ _ _. False\<rparr>) 5 [sample_login] (empty_comet, empty_store)
    = (Ret (), (c', r')) \<and> set (ps_set r' (RedisUserMobiles 16)) = {format_nat 1}"
proof -
  obtain c' r' where run: "WsHandler (plain_hlist True) (plain_hlist True) plain_redis sample_ws (sample_cenv\<lparr>ws_ok := \<lambda>_ _ _. False\<rparr>) 5 [sample_login] (empty_comet, empty_store)
      = (Ret (), (c', r'))"
    and m: "(\<lambda>k. set (ps_set r' k)) = (\<lambda>k. set (ps_set empty_store k))(RedisUserMobiles 16 := insert (format_nat 1) (set (ps_set empty_store (RedisUserMobiles 16))))"
    using WsHandler_number_lost [OF plain_sessions.redis_sessions_axioms sample_world(1,6) sample_login_ok sample_user sample_free,
        where msgs = "[]" and B = "plain_hlist True" and K = "plain_hlist True" and w = 5 and env = "sample_cenv\<lparr>ws_ok := \<lambda>_ _ _. False\<rparr>"
        and c = empty_comet] by auto
  have "set (ps_set r' (RedisUserMobiles 16)) = {format_nat 1}" using fun_cong [OF m, of "RedisUserMobiles 16"] by (simp add: empty_store_def)
  then show ?thesis using run by blast
qed

text \<open>What becomes of a message that is not a ping.\<close>

definition forward_one :: "('e, 'h) srv_ops \<Rightarrow> comet_env \<Rightarrow> i64 \<Rightarrow> Session \<Rightarrow> byte list \<Rightarrow> (('e, 'h, 'g) comet, unit) go" where
  "forward_one B env uid ses msg =
     go_seq (note_ev (CStatInc CUpStreamIn)) (Push2Bus B env uid (calcDestIds ses (le_word (take 8 (drop 8 msg)))) msg)"

text \<open>C27: Every message of a logged-in client is routed: of a connection whose session is in the table, each received message, as long as it is not a ping and has 16 bytes
  or more, is given to the bus in order, for the destinations computed from the id it carries and the session; nothing else is sent.\<close>

theorem read_loop_forwards:
  assumes "heap c a = Some ses" and "on_get c (Uid ses) \<noteq> None"
    and "\<forall>msg \<in> set msgs. 16 \<le> length msg \<and> (\<forall>toId. frame_fits (calcDestIds ses toId) msg)"
  shows "read_loop B env w uid a msgs c =
    go_each (forward_one B env uid ses) msgs c"
  using assms
proof (induction msgs arbitrary: c)
  case Nil
  then show ?case by (simp add: go_monad)
next
  case (Cons msg msgs)
  have bound: "GetBindedIds a c = (Ret (BindedIds ses), c)"
    using Cons.prems(1) by (simp add: GetBindedIds_def deref_eq go_monad)
  let ?c = "c\<lparr>trace := trace c @ [CStatInc CUpStreamIn]\<rparr>" and ?ids = "calcDestIds ses (le_word (take 8 (drop 8 msg)))"
  have long: "16 \<le> length msg" using Cons.prems(3) by simp
  then have "msg \<noteq> str_bytes ''p''" by (auto simp: str_bytes_def)
  moreover obtain c1 where push: "Push2Bus B env uid ?ids msg ?c = (Ret (), c1)" "same_table ?c c1"
    using Push2Bus_table [of ?ids msg] Cons.prems(3) by (metis list.set_intros(1))
  moreover have "CalcDestIds a (le_word (take 8 (drop 8 msg))) ?c = (Ret ?ids, ?c)"
    using Cons.prems by (intro CalcDestIds_eq) simp_all
  moreover have "read_loop B env w uid a msgs c1 =
      go_each (forward_one B env uid ses) msgs c1"
    using Cons.IH [of c1] Cons.prems same_tableD(1,2) [OF push(2)] by simp
  moreover have "forward_one B env uid ses msg c = (Ret (), c1)" using push(1) by (simp add: forward_one_def go_seq_def go_bind_def)
  ultimately show ?case
    using bound long by (simp add: go_bind_def go_seq_def kDstIdEnd_def kDstIdOffset_def)
qed

lemma go_seq_ret: "go_seq m (go_ret ()) = m"
  by (rule ext) (simp add: go_seq_def go_bind_def go_ret_def split: outcome.splits prod.splits)

theorem read_loop_forwards_witness:
  "read_loop (plain_hlist True) sample_cenv 3 17 0 [replicate 8 0 @ le_bytes 8 (- 9 :: i64)] sample_comet =
    go_seq (note_ev (CStatInc CUpStreamIn)) (Push2Bus (plain_hlist True) sample_cenv 17 [- 9] (replicate 8 0 @ le_bytes 8 (- 9 :: i64))) sample_comet"
proof -
  have h: "heap sample_comet 0 = Some sample_session" by (rule sample_comet_facts)
  have on: "on_get sample_comet (Uid sample_session) \<noteq> None"
    using sample_comet_facts(2) by (auto simp: sess_list_def sample_session_def split: option.splits)
  have ids: "calcDestIds sample_session (- 9) = [- 9]" "length (calcDestIds sample_session toId) \<le> 2" for toId
    by (auto simp: calcDestIds_def sample_session_def go_pos_def go_neg_def isBinded_def)
  have "frame_fits (calcDestIds sample_session toId) (replicate 8 0 @ le_bytes 8 (- 9 :: i64))" for toId
    using ids(2) [of toId] by (simp add: frame_fits_def)
  then have fits: "\<forall>msg \<in> set [replicate 8 0 @ le_bytes 8 (- 9 :: i64)]. 16 \<le> length msg \<and> (\<forall>toId. frame_fits (calcDestIds sample_session toId) msg)" by simp
  have "read_loop (plain_hlist True) sample_cenv 3 17 0 [replicate 8 0 @ le_bytes 8 (- 9 :: i64)] sample_comet =
      go_each (forward_one (plain_hlist True) sample_cenv 17 sample_session) [replicate 8 0 @ le_bytes 8 (- 9 :: i64)] sample_comet"
    by (rule read_loop_forwards [OF h on fits])
  then show ?thesis by (simp only: go_each.simps go_seq_ret forward_one_def) (simp add: ids(1))
qed

end
