(* ===== verification/BusRace.thy ===== *)
theory BusRace
  imports BusMan "HOL-Library.Multiset"
begin

text \<open>
  Concurrent pushes to the buses (\<^verbatim>\<open>comet/msgbus_man.go\<close>).  Every websocket connection and every UDP packet has a goroutine of its own that
  may call \<open>Push2Bus\<close>, which reads \<^verbatim>\<open>curr\<close> twice and sends before it takes the mutex; a bus that goes online or offline holds the mutex all the
  time.  Here \<open>Push2Bus\<close> is cut into the steps between which another goroutine can run, and a schedule is an explicit list of such
  steps.  A write on a connection is one step: Go's connections serialise concurrent writes.
\<close>

section \<open>The steps of Push2Bus\<close>

text \<open>Where a goroutine stands: about to test \<^verbatim>\<open>curr\<close>, to read the server it points to, to send, to take the mutex and move \<^verbatim>\<open>curr\<close> on, to count.\<close>

datatype pc = Idle | Check "byte list" | LoadCurr "byte list" | SendTo MsgBusServer "byte list" | Advance | Count

record ('e, 'h) race =
  man :: "('e, 'h) busman"
  pcs :: "pc list"
  crashed :: bool

definition set_pc :: "nat \<Rightarrow> pc \<Rightarrow> ('e, 'h) race \<Rightarrow> ('e, 'h) race" where
  "set_pc i p st = st\<lparr>pcs := (pcs st)[i := p]\<rparr>"

definition pc_step :: "('e, 'h) srv_ops \<Rightarrow> comet_env \<Rightarrow> nat \<Rightarrow> ('e, 'h) race \<Rightarrow> ('e, 'h) race" where
  "pc_step B env i st = (case pcs st ! i of
     Idle \<Rightarrow> st
   | Check b \<Rightarrow> set_pc i (if bm_curr (man st) \<noteq> None then LoadCurr b else Count) st
   | LoadCurr b \<Rightarrow> (case bm_curr (man st) of
       None \<Rightarrow> st\<lparr>crashed := True\<rparr>
     | Some e \<Rightarrow> set_pc i (SendTo (hl_Value B e) b) st)
   | SendTo srv b \<Rightarrow> set_pc i Advance (st\<lparr>man := snd (MsgBusServer_Send env srv b (man st))\<rparr>)
   | Advance \<Rightarrow> (case bm_curr (man st) of
       None \<Rightarrow> st\<lparr>crashed := True\<rparr>
     | Some e \<Rightarrow> set_pc i Count (st\<lparr>man := (man st)\<lparr>bm_curr := (case hl_Next B (bm_list (man st)) e of
           Some e' \<Rightarrow> Some e'
         | None \<Rightarrow> hl_Front B (bm_list (man st)))\<rparr>\<rparr>))
   | Count \<Rightarrow> set_pc i Idle (st\<lparr>man := snd (note_ev (CStatInc CUpStreamOut) (man st))\<rparr>))"

section \<open>Schedules\<close>

datatype label = LThread nat | LCall nat i64 "i64 list" "byte list" | LOnline string | LOffline nat

definition man_call :: "(('e, 'h) busman, unit) go \<Rightarrow> ('e, 'h) race \<Rightarrow> ('e, 'h) race" where
  "man_call f st = (case f (man st) of
     (Ret _, m) \<Rightarrow> st\<lparr>man := m\<rparr>
   | (_, m) \<Rightarrow> st\<lparr>man := m, crashed := True\<rparr>)"

text \<open>A step, \<^term>\<open>None\<close> when it is not possible: a program that has crashed does nothing, a goroutine calls \<open>Push2Bus\<close> when it is idle.\<close>

fun race_step :: "('e, 'h) srv_ops \<Rightarrow> comet_env \<Rightarrow> label \<Rightarrow> ('e, 'h) race \<Rightarrow> ('e, 'h) race option" where
  "race_step B env (LThread i) st =
     (if \<not> crashed st \<and> i < length (pcs st) \<and> pcs st ! i \<noteq> Idle then Some (pc_step B env i st) else None)"
| "race_step B env (LCall i src ids msg) st =
     (if \<not> crashed st \<and> i < length (pcs st) \<and> pcs st ! i = Idle
      then Some (case push_data src ids msg of None \<Rightarrow> st\<lparr>crashed := True\<rparr> | Some b \<Rightarrow> set_pc i (Check b) st)
      else None)"
| "race_step B env (LOnline addr) st = (if crashed st then None else Some (man_call (Online B env addr) st))"
| "race_step B env (LOffline p) st = (if crashed st then None else Some (man_call (onMsgBusCloseEvent B p) st))"

fun race_run :: "('e, 'h) srv_ops \<Rightarrow> comet_env \<Rightarrow> label list \<Rightarrow> ('e, 'h) race \<Rightarrow> ('e, 'h) race option" where
  "race_run B env [] st = Some st"
| "race_run B env (l # ls) st = Option.bind (race_step B env l st) (race_run B env ls)"

lemma race_run_append: "race_run B env (xs @ ys) st = Option.bind (race_run B env xs st) (race_run B env ys)"
  by (induction xs arbitrary: st) (auto simp: Option.bind_assoc intro: Option.bind_cong)

section \<open>Invariant\<close>

lemma Send_frame: "\<exists>es. MsgBusServer_Send env srv b m = (Ret (), m\<lparr>trace := trace m @ es\<rparr>)"
  by (cases "srv_conn srv") (auto simp: MsgBusServer_Send_def go_monad Let_def intro: exI [of _ "[]"])

lemma Send_fields [simp]:
  "bm_list (snd (MsgBusServer_Send env srv b m)) = bm_list m" "bm_curr (snd (MsgBusServer_Send env srv b m)) = bm_curr m"
  "busman_wf B (snd (MsgBusServer_Send env srv b m)) = busman_wf B m"
proof -
  obtain es where "MsgBusServer_Send env srv b m = (Ret (), m\<lparr>trace := trace m @ es\<rparr>)" using Send_frame by blast
  then show "bm_list (snd (MsgBusServer_Send env srv b m)) = bm_list m" "bm_curr (snd (MsgBusServer_Send env srv b m)) = bm_curr m"
    "busman_wf B (snd (MsgBusServer_Send env srv b m)) = busman_wf B m" by simp_all
qed

lemma set_pc_fields [simp]: "man (set_pc i p st) = man st" "crashed (set_pc i p st) = crashed st" "pcs (set_pc i p st) = (pcs st)[i := p]"
  by (simp_all add: set_pc_def)

lemma man_call_man [simp]: "man (man_call f st) = snd (f (man st))"
  by (simp add: man_call_def split: prod.splits outcome.splits)

context srv_lists
begin

lemma wf_advance:
  assumes "busman_wf B m" and "bm_curr m = Some e"
  shows "\<exists>e'. (case hl_Next B (bm_list m) e of Some e' \<Rightarrow> Some e' | None \<Rightarrow> hl_Front B (bm_list m)) = Some e' \<and> busman_wf B (m\<lparr>bm_curr := Some e'\<rparr>)"
proof -
  obtain i where i: "i < length (hl_elems B (bm_list m))" "e = hl_elems B (bm_list m) ! i"
    using assms by (auto simp: busman_wf_def in_set_conv_nth)
  moreover have "hl_elems B (bm_list m) ! (Suc i mod length (hl_elems B (bm_list m))) \<in> set (hl_elems B (bm_list m))"
    using i(1) by (intro nth_mem mod_less_divisor) linarith
  ultimately show ?thesis
    using assms(1) next_or_front [OF elems_distinct i(1)] by (auto simp: busman_wf_def)
qed

lemma wf_race_step:
  assumes "busman_wf B (man st)" and "race_step B env l st = Some st'"
  shows "busman_wf B (man st')"
proof (cases l)
  case (LThread i)
  show ?thesis
  proof (cases "pcs st ! i = Advance \<and> bm_curr (man st) \<noteq> None")
    case True
    then show ?thesis
      using assms LThread wf_advance [OF assms(1)] by (fastforce simp: pc_step_def split: if_splits)
  next
    case False
    then show ?thesis
      using assms LThread by (auto simp: pc_step_def split: if_splits pc.splits option.splits)
  qed
qed (use assms in \<open>auto simp: wf_Online wf_Offline onMsgBusCloseEvent_def split: if_splits option.splits\<close>)

lemma wf_race_run: "busman_wf B (man st) \<Longrightarrow> race_run B env ls st = Some st' \<Longrightarrow> busman_wf B (man st')"
  by (induction ls arbitrary: st) (auto simp: bind_eq_Some_conv dest: wf_race_step)

end

section \<open>Delivery\<close>

text \<open>The frames still to be sent by the goroutines, the frames written, and the frames of the calls of a schedule.\<close>

fun pc_frame :: "pc \<Rightarrow> byte list multiset" where
  "pc_frame (Check b) = {#framed b#}"
| "pc_frame (LoadCurr b) = {#framed b#}"
| "pc_frame (SendTo srv b) = {#framed b#}"
| "pc_frame p = {#}"

definition pending :: "pc list \<Rightarrow> byte list multiset" where
  "pending ps = sum_list (map pc_frame ps)"

fun ev_frame :: "comet_event \<Rightarrow> byte list multiset" where
  "ev_frame (BusWrite c bs) = {#bs#}"
| "ev_frame e = {#}"

definition frames_sent :: "comet_event list \<Rightarrow> byte list multiset" where
  "frames_sent tr = sum_list (map ev_frame tr)"

fun label_frame :: "label \<Rightarrow> byte list multiset" where
  "label_frame (LCall i src ids msg) = {#framed (bus_frame src ids msg)#}"
| "label_frame l = {#}"

definition frames_called :: "label list \<Rightarrow> byte list multiset" where
  "frames_called ls = sum_list (map label_frame ls)"

lemma sum_list_upd: "i < length xs \<Longrightarrow> sum_list (map f (xs[i := x])) + f (xs ! i) = sum_list (map f xs) + (f x :: 'a :: comm_monoid_add)"
proof (induction xs arbitrary: i)
  case (Cons y xs)
  then show ?case by (cases i) (simp_all add: ac_simps)
qed simp

lemmas pending_upd = sum_list_upd [where f = pc_frame, folded pending_def]

lemma frames_sent_append [simp]: "frames_sent (xs @ ys) = frames_sent xs + frames_sent ys" "frames_sent [] = {#}" "frames_sent (e # es) = ev_frame e + frames_sent es"
  by (simp_all add: frames_sent_def)

text \<open>Schedules in which the list of buses does not change and all messages fit.\<close>

fun push_label :: "label \<Rightarrow> bool" where
  "push_label (LThread i) \<longleftrightarrow> True"
| "push_label (LCall i src ids msg) \<longleftrightarrow> frame_fits ids msg"
| "push_label l \<longleftrightarrow> False"

definition race_ok :: "('e, 'h) srv_ops \<Rightarrow> comet_env \<Rightarrow> ('e, 'h) race \<Rightarrow> bool" where
  "race_ok B env st \<longleftrightarrow> busman_wf B (man st) \<and> \<not> crashed st \<and> bm_curr (man st) \<noteq> None \<and> buses_up B env (bm_list (man st))
     \<and> (\<forall>srv b. SendTo srv b \<in> set (pcs st) \<longrightarrow> srv_conn srv \<noteq> None)"

lemma race_ok_set: "race_ok B env st \<Longrightarrow> (\<forall>srv b. p = SendTo srv b \<longrightarrow> srv_conn srv \<noteq> None) \<Longrightarrow> race_ok B env (set_pc i p st)"
  using set_update_subset_insert [of "pcs st" i p] unfolding race_ok_def set_pc_fields by blast

lemma Send_up: "srv_conn srv = Some c \<Longrightarrow> \<forall>tr c bs. bus_ok env tr c bs \<Longrightarrow> MsgBusServer_Send env srv b m = (Ret (), m\<lparr>trace := trace m @ [BusWrite c (framed b)]\<rparr>)"
  by (simp add: MsgBusServer_Send_def go_monad Let_def framed_def)

lemma race_ok_plain: "race_ok B env st \<Longrightarrow> p \<in> {Idle, Count, Advance, Check b, LoadCurr b} \<Longrightarrow> race_ok B env (set_pc i p st)"
  by (rule race_ok_set) auto

context srv_lists
begin

lemma race_ok_thread:
  assumes "race_ok B env st" and "i < length (pcs st)"
  shows "race_ok B env (pc_step B env i st)
    \<and> frames_sent (trace (man (pc_step B env i st))) + pending (pcs (pc_step B env i st)) = frames_sent (trace (man st)) + pending (pcs st)"
proof -
  obtain e where e: "bm_curr (man st) = Some e" using assms(1) by (auto simp: race_ok_def)
  then have "hl_Value B e \<in> set (hl_vals B (bm_list (man st)))"
    using assms(1) by (auto simp: race_ok_def busman_wf_def hl_vals_def)
  then have conn: "srv_conn (hl_Value B e) \<noteq> None" using assms(1) by (auto simp: race_ok_def buses_up_def)
  note upd = pending_upd [OF assms(2)]
  show ?thesis
  proof (cases "pcs st ! i")
    case Idle
    then show ?thesis using assms(1) by (simp add: pc_step_def)
  next
    case (Check b)
    then show ?thesis
      using assms e upd [of "LoadCurr b"] by (simp add: pc_step_def race_ok_plain)
  next
    case (LoadCurr b)
    then show ?thesis
      using assms e conn upd [of "SendTo (hl_Value B e) b"] race_ok_set [OF assms(1)] by (simp add: pc_step_def)
  next
    case (SendTo srv b)
    then have "SendTo srv b \<in> set (pcs st)" using nth_mem [OF assms(2)] by simp
    then obtain c where c: "srv_conn srv = Some c" using assms(1) by (auto simp: race_ok_def)
    have send: "MsgBusServer_Send env srv b (man st) = (Ret (), (man st)\<lparr>trace := trace (man st) @ [BusWrite c (framed b)]\<rparr>)"
      using assms(1) by (intro Send_up [OF c]) (simp add: race_ok_def buses_up_def)
    have "race_ok B env (st\<lparr>man := (man st)\<lparr>trace := trace (man st) @ [BusWrite c (framed b)]\<rparr>\<rparr>)"
      using assms(1) by (simp add: race_ok_def)
    then show ?thesis
      using SendTo upd [of Advance] by (simp add: pc_step_def send add.commute race_ok_plain)
  next
    case Advance
    obtain e' where e': "(case hl_Next B (bm_list (man st)) e of Some e' \<Rightarrow> Some e' | None \<Rightarrow> hl_Front B (bm_list (man st))) = Some e'"
      "busman_wf B ((man st)\<lparr>bm_curr := Some e'\<rparr>)"
      using wf_advance [OF _ e] assms(1) by (auto simp: race_ok_def)
    have "race_ok B env (st\<lparr>man := (man st)\<lparr>bm_curr := Some e'\<rparr>\<rparr>)"
      using assms(1) e'(2) by (simp add: race_ok_def)
    then show ?thesis
      using Advance e e'(1) upd [of Count] by (simp add: pc_step_def race_ok_plain)
  next
    case Count
    have "race_ok B env (st\<lparr>man := (man st)\<lparr>trace := trace (man st) @ [CStatInc CUpStreamOut]\<rparr>\<rparr>)"
      using assms(1) by (simp add: race_ok_def)
    then show ?thesis
      using Count upd [of Idle] by (simp add: pc_step_def race_ok_plain)
  qed
qed

lemma race_ok_step:
  assumes "race_ok B env st" and "push_label l" and "race_step B env l st = Some st'"
  shows "race_ok B env st' \<and> frames_sent (trace (man st')) + pending (pcs st') = frames_sent (trace (man st)) + pending (pcs st) + label_frame l"
proof (cases l)
  case (LThread i)
  then show ?thesis using assms race_ok_thread [OF assms(1), of i] by (auto split: if_splits)
next
  case (LCall i src ids msg)
  then have i: "i < length (pcs st)" "pcs st ! i = Idle" "st' = set_pc i (Check (bus_frame src ids msg)) st"
    using assms(2,3) by (auto simp: push_data_exact split: if_splits)
  then show ?thesis
    using LCall race_ok_set [OF assms(1)] pending_upd [OF i(1), of "Check (bus_frame src ids msg)"] by simp
qed (use assms(2) in simp_all)

lemma race_ok_run:
  assumes "race_ok B env st" and "\<forall>l \<in> set ls. push_label l" and "race_run B env ls st = Some st'"
  shows "race_ok B env st' \<and> frames_sent (trace (man st')) + pending (pcs st') = frames_sent (trace (man st)) + pending (pcs st) + frames_called ls"
  using assms
proof (induction ls arbitrary: st)
  case Nil
  then show ?case by (simp add: frames_called_def)
next
  case (Cons l ls)
  then obtain st1 where 1: "race_step B env l st = Some st1" "race_run B env ls st1 = Some st'" by (auto simp: bind_eq_Some_conv)
  have "race_ok B env st1 \<and> frames_sent (trace (man st1)) + pending (pcs st1) = frames_sent (trace (man st)) + pending (pcs st) + label_frame l"
    using race_ok_step [OF Cons.prems(1) _ 1(1)] Cons.prems(2) by simp
  with Cons.IH [OF _ _ 1(2)] Cons.prems(2) show ?case by (simp add: frames_called_def add.assoc)
qed

end

section \<open>Completion\<close>

fun rank :: "pc \<Rightarrow> nat" where
  "rank Idle = 0"
| "rank Count = 1"
| "rank Advance = 2"
| "rank (SendTo srv b) = 3"
| "rank (LoadCurr b) = 4"
| "rank (Check b) = 5"

definition work :: "('e, 'h) race \<Rightarrow> nat" where
  "work st = sum_list (map rank (pcs st)) + (if crashed st then 0 else 1)"

lemma rank_0 [simp]: "rank p = 0 \<longleftrightarrow> p = Idle"
  by (cases p) simp_all


lemma work_simps [simp]: "work (st\<lparr>man := m\<rparr>) = work st" "\<not> crashed st \<Longrightarrow> work (st\<lparr>crashed := True\<rparr>) < work st"
  by (simp_all add: work_def)






section \<open>Counting the buses\<close>

fun conn_count :: "comet_event \<Rightarrow> int" where
  "conn_count (CStatInc CMsgbusConns) = 1"
| "conn_count (CStatDec CMsgbusConns) = - 1"
| "conn_count e = 0"

definition buses_counted :: "('e, 'h) srv_ops \<Rightarrow> ('e, 'h) busman \<Rightarrow> bool" where
  "buses_counted B m \<longleftrightarrow> sum_list (map conn_count (trace m)) = int (length (hl_elems B (bm_list m)))"

lemma Send_counted [simp]: "sum_list (map conn_count (trace (snd (MsgBusServer_Send env srv b m)))) = sum_list (map conn_count (trace m))"
  by (cases "srv_conn srv") (simp_all add: MsgBusServer_Send_def go_monad Let_def)

context srv_lists
begin

lemma Online_counted:
  assumes "buses_counted B m"
  shows "buses_counted B (snd (Online B env addr m))"
proof (cases "find_addr env addr (hl_vals B (bm_list m)) = Some False")
  case True
  obtain c ok where "Dail env addr (trace m) = (c, ok)" by fastforce
  from Online_eq [OF True this] obtain e h
    where push: "hl_PushFront B \<lparr>srv_ptr = bm_fresh m, remoteAddr = addr, srv_conn = c\<rparr> (bm_list m) = (e, h)"
      and eq: "Online B env addr m = (Ret (), m\<lparr>bm_list := h, bm_curr := Some e, bm_fresh := Suc (bm_fresh m),
        trace := trace m @ (if ok then [StartReciver (bm_fresh m)] else []) @ [CStatInc CMsgbusConns]\<rparr>)"
    by blast
  show ?thesis
    using assms elems_PushFront [OF push] unfolding eq by (simp add: buses_counted_def)
next
  case False
  then show ?thesis using assms by (auto simp: Online_def go_monad split: option.splits)
qed

lemma Offline_counted:
  assumes "buses_counted B m"
  shows "buses_counted B (snd (Offline B p m))"
proof (cases "find_ptr B p (hl_elems B (bm_list m))")
  case None
  then show ?thesis using assms by (simp add: Offline_def go_monad)
next
  case (Some e)
  have e: "e \<in> set (hl_elems B (bm_list m))" using find_ptr_Some [OF Some] by simp
  then have "int (length (remove1 e (hl_elems B (bm_list m)))) = int (length (hl_elems B (bm_list m))) - 1"
    using length_remove1_Suc [OF e] by simp
  then show ?thesis using assms Some e by (simp add: Offline_def go_monad buses_counted_def)
qed

lemma race_counted: "buses_counted B (man st) \<Longrightarrow> race_step B env l st = Some st' \<Longrightarrow> buses_counted B (man st')"
proof (cases l)
  case (LThread i)
  assume "buses_counted B (man st)" "race_step B env l st = Some st'"
  then show ?thesis
    using LThread by (auto simp: pc_step_def buses_counted_def split: if_splits pc.splits option.splits)
qed (auto simp: Online_counted Offline_counted onMsgBusCloseEvent_def split: if_splits option.splits)

lemma race_run_counted: "race_run B env ls st = Some st' \<Longrightarrow> buses_counted B (man st) \<Longrightarrow> buses_counted B (man st')"
  by (induction ls arbitrary: st) (auto simp: bind_eq_Some_conv dest: race_counted)

end

section \<open>Properties\<close>

definition race_start :: "('e, 'h) busman \<Rightarrow> nat \<Rightarrow> ('e, 'h) race" where
  "race_start m n = \<lparr>man = m, pcs = replicate n Idle, crashed = False\<rparr>"

lemma pending_idle: "\<forall>p \<in> set ps. p = Idle \<Longrightarrow> pending ps = {#}"
  by (induction ps) (simp_all add: pending_def)

text \<open>C14: Concurrent pushes lose and mix nothing: however the steps of any number of goroutines that push messages are interleaved, as long as the connected
  buses stay the same and work, the comet does not crash, and once every goroutine is done the frames written to the buses are exactly the frames of the
  messages pushed, each written once and whole.\<close>

theorem concurrent_pushes:
  assumes "hlist B" and "busman_wf B m" and "bm_curr m \<noteq> None" and "buses_up B env (bm_list m)"
    and "\<forall>l \<in> set ls. push_label l" and "race_run B env ls (race_start m n) = Some st"
  shows "\<not> crashed st \<and> busman_wf B (man st) \<and> bm_curr (man st) \<noteq> None
    \<and> ((\<forall>p \<in> set (pcs st). p = Idle) \<longrightarrow> frames_sent (trace (man st)) = frames_sent (trace m) + frames_called ls)"
proof -
  have ok: "race_ok B env (race_start m n)" using assms(2-4) by (simp add: race_ok_def race_start_def)
  have "pending (pcs (race_start m n)) = {#}" by (rule pending_idle) (simp add: race_start_def)
  then show ?thesis
    using srv_lists.race_ok_run [OF srv_lists.intro [OF assms(1)] ok assms(5,6)] pending_idle [of "pcs st"]
    by (auto simp: race_ok_def race_start_def)
qed


text \<open>C38: A bus that goes offline at the wrong moment crashes the comet: when the current bus closes after a goroutine has sent its message and before it takes the
  mutex, the goroutine moves on from an element that is no longer there.\<close>

theorem push_offline_race:
  assumes "hlist B" and "busman_wf B m" and "bm_curr m = Some e" and "frame_fits ids msg"
  shows "\<exists>st. race_run B env [LCall 0 src ids msg, LThread 0, LThread 0, LThread 0, LOffline (srv_ptr (hl_Value B e)), LThread 0] (race_start m 1) = Some st
    \<and> crashed st"
proof -
  obtain es where send: "MsgBusServer_Send env (hl_Value B e) (bus_frame src ids msg) m = (Ret (), m\<lparr>trace := trace m @ es\<rparr>)"
    using Send_frame by blast
  obtain m' where off: "Offline B (srv_ptr (hl_Value B e)) (m\<lparr>trace := trace m @ es\<rparr>) = (Ret (), m')" "bm_curr m' = None"
    using Offline_current_drops [OF assms(1), of "m\<lparr>trace := trace m @ es\<rparr>" e _ "[]"] assms(2,3) by auto
  show ?thesis
    using assms(3,4) by (simp add: race_start_def push_data_exact pc_step_def set_pc_def send onMsgBusCloseEvent_def man_call_def off)
qed

text \<open>Two goroutines that read the current bus before either has moved on.\<close>

definition two_pushes :: "label list" where
  "two_pushes = [LCall 0 33 [17] [2], LCall 1 34 [- 9] [3], LThread 0, LThread 1, LThread 0, LThread 1, LThread 1, LThread 0,
     LThread 0, LThread 1, LThread 1, LThread 0]"

lemma sample_man_facts:
  "busman_wf (plain_hlist True) sample_man" "bm_curr sample_man = Some (1, \<lparr>srv_ptr = 0, remoteAddr = ''10.0.0.9:9923'', srv_conn = Some 4\<rparr>)"
  "buses_up (plain_hlist True) sample_cenv (bm_list sample_man)"
  by (simp_all add: sample_man_eq busman_wf_def plain_hlist_def hl_vals_def Let_def buses_up_def sample_cenv_def)

lemma two_pushes_run:
  "\<exists>st. race_run (plain_hlist True) sample_cenv two_pushes (race_start sample_man 2) = Some st \<and> pcs st = [Idle, Idle]"
proof -
  have "frame_fits [17] [2]" "frame_fits [- 9] [3]" by (simp_all add: frame_fits_def)
  then show ?thesis
    using sample_man_facts(2)
    by (simp add: two_pushes_def race_start_def pc_step_def set_pc_def push_data_exact numeral_2_eq_2 MsgBusServer_Send_def go_monad Let_def sample_cenv_def
        plain_hlist_def hl_Next_def hl_Front_def sample_man_eq)
qed

theorem concurrent_pushes_witness:
  "\<exists>st. race_run (plain_hlist True) sample_cenv two_pushes (race_start sample_man 2) = Some st
    \<and> frames_sent (trace (man st)) = {#framed (bus_frame 33 [17] [2]), framed (bus_frame 34 [- 9] [3])#}"
proof -
  obtain st where st: "race_run (plain_hlist True) sample_cenv two_pushes (race_start sample_man 2) = Some st" "pcs st = [Idle, Idle]"
    using two_pushes_run by blast
  have "\<forall>l \<in> set two_pushes. push_label l" by (simp add: two_pushes_def frame_fits_def)
  then show ?thesis
    using concurrent_pushes [OF plain.hlist_axioms sample_man_facts(1) _ sample_man_facts(3) _ st(1)] sample_man_facts(2) st
    by (simp add: two_pushes_def frames_called_def sample_man_eq Let_def)
qed


theorem push_offline_race_witness:
  "\<exists>st. race_run (plain_hlist True) sample_cenv [LCall 0 33 [17] [2], LThread 0, LThread 0, LThread 0, LOffline 0, LThread 0] (race_start sample_man 1) = Some st
    \<and> crashed st"
  using push_offline_race [OF plain.hlist_axioms sample_man_facts(1,2), of "[17]" "[2]" sample_cenv 33] by (simp add: frame_fits_def plain_hlist_def)

text \<open>C16: The bookkeeping of the bus list keeps its invariant in every interleaving of buses coming online, going offline and concurrent pushes: at every moment
  the current bus, if any, is in the list, and the servers of the list are different objects.\<close>

theorem race_invariant:
  assumes "hlist B" and "race_run B env ls (race_start (NewMsgBusManager B) n) = Some st"
  shows "busman_wf B (man st)"
  using srv_lists.wf_race_run [OF srv_lists.intro [OF assms(1)] _ assms(2)] srv_lists.wf_new [OF srv_lists.intro [OF assms(1)]]
  by (simp add: race_start_def)

theorem race_invariant_witness:
  "\<exists>st. race_run (plain_hlist True) sample_cenv [LOnline ''10.0.0.9:9923'', LCall 0 33 [17] [2], LThread 0, LOffline 0]
      (race_start (NewMsgBusManager (plain_hlist True)) 1) = Some st \<and> busman_wf (plain_hlist True) (man st)"
proof -
  let ?r = "race_run (plain_hlist True) sample_cenv [LOnline ''10.0.0.9:9923'', LCall 0 33 [17] [2], LThread 0, LOffline 0]
      (race_start (NewMsgBusManager (plain_hlist True)) 1)"
  have "frame_fits [17] [2]" by (simp add: frame_fits_def)
  then have "\<exists>st. ?r = Some st"
    by (simp add: race_start_def man_call_def push_data_exact pc_step_def set_pc_def Online_def NewMsgBusManager_def plain_hlist_def hl_vals_def sample_cenv_def Dail_def go_monad Let_def)
  then show ?thesis using race_invariant [OF plain.hlist_axioms] by blast
qed

end
