(* ===== verification/Binding.thy ===== *)
theory Binding
  imports Client
begin

text \<open>
  What a comet subscribes to in redis (\<^verbatim>\<open>comet/redis.go\<close>: \<^verbatim>\<open>InitRedix\<close>, \<^verbatim>\<open>SubDeviceUsers\<close>, \<^verbatim>\<open>SubModifiedPasswd\<close>,
  \<^verbatim>\<open>SubCommonMsg\<close>), and what happens when a device is bound to a user: the event is published once and handled by every
  comet that has subscribed to it, on the session they share in redis.

  The replies of a subscription are a list; when it ends, nothing more arrives.  The goroutine that receives and the one that handles are
  connected by a channel; a message is handled before the next one is received.  The end of the program (\<^verbatim>\<open>glog.Fatalf\<close>) is \<^term>\<open>Panic\<close>.
\<close>

section \<open>Subscriptions\<close>

fun sub_loop :: "('m \<Rightarrow> ('s, unit) go) \<Rightarrow> 'm sub_reply list \<Rightarrow> ('s, unit) go" where
  "sub_loop handler [] = go_ret ()"
| "sub_loop handler (Message m # rs) = go_seq (handler m) (sub_loop handler rs)"
| "sub_loop handler (Subscription n # rs) = (if n = 0 then go_lift None else sub_loop handler rs)"
| "sub_loop handler (ReplyError # rs) = go_ret ()"

text \<open>\<open>ok\<close> says whether the request to subscribe succeeds; the result is whether no error is returned.\<close>

definition SubDeviceUsers ::
  "('e, 'h) srv_ops \<Rightarrow> 'r udp_svc \<Rightarrow> comet_env \<Rightarrow> bool \<Rightarrow> string option sub_reply list \<Rightarrow> (('e, 'h, 'r) udp, bool) go" where
  "SubDeviceUsers B V env ok replies =
     (if \<not> ok then go_ret False else go_seq (sub_loop (HandleDeviceUsers B V env) replies) (go_ret True))"

definition SubModifiedPasswd ::
  "('f, 'g) sess_ops \<Rightarrow> comet_env \<Rightarrow> bool \<Rightarrow> string option sub_reply list \<Rightarrow> (('e, 'h, 'g) comet, bool) go" where
  "SubModifiedPasswd K env ok replies =
     (if \<not> ok then go_ret False else go_seq (sub_loop (HandleModifiedPasswd K env) replies) (go_ret True))"

definition SubCommonMsg_ws ::
  "('f, 'g) sess_ops \<Rightarrow> comet_env \<Rightarrow> bool \<Rightarrow> (string \<times> string) sub_reply list \<Rightarrow> (('e, 'h, 'g) comet, bool) go" where
  "SubCommonMsg_ws K env ok replies =
     (if \<not> ok then go_ret False else go_seq (sub_loop (\<lambda>(channel, data). HandleCommonMsg_ws K env channel data) replies) (go_ret True))"

definition SubCommonMsg_udp ::
  "'r udp_svc \<Rightarrow> comet_env \<Rightarrow> bool \<Rightarrow> (string \<times> string) sub_reply list \<Rightarrow> (('e, 'h, 'r) udp, bool) go" where
  "SubCommonMsg_udp V env ok replies =
     (if \<not> ok then go_ret False else go_seq (sub_loop (\<lambda>(channel, data). HandleCommonMsg_udp V env channel data) replies) (go_ret True))"

text \<open>\<^verbatim>\<open>InitRedix\<close>: the subscriptions a comet has when it returns, \<^term>\<open>None\<close> when it panics.  \<open>dial\<close> says which of the connections can be made.\<close>

datatype subscription = DeviceUsers | ModifiedPasswd | CommonMsg

definition redix_Max :: nat where "redix_Max = 12"

definition InitRedix ::
  "CometType \<Rightarrow> bool \<Rightarrow> bool \<Rightarrow> (nat \<Rightarrow> bool) \<Rightarrow> bool \<Rightarrow> (subscription \<Rightarrow> bool) \<Rightarrow> subscription list option" where
  "InitRedix gCometType gCometPushUdp gCometUdpSubBindingEvent dial resolved sub =
     (if \<not> list_all dial [0..<redix_Max] then None
      else if \<not> resolved then None
      else
        let bind = gCometType \<noteq> CometUdp \<or> gCometUdpSubBindingEvent; push = gCometType \<noteq> CometUdp \<or> gCometPushUdp
        in if bind \<and> \<not> sub DeviceUsers then None
           else if \<not> sub ModifiedPasswd then None
           else if push \<and> \<not> sub CommonMsg then None
           else Some ((if bind then [DeviceUsers] else []) @ [ModifiedPasswd] @ (if push then [CommonMsg] else [])))"

section \<open>Notifying a user\<close>

lemma notify_none: "notify B env t did [] m = go_ret m"
  by (simp add: notify_def)

definition status_wire :: "u32 \<Rightarrow> byte \<Rightarrow> i64 \<Rightarrow> byte list" where
  "status_wire now t did = wire now ((status_msg now did)\<lparr>Data := t # le_bytes 8 did @ [0]\<rparr>)"

lemma notify_one:
  "ids \<noteq> [] \<Longrightarrow> notify B env t did ids (status_msg (ucast (clock env (trace s))) did) s =
    go_seq (Push2Bus B env 0 ids (status_wire (ucast (clock env (trace s))) t did))
      (go_ret ((status_msg (ucast (clock env (trace s))) did)\<lparr>Data := t # le_bytes 8 did @ [0],
         FrameHdr := (FrameHdr (status_msg (ucast (clock env (trace s))) did))\<lparr>Time := ucast (clock env (trace s))\<rparr>\<rparr>)) s"
  by (simp add: notify_def status_body_eq MarshalBytes_wire go_monad status_wire_def split: prod.splits outcome.splits)

lemma NotifyBindedIdChanged_one:
  assumes "ids \<noteq> []"
  shows "NotifyBindedIdChanged B env did ids [] s = Push2Bus B env 0 ids (status_wire (ucast (clock env (trace s))) MSTBinded did) s"
    and "NotifyBindedIdChanged B env did [] ids s = Push2Bus B env 0 ids (status_wire (ucast (clock env (trace s))) MSTUnbinded did) s"
  using notify_one [OF assms, of B env _ did s]
  by (auto simp: NotifyBindedIdChanged_def notify_none go_get_def go_bind_def go_seq_def go_ret_def split: prod.splits outcome.splits)

lemma status_wire_view: "msg_view (status_wire now t did) = (Some 0, Some MIDStatus, t # le_bytes 8 did @ [0])"
  unfolding status_wire_def
  by (rule msg_view_wire) (simp_all add: plain_msg_def status_msg_def NewMsg_def NewFrameHeader_def Let_def)

lemma length_TransId: "length (TransId i) \<le> 15"
  by (simp add: TransId_def phones_def)

lemma status_fits: "frame_fits (TransId uid) (status_wire now t did)"
proof -
  have "length (status_wire now t did) = 46"
    unfolding status_wire_def
    by (subst wire_plain(1)) (simp_all add: status_msg_def NewMsg_def NewFrameHeader_def Let_def)
  then show ?thesis using length_TransId [of uid] by (simp add: frame_fits_def)
qed

section \<open>Changing the stored session\<close>

definition rebind :: "bool \<Rightarrow> i64 \<Rightarrow> UdpSession \<Rightarrow> UdpSession" where
  "rebind bindType userId s =
     s\<lparr>BindedUsers := (if bindType then BindedUsers s @ [userId] else swap_remove_val userId (BindedUsers s))\<rparr>"

text \<open>The text that announces that a device is bound to a user or unbound.\<close>

definition bind_event :: "bool \<Rightarrow> i64 \<Rightarrow> i64 \<Rightarrow> string" where
  "bind_event bindType did uid = FormatInt did @ CHR ''|'' # FormatInt uid @ CHR ''|'' # (if bindType then ''1'' else ''0'')"

lemma split_n_step: "c \<notin> set s \<Longrightarrow> split_n (Suc (Suc n)) c (s @ c # t) = s # split_n (Suc n) c t"
  by (subgoal_tac "takeWhile (\<lambda>x. x \<noteq> c) (s @ c # t) = s \<and> dropWhile (\<lambda>x. x \<noteq> c) (s @ c # t) = c # t") (simp, induction s, auto)

lemma ParseInt32_flag: "ParseInt32 ''1'' = Some 1" "ParseInt32 ''0'' = Some 0"
proof -
  have "FormatInt 1 = ''1''" "FormatInt 0 = ''0''"
    by (simp_all add: FormatInt_def format_nat.simps digit_char_def char_of_def bit_0)
  then have "ParseInt ''1'' = (1, None)" "ParseInt ''0'' = (0, None)"
    by (metis ParseInt_FormatInt)+
  then show "ParseInt32 ''1'' = Some 1" "ParseInt32 ''0'' = Some 0"
    by (simp_all add: ParseInt32_def)
qed

lemma device_users_event [simp]: "device_users (bind_event t did uid) = Some (did, uid, t)"
proof -
  have bar: "CHR ''|'' \<notin> set (FormatInt a)" for a by (rule FormatInt_no_char) simp_all
  have "split_n 3 CHR ''|'' (bind_event t did uid) = [FormatInt did, FormatInt uid, if t then ''1'' else ''0'']"
    by (simp only: bind_event_def numeral_3_eq_3 split_n_step [OF bar] split_n.simps(2))
  then show ?thesis by (simp add: device_users_def ParseInt32_flag)
qed

lemma SaveSession_frame: "SaveSession V i s st = (Ret ok, st') \<Longrightarrow> st' = st\<lparr>store := store st', armed := armed st'\<rparr>"
  by (auto simp: SaveSession_def go_monad on_store_def Timer_Reset_def split: option.splits prod.splits if_splits)

context udp_store
begin

lemma udp_UpdateIds_found:
  assumes up: "\<And>r. rd_up (redis_ops.truncate V) r" and stored: "stored V (store st) did i s"
    and lock: "uu_String V i \<notin> set (held st)" "lock_ok V (trace st) (uu_String V i)"
  shows "\<exists>r a. udp_UpdateIds B V env did uid t st =
      NotifyBindedIdChanged B env did (if t then TransId uid else []) (if t then [] else TransId uid) (st\<lparr>store := r, armed := a\<rparr>)
    \<and> stored V r did i (rebind t uid s)
    \<and> (\<forall>did' i' s'. did' \<noteq> did \<longrightarrow> i' \<noteq> i \<longrightarrow> stored V (store st) did' i' s' \<longrightarrow> stored V r did' i' s')"
proof -
  let ?s = "rebind t uid s" and ?st = "st\<lparr>held := uu_String V i # held st\<rparr>"
  have i: "length i = 16" "DeviceId ?s = did" "did \<noteq> 0" "Sid ?s = uu_String V i"
    using stored lookup_Sid by (auto simp: stored_def rebind_def)
  obtain st' where save: "SaveSession V i ?s ?st = (Ret True, st')" and st': "stored V (store st') did i ?s"
    "\<forall>did' i' s'. did' \<noteq> did \<longrightarrow> i' \<noteq> i \<longrightarrow> stored V (store st) did' i' s' \<longrightarrow> stored V (store st') did' i' s'"
    using SaveSession_store [OF up i(1,4), of ?st] i by auto
  obtain r a where "st' = ?st\<lparr>store := r, armed := a\<rparr>" using SaveSession_frame [OF save] by metis
  moreover have "?st\<lparr>store := r, armed := a, held := held st\<rparr> = st\<lparr>store := r, armed := a\<rparr>" by simp
  ultimately show ?thesis
    using save st' with_device_found [OF stored lock, where fail = Some]
    by (intro exI [of _ r] exI [of _ a]) (simp add: udp_UpdateIds_def Let_def go_monad rebind_def)
qed

text \<open>The whole effect of an event on a comet.\<close>

lemma bind_event_effect:
  assumes "\<And>r. rd_up (redis_ops.truncate V) r" and "stored V (store st) did i s"
    and "uu_String V i \<notin> set (held st)" "lock_ok V (trace st) (uu_String V i)"
  shows "\<exists>r a. HandleDeviceUsers B V env (Some (bind_event t did uid)) st =
      (if TransId uid = [] then go_ret ()
       else Push2Bus B env 0 (TransId uid) (status_wire (ucast (clock env (trace st))) (if t then MSTBinded else MSTUnbinded) did))
        (st\<lparr>store := r, armed := a\<rparr>)
    \<and> stored V r did i (rebind t uid s)
    \<and> (\<forall>did' i' s'. did' \<noteq> did \<longrightarrow> i' \<noteq> i \<longrightarrow> stored V (store st) did' i' s' \<longrightarrow> stored V r did' i' s')"
proof -
  have none: "NotifyBindedIdChanged B env did [] [] = go_ret ()"
    by (rule ext) (simp add: NotifyBindedIdChanged_def notify_none go_monad)
  obtain r a where ra: "udp_UpdateIds B V env did uid t st =
      NotifyBindedIdChanged B env did (if t then TransId uid else []) (if t then [] else TransId uid) (st\<lparr>store := r, armed := a\<rparr>)"
    "stored V r did i (rebind t uid s)"
    "\<forall>did' i' s'. did' \<noteq> did \<longrightarrow> i' \<noteq> i \<longrightarrow> stored V (store st) did' i' s' \<longrightarrow> stored V r did' i' s'"
    using udp_UpdateIds_found [OF assms] by blast
  then show ?thesis
    by (intro exI [of _ r] exI [of _ a]) (auto simp: HandleDeviceUsers_def none NotifyBindedIdChanged_one)
qed

end

section \<open>Properties\<close>

text \<open>C15: Binding a device to a user, or unbinding it, takes effect: when redis works and the lock of the device's session is free, a comet that receives the event adds the
  user to the users of the stored session, or removes it, leaves the sessions of all other devices as they are, and, when it is connected to a bus, sends the
  bus one frame, addressed to the phones of the user, with a status message that names the device and says which of the two happened.\<close>

theorem bind_event_spec:
  assumes "hlist B" and "udp_store V" and "\<And>r. rd_up (redis_ops.truncate V) r" and "stored V (store st) did i s"
    and "uu_String V i \<notin> set (held st)" and "lock_ok V (trace st) (uu_String V i)"
    and "k < length (hl_elems B (bm_list st))" and "bm_curr st = Some (hl_elems B (bm_list st) ! k)" and "buses_up B env (bm_list st)"
    and "TransId uid \<noteq> []"
  shows "\<exists>st' msg. HandleDeviceUsers B V env (Some (bind_event t did uid)) st = (Ret (), st')
    \<and> stored V (store st') did i (rebind t uid s)
    \<and> (\<forall>did' i' s'. did' \<noteq> did \<longrightarrow> i' \<noteq> i \<longrightarrow> stored V (store st) did' i' s' \<longrightarrow> stored V (store st') did' i' s')
    \<and> trace st' = trace st @ [BusWrite (nth_conn B (bm_list st) k) (framed (bus_frame 0 (TransId uid) msg)), CStatInc CUpStreamOut]
    \<and> msg_view msg = (Some 0, Some MIDStatus, (if t then MSTBinded else MSTUnbinded) # le_bytes 8 did @ [0])"
proof -
  let ?msg = "status_wire (ucast (clock env (trace st))) (if t then MSTBinded else MSTUnbinded) did"
  obtain r a where ra: "HandleDeviceUsers B V env (Some (bind_event t did uid)) st = Push2Bus B env 0 (TransId uid) ?msg (st\<lparr>store := r, armed := a\<rparr>)"
    "stored V r did i (rebind t uid s)"
    "\<forall>did' i' s'. did' \<noteq> did \<longrightarrow> i' \<noteq> i \<longrightarrow> stored V (store st) did' i' s' \<longrightarrow> stored V r did' i' s'"
    using udp_store.bind_event_effect [OF assms(2-6), of B env t uid] assms(10) by auto
  have "frame_fits (TransId uid) ?msg" by (rule status_fits)
  then obtain st' where push: "Push2Bus B env 0 (TransId uid) ?msg (st\<lparr>store := r, armed := a\<rparr>) = (Ret (), st')"
    and "store st' = r" and "trace st' = trace st @ [BusWrite (nth_conn B (bm_list st) k) (framed (bus_frame 0 (TransId uid) ?msg)), CStatInc CUpStreamOut]"
    using srv_lists.Push2Bus_nth [OF srv_lists.intro [OF assms(1)], of k "st\<lparr>store := r, armed := a\<rparr>" env "TransId uid" ?msg 0] assms(7-9)
    by simp
  then show ?thesis
    using ra status_wire_view by (intro exI [of _ st'] exI [of _ ?msg]) simp
qed

text \<open>A comet with one bus, on the machine of which the session is stored.\<close>

definition sample_binder :: "(nat \<times> MsgBusServer, (nat \<times> MsgBusServer) list, plain_store) udp" where
  "sample_binder = sample_udp\<lparr>bm_list := bm_list sample_man, bm_curr := bm_curr sample_man, bm_fresh := bm_fresh sample_man\<rparr>"

lemma sample_binder_bus:
  "hl_elems (plain_hlist True) (bm_list sample_binder) = [(1, \<lparr>srv_ptr = 0, remoteAddr = ''10.0.0.9:9923'', srv_conn = Some 4\<rparr>)]"
  "bm_curr sample_binder = Some (1, \<lparr>srv_ptr = 0, remoteAddr = ''10.0.0.9:9923'', srv_conn = Some 4\<rparr>)"
  "buses_up (plain_hlist True) sample_cenv (bm_list sample_binder)"
  "trace sample_binder = []" "held sample_binder = []" "store sample_binder = store sample_udp"
  using sample_udp_rest
  by (simp_all add: sample_binder_def sample_man_eq plain_hlist_def Let_def buses_up_def hl_vals_def sample_cenv_def)

theorem bind_event_spec_witness:
  "\<exists>st' msg. HandleDeviceUsers (plain_hlist True) plain_svc sample_cenv (Some (bind_event True (- 9) 32)) sample_binder = (Ret (), st')
    \<and> stored plain_svc (store st') (- 9) (replicate 16 7) (sample_sess\<lparr>BindedUsers := [16, 32]\<rparr>)
    \<and> trace st' = [BusWrite 4 (framed (bus_frame 0 (TransId 32) msg)), CStatInc CUpStreamOut]
    \<and> msg_view msg = (Some 0, Some MIDStatus, MSTBinded # le_bytes 8 (- 9 :: i64) @ [0])"
proof -
  have "rebind True 32 sample_sess = sample_sess\<lparr>BindedUsers := [16, 32]\<rparr>" by (simp add: rebind_def sample_sess_def)
  moreover have "nth_conn (plain_hlist True) (bm_list sample_binder) 0 = 4"
    by (simp add: nth_conn_def sample_binder_bus) (simp add: plain_hlist_def)
  moreover have "TransId 32 \<noteq> []" by (simp add: TransId_def phones_def go_neg_def go_rem_def kUseridUnit_def signed_modulo_int_def)
  ultimately show ?thesis
    using bind_event_spec [OF plain.hlist_axioms [of True] ps.udp_store_axioms, where st = sample_binder and k = 0 and did = "- 9" and i = "replicate 16 7"
        and s = sample_sess and uid = 32 and t = True and env = sample_cenv]
      sample_udp_stored
    by (simp add: sample_binder_bus) blast
qed

section \<open>Several comets\<close>

text \<open>A published event reaches every comet that has subscribed to it.  The comets share the store; each is given with its subscriptions
  and the rest of its state.\<close>

fun deliver ::
  "('e, 'h) srv_ops \<Rightarrow> 'r udp_svc \<Rightarrow> comet_env \<Rightarrow> string \<Rightarrow> (subscription list \<times> ('e, 'h, 'r) udp) list \<Rightarrow> 'r \<Rightarrow> 'r" where
  "deliver B V env msg [] r = r"
| "deliver B V env msg ((subs, st) # cs) r =
     deliver B V env msg cs
       (if DeviceUsers \<in> set subs then store (snd (sub_loop (HandleDeviceUsers B V env) [Message (Some msg)] (st\<lparr>store := r\<rparr>))) else r)"

lemma sub_loop_one: "snd (sub_loop f [Message m] x) = snd (f m x)"
  by (simp add: go_monad split: prod.splits outcome.splits)

definition handlers :: "(subscription list \<times> 'c) list \<Rightarrow> nat" where
  "handlers cs = length (filter (\<lambda>(subs, _). DeviceUsers \<in> set subs) cs)"

context udp_store
begin

lemma deliver_one:
  assumes "\<And>r. rd_up (redis_ops.truncate V) r" and "\<And>tr. lock_ok V tr (uu_String V i)" and "stored V r did i s" and "held st = []"
  shows "stored V (store (snd (sub_loop (HandleDeviceUsers B V env) [Message (Some (bind_event t did uid))] (st\<lparr>store := r\<rparr>)))) did i (rebind t uid s)"
proof -
  let ?st = "st\<lparr>store := r\<rparr>"
  have "stored V (store ?st) did i s" "uu_String V i \<notin> set (held ?st)" "lock_ok V (trace ?st) (uu_String V i)"
    using assms(2-4) by simp_all
  from bind_event_effect [OF assms(1) this] obtain r' a where *: "HandleDeviceUsers B V env (Some (bind_event t did uid)) ?st =
      (if TransId uid = [] then go_ret ()
       else Push2Bus B env 0 (TransId uid) (status_wire (ucast (clock env (trace ?st))) (if t then MSTBinded else MSTUnbinded) did))
        (?st\<lparr>store := r', armed := a\<rparr>)" "stored V r' did i (rebind t uid s)"
    by blast
  have "store (snd (HandleDeviceUsers B V env (Some (bind_event t did uid)) (st\<lparr>store := r\<rparr>))) = r'"
    unfolding *(1) by (simp add: go_ret_def Push2Bus_keeps)
  then show ?thesis using *(2) by (simp only: sub_loop_one)
qed

lemma deliver_all:
  assumes "\<And>r. rd_up (redis_ops.truncate V) r" and "\<And>tr. lock_ok V tr (uu_String V i)" and "stored V r did i s" and "\<forall>(subs, st) \<in> set cs. held st = []"
  shows "stored V (deliver B V env (bind_event t did uid) cs r) did i ((rebind t uid ^^ handlers cs) s)"
  using assms(3,4)
proof (induction cs arbitrary: r s)
  case Nil
  then show ?case by (simp add: handlers_def)
next
  case (Cons c cs)
  obtain subs st where c: "c = (subs, st)" by fastforce
  show ?case
  proof (cases "DeviceUsers \<in> set subs")
    case True
    have "stored V (store (snd (sub_loop (HandleDeviceUsers B V env) [Message (Some (bind_event t did uid))] (st\<lparr>store := r\<rparr>)))) did i (rebind t uid s)"
      by (rule deliver_one [OF assms(1,2) Cons.prems(1)]) (use Cons.prems(2) c in simp)
    from Cons.IH [OF this] show ?thesis
      using True Cons.prems(2) c by (simp add: handlers_def funpow_swap1)
  next
    case False
    then show ?thesis using Cons c by (simp add: handlers_def)
  qed
qed

end

lemma rebind_power: "(rebind True u ^^ n) s = s\<lparr>BindedUsers := BindedUsers s @ replicate n u\<rparr>"
  by (induction n) (simp_all add: rebind_def replicate_append_same [symmetric])

text \<open>Every websocket comet subscribes to the events, whatever its flags, and a UDP comet does when its flag is set.\<close>

lemma InitRedix_subscribes:
  "InitRedix ty push us dial resolved sub = Some subs \<Longrightarrow> DeviceUsers \<in> set subs \<longleftrightarrow> ty = CometWs \<or> us"
  by (cases ty) (auto simp: InitRedix_def Let_def split: if_splits)

text \<open>A binding event is applied once for every comet that handles it: when a device is bound to a user, the user is entered into the device's stored
  session as often as there are websocket comets, plus once for every UDP comet with the flag for binding events, so with more than one comet the user is
  entered several times.\<close>

theorem bind_event_repeated:
  assumes "udp_store V" and "\<And>r. rd_up (redis_ops.truncate V) r" and "\<And>tr. lock_ok V tr (uu_String V i)" and "stored V r did i s"
    and "list_all2 (\<lambda>(ty, push, us) (subs, st). held st = [] \<and> (\<exists>dial resolved sub. InitRedix ty push us dial resolved sub = Some subs)) flags cs"
  shows "stored V (deliver B V env (bind_event True did uid) cs r) did i
    (s\<lparr>BindedUsers := BindedUsers s @ replicate (length (filter (\<lambda>(ty, push, us). ty = CometWs \<or> us) flags)) uid\<rparr>)"
proof -
  have held: "\<forall>(subs, st) \<in> set cs. held st = []"
    using assms(5) by (fastforce simp: list_all2_conv_all_nth in_set_conv_nth)
  have "handlers cs = length (filter (\<lambda>(ty, push, us). ty = CometWs \<or> us) flags)"
    using assms(5)
  proof (induction rule: list_all2_induct)
    case (Cons f flags c cs)
    then show ?case using InitRedix_subscribes by (fastforce simp: handlers_def)
  qed (simp add: handlers_def)
  then show ?thesis
    using udp_store.deliver_all [OF assms(1-4) held, of B env True uid] by (simp add: rebind_power)
qed

theorem bind_event_repeated_witness:
  "let subs = the (InitRedix CometWs False False (\<lambda>_. True) True (\<lambda>_. True))
   in stored plain_svc (deliver (plain_hlist True) plain_svc sample_cenv (bind_event True (- 9) 32) [(subs, plain_udp), (subs, plain_udp)] (store sample_udp))
        (- 9) (replicate 16 7) (sample_sess\<lparr>BindedUsers := [16, 32, 32]\<rparr>)"
proof -
  have ws: "InitRedix CometWs False False (\<lambda>_. True) True (\<lambda>_. True) = Some [DeviceUsers, ModifiedPasswd, CommonMsg]"
    by (simp add: InitRedix_def Let_def list_all_iff)
  then show ?thesis
    using bind_event_repeated [OF ps.udp_store_axioms _ _ sample_udp_stored,
        where flags = "[(CometWs, False, False), (CometWs, False, False)]" and uid = 32 and B = "plain_hlist True" and env = sample_cenv
          and cs = "[([DeviceUsers, ModifiedPasswd, CommonMsg], plain_udp), ([DeviceUsers, ModifiedPasswd, CommonMsg], plain_udp)]"]
    by (auto simp: Let_def sample_sess_def plain_udp_def simp del: deliver.simps)
qed

lemma swap_remove_appended: "x \<notin> set xs \<Longrightarrow> swap_remove_val x (xs @ replicate (Suc n) x) = xs @ replicate n x"
proof -
  assume "x \<notin> set xs"
  then have "index_of x (xs @ x # ys) = Some (length xs)" for ys by (induction xs) auto
  moreover have "(xs @ x # replicate n x)[length xs := last (xs @ x # replicate n x)] = xs @ replicate (Suc n) x"
    by (cases n) simp_all
  moreover have "butlast (xs @ replicate (Suc n) x) = xs @ replicate n x"
    by (simp add: butlast_append replicate_append_same [symmetric] del: replicate_append_same)
  ultimately show ?thesis by (simp add: swap_remove_val_def swap_remove_def)
qed

text \<open>C24: Binding and unbinding cancel out: after an event that binds a device to a user who was not among its users and an event that unbinds the two, handled by
  the same comets one after the other, the device's stored session is as before.\<close>

theorem bind_event_undone:
  assumes "udp_store V" and "\<And>r. rd_up (redis_ops.truncate V) r" and "\<And>tr. lock_ok V tr (uu_String V i)" and "stored V r did i s"
    and "\<forall>(subs, st) \<in> set cs. held st = []" and "uid \<notin> set (BindedUsers s)"
  shows "stored V (deliver B V env (bind_event False did uid) cs (deliver B V env (bind_event True did uid) cs r)) did i s"
proof -
  have undo: "(rebind False uid ^^ n) (s\<lparr>BindedUsers := BindedUsers s @ replicate n uid\<rparr>) = s" for n
  proof (induction n)
    case (Suc n)
    have "rebind False uid (s\<lparr>BindedUsers := BindedUsers s @ replicate (Suc n) uid\<rparr>) = s\<lparr>BindedUsers := BindedUsers s @ replicate n uid\<rparr>"
      using swap_remove_appended [OF assms(6)] by (simp add: rebind_def)
    then show ?case using Suc by (simp only: funpow_Suc_right comp_apply)
  qed simp
  note step = udp_store.deliver_all [OF assms(1-3) _ assms(5), of _ _ _ B env]
  show ?thesis using step [OF step [OF assms(4)], of False uid True uid] by (simp add: rebind_power undo)
qed

theorem bind_event_undone_witness:
  "stored plain_svc (deliver (plain_hlist True) plain_svc sample_cenv (bind_event False (- 9) 32) [([DeviceUsers], plain_udp)]
     (deliver (plain_hlist True) plain_svc sample_cenv (bind_event True (- 9) 32) [([DeviceUsers], plain_udp)] (store sample_udp)))
     (- 9) (replicate 16 7) sample_sess"
  by (rule bind_event_undone [OF ps.udp_store_axioms _ _ sample_udp_stored]) (simp_all add: plain_udp_def sample_sess_def)

end
