(* ===== verification/CometMain.thy ===== *)
theory CometMain
  imports Binding Discovery UdpHandler
begin

text \<open>
  The start of a comet (\<^verbatim>\<open>comet/main.go\<close>): the order in which it connects to redis, removes what an earlier run has left there, and starts its services.
  The command line is parsed by Go's \<^verbatim>\<open>flag\<close> package.
\<close>

section \<open>Start\<close>

record comet_args =
  arg_type :: string
  arg_lip :: string
  arg_ports :: string
  arg_hurl :: string
  arg_hhttp :: string
  arg_up :: bool
  arg_us :: bool

text \<open>What the services the start depends on do: connections to redis, the resolved address, the subscriptions, the url of the web server.\<close>

record start_env =
  se_dial :: "nat \<Rightarrow> bool"
  se_resolved :: bool
  se_sub :: "subscription \<Rightarrow> bool"
  se_url :: "string \<Rightarrow> bool"

datatype start_act =
    DoInitStat
  | DoInitRedix "subscription list"
  | DoClearRedis string
  | DoInitZK
  | DoInitSessionList
  | DoListen string
  | DoUdpServer
  | DoFatal

text \<open>The type of a comet is a variable of the program, whose initial value is the type of websocket comets.\<close>

definition gCometType :: "string \<Rightarrow> CometType" where
  "gCometType cType = (if cType = ''ws'' then CometWs else if cType = ''udp'' then CometUdp else CometWs)"

definition StartHttp :: "string list \<Rightarrow> start_act list" where
  "StartHttp bindAddrs = map DoListen bindAddrs"

text \<open>\<^verbatim>\<open>NewHandler\<close>: the urls of the web server, and the port of the address for its requests as an \<^verbatim>\<open>int32\<close>; an address without a port ends the program.\<close>

definition NewHandler :: "string \<Rightarrow> string \<Rightarrow> ((u16 \<Rightarrow> string) \<times> u32) option" where
  "NewHandler apiServerUrl listenAddr = (case SplitHostPort listenAddr of
     None \<Rightarrow> None
   | Some (_, p) \<Rightarrow> Some (kApiUrls apiServerUrl, ucast (fst (ParseInt p))))"

definition start_services :: "comet_args \<Rightarrow> start_env \<Rightarrow> start_act list" where
  "start_services a E = (case gCometType (arg_type a) of
     CometWs \<Rightarrow> if arg_lip a = [] then [DoFatal] else StartHttp (split_on CHR '','' (arg_ports a))
   | CometUdp \<Rightarrow> if arg_hurl a = [] \<or> \<not> se_url E (arg_hurl a) then [DoFatal]
       else (case NewHandler (arg_hurl a) (arg_hhttp a) of None \<Rightarrow> [DoFatal] | Some _ \<Rightarrow> [DoUdpServer]))"

text \<open>The actions in order and the store afterwards; the last action is \<^term>\<open>DoFatal\<close> when the program ends.\<close>

definition comet_main :: "'r redis_ops \<Rightarrow> comet_args \<Rightarrow> start_env \<Rightarrow> 'r \<Rightarrow> start_act list \<times> 'r" where
  "comet_main R a E r =
     (case InitRedix (gCometType (arg_type a)) (arg_up a) (arg_us a) (se_dial E) (se_resolved E) (se_sub E) of
        None \<Rightarrow> ([DoInitStat, DoFatal], r)
      | Some subs \<Rightarrow>
          (case ClearRedis R (arg_lip a) r of
             (False, r) \<Rightarrow> ([DoInitStat, DoInitRedix subs, DoFatal], r)
           | (True, r) \<Rightarrow> ([DoInitStat, DoInitRedix subs, DoClearRedis (arg_lip a), DoInitZK, DoInitSessionList] @ start_services a E, r)))"

section \<open>Properties\<close>




definition sample_args :: comet_args where
  "sample_args = \<lparr>arg_type = ''ws'', arg_lip = ''10.0.0.7'', arg_ports = '':1234,:1235'', arg_hurl = [], arg_hhttp = '':8081'', arg_up = False, arg_us = False\<rparr>"

definition sample_start :: start_env where
  "sample_start = \<lparr>se_dial = \<lambda>_. True, se_resolved = True, se_sub = \<lambda>_. True, se_url = \<lambda>_. True\<rparr>"



text \<open>A mistyped type is not noticed: a comet started with a type that is neither that of websocket comets nor that of UDP comets behaves exactly like a websocket
  comet.\<close>

theorem comet_main_unknown_type:
  assumes "arg_type a \<noteq> ''udp''"
  shows "comet_main R a E r = comet_main R (a\<lparr>arg_type := ''ws''\<rparr>) E r"
proof -
  have "gCometType (arg_type a) = gCometType ''ws''" "start_services (a\<lparr>arg_type := ''ws''\<rparr>) E = start_services a E"
    using assms by (simp_all add: gCometType_def start_services_def)
  then show ?thesis by (simp add: comet_main_def cong: option.case_cong bool.case_cong split: prod.split)
qed

theorem comet_main_unknown_type_witness:
  "comet_main plain_redis (sample_args\<lparr>arg_type := ''tcp''\<rparr>) sample_start empty_store = comet_main plain_redis sample_args sample_start empty_store"
  using comet_main_unknown_type [of "sample_args\<lparr>arg_type := ''tcp''\<rparr>" plain_redis sample_start empty_store] by (simp add: sample_args_def)

text \<open>The url a UDP comet registers has the port it listens on, when that is a number an \<^verbatim>\<open>int32\<close> can hold.\<close>

theorem NewHandler_port:
  assumes "set host \<inter> {CHR '':'', CHR ''['', CHR '']''} = {}"
  shows "NewHandler apiUrl (host @ CHR '':'' # FormatInt (scast port)) = Some (kApiUrls apiUrl, port)
    \<and> GetCometUdpUrl lip port = ''http://'' @ lip @ '':'' @ FormatInt (scast port) @ kApiGetUAddr"
proof -
  have "ucast (scast port :: i64) = port" by transfer (simp add: take_bit_signed_take_bit)
  moreover have "SplitHostPort (host @ CHR '':'' # FormatInt (scast port)) = Some (host, FormatInt (scast port))"
    by (rule SplitHostPort_plain [OF assms]) (simp add: FormatInt_no_char)
  ultimately show ?thesis by (simp add: NewHandler_def GetCometUdpUrl_def ParseInt_FormatInt)
qed

theorem NewHandler_port_witness:
  "NewHandler ''http://api'' ('':'' @ FormatInt 8081) = Some (kApiUrls ''http://api'', 8081)
    \<and> GetCometUdpUrl ''10.0.0.7'' 8081 = ''http://'' @ ''10.0.0.7'' @ '':'' @ FormatInt 8081 @ kApiGetUAddr"
  using NewHandler_port [of "[]" "''http://api''" 8081 "''10.0.0.7''"] by simp

end
