(* ===== verification/Spec2Isabelle.thy ===== *)
theory Spec2Isabelle
  imports BusMain StartRace UdpLogin UdpRace UdpServer UdpTask WsHandler BusRace CometMain
begin

text \<open>
  A verification development for the servers that forward messages between phones and household devices (boards).

  \<^bold>\<open>The program.\<close>  Two kinds of servers, written in Go.  A \<^emph>\<open>comet\<close> (\<^verbatim>\<open>src/comet\<close>) holds the connections of clients: phones and boards over websockets,
  or devices over UDP.  A \<^emph>\<open>message bus\<close> (\<^verbatim>\<open>src/msgbus\<close>) forwards between comets: every comet is connected to the buses, sends each message of a client with
  the ids it is for to one of them, and the bus sends it on to the comets these ids are connected to.  Which id is connected where is counted by the comets in redis and
  published; a bus keeps a table of it.  Redis also holds the sessions of the UDP devices and carries announcements to the comets.  Comets and buses find
  each other through ZooKeeper.  \<^verbatim>\<open>src/msgs\<close> is the message codec of both.

  \<^bold>\<open>Shared theories.\<close>
  \<^item> \<open>Go_Prelude\<close>, \<open>Go_Strings\<close>, \<open>Go_Encoding\<close>: what is used of Go and its library.  Integers are words of their width, so that wrap-around is
    that of the code; pure code that can panic returns an option; stateful code is a function \<open>('s, 'a) go\<close> whose outcome is a result, a panic or
    blocking for ever, with the state reached.
  \<^item> \<open>Hlist\<close>, \<open>Blocks\<close>, \<open>Frames\<close>: the interface of the list package, the tables of 128 blocks, the frames between comets and buses.
  \<^item> \<open>Redis\<close>: the commands of redis as a parameter, with locales for their documented behaviour.

  \<^bold>\<open>Components.\<close>
  \<^item> \<open>Msgs\<close> (\<^verbatim>\<open>msgs/*.go\<close>): headers, messages, checksums, status bodies.  The checksum is the remainder of a polynomial division and detects every
    change of a single byte; headers and messages are read back as written.
  \<^item> \<open>Comets\<close>, \<open>UserMap\<close>, \<open>BusHandler\<close>, \<open>BusServer\<close>, \<open>BusListener\<close> (\<^verbatim>\<open>msgbus/comet.go\<close>, \<^verbatim>\<open>usermap.go\<close>, \<^verbatim>\<open>handler.go\<close>, \<^verbatim>\<open>main.go\<close>, \<^verbatim>\<open>server.go\<close>, \<^verbatim>\<open>tcp_server.go\<close>): a
    bus.  Its table refines a set of pairs of user and host; a frame for several users reaches exactly the comets they are at, each with exactly their
    ids; the receive loop handles exactly the messages framed; the listener.
  \<^item> \<open>CometRedis\<close>, \<open>Presence\<close>, \<open>BusStart\<close> (\<^verbatim>\<open>comet/redis.go\<close>, \<^verbatim>\<open>msgbus/redis.go\<close>, the start of \<^verbatim>\<open>msgbus/main.go\<close>): the Lua scripts, the publications, and that a bus
    that starts at any time comes to list a user at a host exactly when the host has an open connection of the user.
  \<^item> \<open>StartRace\<close> (the same code of a bus, with \<^verbatim>\<open>Load\<close> of \<^verbatim>\<open>msgbus/usermap.go\<close>): loading and the handling of notifications interleaved step by step.  Outside one window no user
    is missed; two short runs show that a user that has left can stay listed, and that in the window a user is lost.
  \<^item> \<open>BusMan\<close>, \<open>BusRace\<close> (\<^verbatim>\<open>comet/msgbus_man.go\<close>, the sending half of \<^verbatim>\<open>comet/msgbus.go\<close>): the comet's list of buses, once with atomic operations and once with the
    steps between which goroutines can be interleaved.  Round robin; concurrent pushes lose and mix nothing and terminate; a bus that closes at the wrong
    moment crashes the comet.
  \<^item> \<open>Session\<close>, \<open>WsHandler\<close> (\<^verbatim>\<open>comet/session.go\<close>, \<^verbatim>\<open>util.go\<close>, \<^verbatim>\<open>conn.go\<close>, \<^verbatim>\<open>websocket.go\<close>): websocket clients, from the login string to the end of the
    connection, and the list of sessions.  Destinations are always bound to the sender; a session leaves nothing behind in redis and in the list.
  \<^item> \<open>Client\<close>, \<open>Binding\<close> (\<^verbatim>\<open>comet/client.go\<close>, the receiving half of \<^verbatim>\<open>comet/msgbus.go\<close>, the subscriptions of \<^verbatim>\<open>comet/redis.go\<close>): frames from a bus and messages from redis, for
    both types of comets; what a binding event does, on one comet and on several.
  \<^item> \<open>UdpSession\<close>, \<open>UdpHandler\<close>, \<open>UdpInvariant\<close>, \<open>UdpLogin\<close>, \<open>UdpServer\<close> (\<^verbatim>\<open>comet/udp_session.go\<close>, \<^verbatim>\<open>udp_handler.go\<close>, \<^verbatim>\<open>task.go\<close>, \<^verbatim>\<open>udp_server.go\<close>): UDP devices.  Sessions are
    stored under locks; handled commands are not accepted again; every operation gives its lock back and keeps the timers consistent; answers
    pass the checks of packets; forwarded packets cannot stop the receive loop.
  \<^item> \<open>UdpRace\<close> (\<^verbatim>\<open>comet/udp_handler.go\<close>): the handler cut into the steps between which the goroutines of several packets can be interleaved.  Alone the steps are the handler; in
    every interleaving a lock has one owner, the numbers with which a session is saved follow the order the packet check asks for, and no command is executed twice.
  \<^item> \<open>Status\<close>, \<open>Discovery\<close>, \<open>CometMain\<close>, \<open>BusMain\<close> (\<^verbatim>\<open>status.go\<close>, \<^verbatim>\<open>zk.go\<close>, \<^verbatim>\<open>main.go\<close>, \<^verbatim>\<open>signal.go\<close> of both servers): counters and rates, registration and
    discovery, the start of a comet and of a bus and their end.  A comet is clean before it serves; a bus is announced only when it can serve.
  \<^item> \<open>UdpTask\<close> (\<^verbatim>\<open>comet/udp_task.go\<close>, \<^verbatim>\<open>udpConn\<close> of \<^verbatim>\<open>comet/conn.go\<close>): code no other part calls.

  This theory has the properties that span components: a message from the pushing comet over the bus, whose table follows the connections of the comets,
  to the sessions of the addressed users, the announcement of a device from its login to its users, and the counter of bus connections.

  \<^bold>\<open>Parameters.\<close>  Code outside the repository is an argument of the definitions, and what is relied on of it is a locale: the list package (\<open>hlist\<close>, with
  \<open>srv_lists\<close>, \<open>sess_lists\<close>, \<open>host_lists\<close> and \<open>id_lists\<close> for its four uses), redis (\<open>redis_counters\<close>, \<open>redis_sets\<close>, \<open>redis_strings\<close>, \<open>redis_publish\<close>,
  \<open>redis_sessions\<close>, \<open>redis_deletion\<close>, \<open>comet_redis\<close>), JSON, UUIDs and the lock service (\<open>udp_store\<close>, \<open>udp_shared\<close>), the counters (\<open>app_stat\<close>).  \<open>blocks\<close> and \<open>presence\<close> are interfaces between
  components.  Every locale is interpreted, and the examples are evaluated with those interpretations.  The network, the clock, random numbers and the
  order of Go's maps are environments that decide from the history so far, so that the theorems hold for all of their choices.

  \<^bold>\<open>Bounds.\<close>  No definition runs on fuel: loops over received bytes recurse on the input with a termination proof, and goroutines that wait for ever are given the
  finite list of what they receive, which is arbitrary.  Where a theorem has a bound it is one of the code: 16-bit frame sizes (\<open>frame_fits\<close>), receive
  buffers of 1 KiB in comets, 32 KiB in buses and 10 KiB for UDP packets.

  \<^bold>\<open>Granularity.\<close>  In \<open>BusRace\<close>, \<open>Discovery\<close>, \<open>StartRace\<close> and \<open>UdpRace\<close> goroutines are interleaved; elsewhere an operation that holds a mutex is one step, and a goroutine
  started for a message is run to its end at once.  The operations of the list package and \<^verbatim>\<open>OfflineHost\<close>, which locks one block after the other, are single steps
  everywhere.  The end of the program (\<^verbatim>\<open>glog.Fatal\<close>) is modelled as a panic.

  \<^bold>\<open>Not modelled.\<close>  The http and websocket servers, dialling and resolving of addresses beyond their outcome, parsing of flags, delivery of signals, the page that shows the
  counters, log output: libraries or input and output.  \<^verbatim>\<open>comet/token.go\<close> is commented out; \<^verbatim>\<open>src/test\<close> and \<^verbatim>\<open>src/comet/test\<close> are programs to try the servers by
  hand.  The interleaving of message handlers inside a bus, whose tables are locked, is not refined below the granularity above.
\<close>

section \<open>From client to client\<close>

text \<open>The bytes a comet has written to a bus connection.\<close>

definition sent_to_bus :: "bus_conn \<Rightarrow> comet_event list \<Rightarrow> byte list" where
  "sent_to_bus c tr = concat (map (\<lambda>e. case e of BusWrite d bs \<Rightarrow> if d = c then bs else [] | _ \<Rightarrow> []) tr)"

lemma client_loop_one:
  assumes "length msg \<le> BusServer.PAYLOAD_MAX"
  obtains stale where "client_loop H J env buf (framed msg) = MainHandle H J env (mk_slice msg stale)"
proof -
  obtain buf' stale where "client_loop H J env buf (framed msg @ []) =
      go_seq (MainHandle H J env (mk_slice msg stale)) (client_loop H J env buf' [])"
    using client_loop_deliver [OF assms, of buf H J env "[]"] by blast
  moreover have "client_loop H J env buf' [] = go_ret ()" by (simp add: client_loop.simps)
  ultimately show ?thesis using that [of stale] by (simp add: go_seq_ret)
qed

text \<open>What the websocket comet at a host does with its share of a message.\<close>

definition share_events :: "('e, 'h) hosts_ops \<Rightarrow> 'h bus \<Rightarrow> ('f, 'g) sess_ops \<Rightarrow> ('d, 'i, 'g) comet \<Rightarrow> string \<Rightarrow> i64 list \<Rightarrow> byte list \<Rightarrow> comet_event list" where
  "share_events H s K c k ids msg = (if ids_for H s k ids = [] then [] else frame_events K c (rev (ids_for H s k ids)) msg)"

lemma reciver_loop_share:
  assumes "length (id_frame ids msg) \<le> Client.PAYLOAD_MAX" and "\<And>uid. uid \<in> set ids \<Longrightarrow> sess_up env c (sess_list K c uid)"
  shows "reciver_loop (HandleMsg_ws K env) (replicate Client.PAYLOAD_MAX 0) (comet_share H s k ids msg) c =
    (Ret (), c\<lparr>trace := trace c @ share_events H s K c k ids msg\<rparr>)"
proof -
  let ?ids = "rev (ids_for H s k ids)"
  have "length ?ids \<le> length ids" by (simp add: ids_for_def)
  then have len: "length (id_frame ?ids msg) \<le> Client.PAYLOAD_MAX" using assms(1) by simp
  have none: "reciver_loop (HandleMsg_ws K env) (replicate Client.PAYLOAD_MAX 0) [] c = (Ret (), c)"
    by (simp add: reciver_loop.simps go_monad)
  have "reciver_loop (HandleMsg_ws K env) (replicate Client.PAYLOAD_MAX 0) (framed (id_frame ?ids msg)) (c\<lparr>trace := trace c\<rparr>) =
      (Ret (), c\<lparr>trace := trace c @ frame_events K c ?ids msg\<rparr>)"
    using reciver_loop_ws_frames [of "[(?ids, msg)]" env c K "[]" "replicate Client.PAYLOAD_MAX 0" "trace c"] len assms(2)
    by (auto simp: fits_comet_def ids_for_def Client.PAYLOAD_MAX_def simp del: length_id_frame)
  then show ?thesis using none by (simp add: comet_share_def share_events_def)
qed

text \<open>A message gets from one client to the others: what a comet pushes for a list of users is written to the bus whose turn it is; the bus, reading
  exactly those bytes from the connection, handles them and writes to the connections of the comets; and every websocket comet, reading
  exactly what was written to its connection, sends the unchanged message once to each session of those addressed users the bus lists there, and to nobody else.
  The frame fits the comet's 1024 bytes.\<close>

theorem message_end_to_end:
  assumes "hlist B" and "i < length (hl_elems B (bm_list c))" and "bm_curr c = Some (hl_elems B (bm_list c) ! i)" and "buses_up B cenv (bm_list c)"
    and H: "hlist H" and J: "hlist J" and inv: "users_inv H s" and fwd: "forwarded src msg" and users: "filter go_neg ids = []"
    and net: "\<forall>tr c bs. tcp_ok env tr c bs" and known: "\<forall>k. ids_for H s k ids \<noteq> [] \<longrightarrow> k \<in> dom (Servers s)"
    and inj: "inj_on (host_conn s) (dom (Servers s))"
    and order: "\<And>tr ks. distinct ks \<Longrightarrow> distinct (map_order env tr ks) \<and> set (map_order env tr ks) = set ks"
    and fits: "length (id_frame ids msg) \<le> 1024"
    and up: "\<And>k uid. k \<in> dom (Servers s) \<Longrightarrow> uid \<in> set ids \<Longrightarrow> sess_up (wenv k) (ws k) (sess_list K (ws k) uid)"
  shows "\<exists>c' es es'. Push2Bus B cenv src ids msg c = (Ret (), c') \<and> trace c' = trace c @ es
    \<and> client_loop H J env (replicate INIT_MAX 0) (sent_to_bus (nth_conn B (bm_list c) i) es) s = (Ret (), s\<lparr>events := events s @ es'\<rparr>)
    \<and> (\<forall>k \<in> dom (Servers s). reciver_loop (HandleMsg_ws K (wenv k)) (replicate Client.PAYLOAD_MAX 0) (written (host_conn s k) es') (ws k) =
        (Ret (), (ws k)\<lparr>trace := trace (ws k) @ share_events H s K (ws k) k ids msg\<rparr>))"
proof -
  have ff: "frame_fits ids msg" "length (bus_frame src ids msg) \<le> BusServer.PAYLOAD_MAX"
    using fits by (simp_all add: frame_fits_def bus_frame_def BusServer.PAYLOAD_MAX_def)
  let ?w = "nth_conn B (bm_list c) i"
  define es where "es = [BusWrite ?w (framed (bus_frame src ids msg)), CStatInc CUpStreamOut]"
  obtain c' where push: "Push2Bus B cenv src ids msg c = (Ret (), c')" "trace c' = trace c @ es"
    using srv_lists.Push2Bus_nth [OF srv_lists.intro [OF assms(1)] assms(2-4) ff(1), of src] by (simp add: es_def)
  have sent: "sent_to_bus ?w es = framed (bus_frame src ids msg)" by (simp add: es_def sent_to_bus_def)
  obtain stale where loop: "client_loop H J env (replicate INIT_MAX 0) (framed (bus_frame src ids msg)) = MainHandle H J env (mk_slice (bus_frame src ids msg) stale)"
    by (rule client_loop_one [OF ff(2)])
  obtain es' where main: "MainHandle H J env (mk_slice (bus_frame src ids msg) stale) s = (Ret (), s\<lparr>events := events s @ es'\<rparr>)"
    and share: "\<forall>k \<in> dom (Servers s). written (host_conn s k) es' = comet_share H s k ids msg"
    using MainHandle_ws [OF H J inv ff(1) fwd users net known inj order] by blast
  have "reciver_loop (HandleMsg_ws K (wenv k)) (replicate Client.PAYLOAD_MAX 0) (written (host_conn s k) es') (ws k) =
      (Ret (), (ws k)\<lparr>trace := trace (ws k) @ share_events H s K (ws k) k ids msg\<rparr>)" if "k \<in> dom (Servers s)" for k
    using reciver_loop_share [of ids msg "wenv k" "ws k" K H s k] up [OF that] fits share that by (simp add: Client.PAYLOAD_MAX_def)
  then show ?thesis using push sent loop main by auto
qed

lemma sample_sess_up: "sess_up sample_cenv sample_comet (sess_list (plain_hlist True) sample_comet u)"
  using sample_comet_facts(1,2) sample_comet_facts(3) [of u]
  by (cases "u = 17") (simp_all add: sess_up_def sample_cenv_def sample_session_def)

lemma sample_bus_turn:
  "length (hl_elems (plain_hlist True) (bm_list sample_man)) = 1" "bm_curr sample_man = Some (hl_elems (plain_hlist True) (bm_list sample_man) ! 0)"
  "buses_up (plain_hlist True) sample_cenv (bm_list sample_man)" "nth_conn (plain_hlist True) (bm_list sample_man) 0 = 4"
  by (simp_all add: sample_man_eq plain_hlist_def Let_def buses_up_def hl_vals_def sample_cenv_def nth_conn_def)

theorem message_end_to_end_witness:
  "\<exists>c' es es'. Push2Bus (plain_hlist True) sample_cenv 33 [17, 18] [3, 0] sample_man = (Ret (), c') \<and> trace c' = trace sample_man @ es
    \<and> client_loop (plain_hlist True) (plain_hlist True) sample_env (replicate INIT_MAX 0) (sent_to_bus 4 es) sample_bus = (Ret (), sample_bus\<lparr>events := events sample_bus @ es'\<rparr>)
    \<and> reciver_loop (HandleMsg_ws (plain_hlist True) sample_cenv) (replicate Client.PAYLOAD_MAX 0) (written 5 es') sample_comet =
        (Ret (), sample_comet\<lparr>trace := trace sample_comet @ [CStatInc CDownStreamIn, WsSend 3 [3, 0], CStatInc CDownStreamOut]\<rparr>)"
proof -
  have "\<exists>c' es es'. Push2Bus (plain_hlist True) sample_cenv 33 [17, 18] [3, 0] sample_man = (Ret (), c') \<and> trace c' = trace sample_man @ es
    \<and> client_loop (plain_hlist True) (plain_hlist True) sample_env (replicate INIT_MAX 0) (sent_to_bus (nth_conn (plain_hlist True) (bm_list sample_man) 0) es) sample_bus
      = (Ret (), sample_bus\<lparr>events := events sample_bus @ es'\<rparr>)
    \<and> (\<forall>k \<in> dom (Servers sample_bus). reciver_loop (HandleMsg_ws (plain_hlist True) sample_cenv) (replicate Client.PAYLOAD_MAX 0) (written (host_conn sample_bus k) es') sample_comet =
        (Ret (), sample_comet\<lparr>trace := trace sample_comet @ share_events (plain_hlist True) sample_bus (plain_hlist True) sample_comet k [17, 18] [3, 0]\<rparr>))"
    by (rule message_end_to_end [OF plain.hlist_axioms _ sample_bus_turn(2,3) plain.hlist_axioms plain.hlist_axioms sample_bus_inv])
       (simp_all add: sample_bus_turn(1) forwarded_def go_neg_def sample_env_def sample_ids_for sample_bus_Servers sample_sess_up)
  moreover have "share_events (plain_hlist True) sample_bus (plain_hlist True) sample_comet ''a'' [17, 18] [3, 0] =
      [CStatInc CDownStreamIn, WsSend 3 [3, 0], CStatInc CDownStreamOut]"
    using sample_comet_facts(2) sample_up(2) by (simp add: share_events_def sample_ids_for frame_events_def)
  ultimately show ?thesis by (simp add: sample_bus_Servers host_conn_def sample_bus_turn(4))
qed

text \<open>The addressed users that have a connection open at a host, and what the websocket comet there does for them.\<close>

definition connected_ids :: "'r redis_ops \<Rightarrow> 'r \<Rightarrow> string \<Rightarrow> i64 list \<Rightarrow> i64 list" where
  "connected_ids R r k ids = filter (\<lambda>u. go_pos u \<and> 0 < conns R r u k) ids"

definition connected_events :: "'r redis_ops \<Rightarrow> 'r \<Rightarrow> ('f, 'g) sess_ops \<Rightarrow> ('d, 'i, 'g) comet \<Rightarrow> string \<Rightarrow> i64 list \<Rightarrow> byte list \<Rightarrow> comet_event list" where
  "connected_events R r K c k ids msg = (if connected_ids R r k ids = [] then [] else frame_events K c (rev (connected_ids R r k ids)) msg)"

lemma ids_for_connected:
  assumes "comet_redis R" and "comet_redis.agrees R H r s" and "kv t = kv s"
  shows "users_inv H t" and "ids_for H t k ids = connected_ids R r k ids"
proof -
  have "kv_get t = kv_get s" using assms(3) by (simp add: fun_eq_iff kv_get_def)
  then show "users_inv H t" "ids_for H t k ids = connected_ids R r k ids"
    using assms(2,3) comet_redis.agrees_def [OF assms(1), of H r s]
    by (simp_all add: users_inv_def user_wf_def hosts_def fun_eq_iff ids_for_def connected_ids_def online_at_def host_list_def)
qed

text \<open>C1: Messages follow connections: a bus that was started at any time and has handled what the comets published since then routes a message by the
  connections that are open.  What a comet pushes for a list of users is written to the bus whose turn it is, and every websocket comet that
  reads what the bus, reading this, has written to it sends the unchanged message to each session of exactly those addressed users that redis counts a connection for
  at this comet.\<close>

theorem message_follows_connections:
  assumes H: "hlist H" and R: "comet_redis R" and "distinct hs" and "0 < n"
    and keys: "\<forall>h \<in> set hs. hkeys (HostUsers h) = Some (map FormatInt (us h)) \<and> distinct (us h) \<and> set (us h) = {u. 0 < conns R r0 u h}"
    and nonneg: "\<And>u h. 0 \<le> conns R r0 u h" and others: "\<And>u h. h \<notin> set hs \<Longrightarrow> conns R r0 u h = 0" and ops: "ops_ok R ops r0"
    and r: "r = fold (comet_step R) ops r0" and ns: "notices_of R r = notices_of R r0 @ ns"
    and start: "bus_start H (Subscription n # map Message ns) (Some (map HostUsers hs)) hkeys s0 = (Ret (), s1)" and table: "kv s = kv s1"
    and B: "hlist B" and bus: "i < length (hl_elems B (bm_list c))" "bm_curr c = Some (hl_elems B (bm_list c) ! i)" "buses_up B cenv (bm_list c)"
    and J: "hlist J" and fwd: "forwarded src msg" and users: "filter go_neg ids = []" and net: "\<forall>tr c bs. tcp_ok env tr c bs"
    and known: "\<forall>k. connected_ids R r k ids \<noteq> [] \<longrightarrow> k \<in> dom (Servers s)" and inj: "inj_on (host_conn s) (dom (Servers s))"
    and order: "\<And>tr ks. distinct ks \<Longrightarrow> distinct (map_order env tr ks) \<and> set (map_order env tr ks) = set ks"
    and fits: "length (id_frame ids msg) \<le> 1024"
    and up: "\<And>k uid. k \<in> dom (Servers s) \<Longrightarrow> uid \<in> set ids \<Longrightarrow> sess_up (wenv k) (ws k) (sess_list K (ws k) uid)"
  shows "\<exists>c' es es'. Push2Bus B cenv src ids msg c = (Ret (), c') \<and> trace c' = trace c @ es
    \<and> client_loop H J env (replicate INIT_MAX 0) (sent_to_bus (nth_conn B (bm_list c) i) es) s = (Ret (), s\<lparr>events := events s @ es'\<rparr>)
    \<and> (\<forall>k \<in> dom (Servers s). reciver_loop (HandleMsg_ws K (wenv k)) (replicate Client.PAYLOAD_MAX 0) (written (host_conn s k) es') (ws k) =
        (Ret (), (ws k)\<lparr>trace := trace (ws k) @ connected_events R r K (ws k) k ids msg\<rparr>))"
proof -
  obtain ns' s' where "notices_of R r = notices_of R r0 @ ns'" and run: "comet_redis.agrees R H r s'"
    "bus_start H (Subscription n # map Message ns') (Some (map HostUsers hs)) hkeys s0 = (Ret (), s')"
    using bus_start_agrees [OF assms(1-8), of s0] r by blast
  then have "ns' = ns" using ns by simp
  then have "comet_redis.agrees R H r s1" using run start by simp
  note at = ids_for_connected [OF R this table]
  have ev: "share_events H s K (ws k) k ids msg = connected_events R r K (ws k) k ids msg" for k
    by (simp add: share_events_def connected_events_def at(2))
  have known': "\<forall>k. ids_for H s k ids \<noteq> [] \<longrightarrow> k \<in> dom (Servers s)" using known by (simp add: at(2))
  show ?thesis
    unfolding ev [symmetric] by (rule message_end_to_end [OF B bus H J at(1) fwd users net known' inj order fits up])
qed

text \<open>A run of comets: 17 is connected when the bus starts, 18 comes and goes.\<close>

definition sample_r0 :: plain_store where
  "sample_r0 = comet_step plain_redis (Connect 17 ''a'') empty_store"

definition sample_ops :: "comet_op list" where
  "sample_ops = [Connect 18 ''a'', Disconnect 18 ''a'']"

lemma sample_conns:
  "conns plain_redis sample_r0 u h = (if u = 17 \<and> h = ''a'' then 1 else 0)"
  "conns plain_redis (fold (comet_step plain_redis) sample_ops sample_r0) u h = (if u = 17 \<and> h = ''a'' then 1 else 0)"
  "ops_ok plain_redis sample_ops sample_r0"
proof -
  have zero: "conns plain_redis empty_store u h = 0" for u h by (simp add: plain_redis_def empty_store_def)
  have one: "conns plain_redis sample_r0 u h = (if u = 17 \<and> h = ''a'' then 1 else 0)" for u h
    using zero by (simp add: sample_r0_def plain_comets.comet_step_count del: comet_step.simps)
  then show "conns plain_redis sample_r0 u h = (if u = 17 \<and> h = ''a'' then 1 else 0)"
    "conns plain_redis (fold (comet_step plain_redis) sample_ops sample_r0) u h = (if u = 17 \<and> h = ''a'' then 1 else 0)"
    "ops_ok plain_redis sample_ops sample_r0"
    by (simp_all add: sample_ops_def plain_comets.comet_step_count del: comet_step.simps)
qed

theorem message_follows_connections_witness:
  "\<exists>ns s1 c' es es'. bus_start (plain_hlist True) (Subscription 1 # map Message ns) (Some [HostUsers ''a'']) (\<lambda>_. Some [FormatInt 17]) sample_bus = (Ret (), s1)
    \<and> Push2Bus (plain_hlist True) sample_cenv 33 [17, 18] [3, 0] sample_man = (Ret (), c') \<and> trace c' = trace sample_man @ es
    \<and> client_loop (plain_hlist True) (plain_hlist True) sample_env (replicate INIT_MAX 0) (sent_to_bus 4 es) (sample_bus\<lparr>kv := kv s1\<rparr>)
      = (Ret (), sample_bus\<lparr>kv := kv s1, events := events sample_bus @ es'\<rparr>)
    \<and> reciver_loop (HandleMsg_ws (plain_hlist True) sample_cenv) (replicate Client.PAYLOAD_MAX 0) (written 5 es') sample_comet =
        (Ret (), sample_comet\<lparr>trace := trace sample_comet @ [CStatInc CDownStreamIn, WsSend 3 [3, 0], CStatInc CDownStreamOut]\<rparr>)"
proof -
  let ?r = "fold (comet_step plain_redis) sample_ops sample_r0" and ?p = "plain_hlist True"
  have ids: "connected_ids plain_redis ?r k [17, 18] = (if k = ''a'' then [17] else [])" for k
    by (simp add: connected_ids_def sample_conns(2) go_pos_def)
  have "\<exists>ns s'. notices_of plain_redis ?r = notices_of plain_redis sample_r0 @ ns
    \<and> bus_start ?p (Subscription 1 # map Message ns) (Some (map HostUsers [''a''])) (\<lambda>_. Some [FormatInt 17]) sample_bus = (Ret (), s')
    \<and> comet_redis.agrees plain_redis ?p ?r s'"
    by (rule bus_start_agrees [OF plain.hlist_axioms plain_comets.comet_redis_axioms, where us = "\<lambda>_. [17]"])
       (simp_all add: sample_conns(1,3))
  then obtain ns s1 where ns: "notices_of plain_redis ?r = notices_of plain_redis sample_r0 @ ns"
    "bus_start ?p (Subscription 1 # map Message ns) (Some (map HostUsers [''a''])) (\<lambda>_. Some [FormatInt 17]) sample_bus = (Ret (), s1)" by blast
  let ?s = "sample_bus\<lparr>kv := kv s1\<rparr>"
  have "\<exists>c' es es'. Push2Bus ?p sample_cenv 33 [17, 18] [3, 0] sample_man = (Ret (), c') \<and> trace c' = trace sample_man @ es
    \<and> client_loop ?p ?p sample_env (replicate INIT_MAX 0) (sent_to_bus (nth_conn ?p (bm_list sample_man) 0) es) ?s = (Ret (), ?s\<lparr>events := events ?s @ es'\<rparr>)
    \<and> (\<forall>k \<in> dom (Servers ?s). reciver_loop (HandleMsg_ws ?p sample_cenv) (replicate Client.PAYLOAD_MAX 0) (written (host_conn ?s k) es') sample_comet =
        (Ret (), sample_comet\<lparr>trace := trace sample_comet @ connected_events plain_redis ?r ?p sample_comet k [17, 18] [3, 0]\<rparr>))"
    by (rule message_follows_connections [OF plain.hlist_axioms plain_comets.comet_redis_axioms _ _ _ _ _ _ refl ns _ plain.hlist_axioms _ sample_bus_turn(2,3)
          plain.hlist_axioms, where us = "\<lambda>_. [17]"])
       (simp_all add: sample_conns(1,3) sample_bus_turn(1) forwarded_def go_neg_def sample_env_def ids sample_bus_Servers sample_sess_up)
  moreover have "connected_events plain_redis ?r ?p sample_comet ''a'' [17, 18] [3, 0] = [CStatInc CDownStreamIn, WsSend 3 [3, 0], CStatInc CDownStreamOut]"
    using sample_comet_facts(2) sample_up(2) by (simp add: connected_events_def ids frame_events_def)
  ultimately show ?thesis
    using ns(2) by (simp add: sample_bus_Servers host_conn_def sample_bus_turn(4)) blast
qed

section \<open>From device to users\<close>

text \<open>C13: The users of a device learn that it is on line: when the web server accepts a device's login at a UDP comet, exactly one text is published, and a
  websocket comet that handles this text sends the online status of the device to each of the device's users, in order.\<close>

theorem device_login_announced:
  assumes "redis_publish (redis_ops.truncate V)" and "ParseInt (hd (split_n 2 CHR ''|'' cookie)) = (did, None)"
    and "GetDeviceUsers (redis_ops.truncate V) did (store st) = Some us"
  shows "\<exists>s' st' channel text. login_session V cookie s st = (Ret s', st')
    \<and> rd_published (redis_ops.truncate V) (store st') = rd_published (redis_ops.truncate V) (store st) @ [(channel, text)]
    \<and> HandleCommonMsg_ws K env channel text = go_each (\<lambda>u. PushCommonMsg K env MIDStatus u (MSTDeviceOnline # le_bytes 8 did @ [0])) us"
  using login_session_run [OF assms, of s]
  by (auto simp: HandleCommonMsg_ws_def common_fields_dev_msg PushMsg_ws_def)

theorem device_login_announced_witness:
  "\<exists>s' st' channel text. login_session plain_svc (FormatInt (- 9)) sample_sess owned_udp = (Ret s', st')
    \<and> ps_pub (store st') = [(channel, text)]
    \<and> HandleCommonMsg_ws (plain_hlist True) sample_cenv channel text
      = go_each (\<lambda>u. PushCommonMsg (plain_hlist True) sample_cenv MIDStatus u (MSTDeviceOnline # le_bytes 8 (- 9 :: i64) @ [0])) [16]"
proof -
  have "CHR ''|'' \<notin> set (FormatInt (- 9))" by (rule FormatInt_no_char) simp_all
  then have "hd (split_n 2 CHR ''|'' (FormatInt (- 9))) = FormatInt (- 9)" by (simp add: numeral_2_eq_2)
  moreover have "rd_published plain_redis = ps_pub" "ps_pub (store owned_udp) = []"
    by (simp_all add: plain_redis_def owned_udp_def empty_store_def)
  ultimately show ?thesis
    using device_login_announced [of plain_svc "FormatInt (- 9)" "- 9" owned_udp "[16]" sample_sess "plain_hlist True" sample_cenv]
      plain_publish.redis_publish_axioms owned_users
    by auto
qed

section \<open>Counters and connections\<close>




end
